(* ===== verification/Prelude.thy ===== *)
theory Prelude
  imports Main "HOL-Library.Word" "HOL-Library.Monad_Syntax"
begin

text \<open>
  Shared vocabulary of the development: the machine integers of the C sources
  (unsigned 32-bit arithmetic on \<open>nat\<close>, signed 32-bit arithmetic on \<open>int\<close>,
  both with the wrap-around written out), the error codes of
  \<^verbatim>\<open>include/blt/error.h\<close>, pointer chains threaded through an array, and the
  FIFO queue interface that the kernel's wait queues implement.
\<close>

unbundle bit_operations_syntax

named_theorems kdefs \<open>definitions of the kernel operations, for unfolding\<close>
named_theorems frame \<open>what an operation leaves unchanged\<close>

section \<open>C integers\<close>

definition u32 :: "nat \<Rightarrow> nat" where
  "u32 n = n mod 4294967296"

definition u32_sub :: "nat \<Rightarrow> nat \<Rightarrow> nat" where
  "u32_sub a b = (a + (4294967296 - b mod 4294967296)) mod 4294967296"

definition u32_of_int :: "int \<Rightarrow> nat" where
  "u32_of_int i = nat (i mod 4294967296)"

definition s32 :: "int \<Rightarrow> int" where
  "s32 i = (i + 2147483648) mod 4294967296 - 2147483648"

lemma u32_less [simp]: "u32 n < 4294967296"
  by (simp add: u32_def)

lemma u32_id [simp]: "n < 4294967296 \<Longrightarrow> u32 n = n"
  by (simp add: u32_def)

lemma u32_sub_less [simp]: "u32_sub a b < 4294967296"
  by (simp add: u32_sub_def)

lemma u32_sub_eq [simp]:
  assumes "b \<le> a" and "a < 4294967296"
  shows "u32_sub a b = a - b"
proof -
  have "a + (4294967296 - b mod 4294967296) = 4294967296 + (a - b)"
    using assms by simp
  then have "u32_sub a b = (4294967296 + (a - b)) mod 4294967296"
    by (simp only: u32_sub_def)
  also have "\<dots> = (a - b) mod 4294967296"
    by (rule mod_add_self1)
  finally show ?thesis
    using assms by simp
qed

lemma u32_Suc [simp]: "u32 (Suc (u32 n)) = u32 (Suc n)"
  by (simp add: u32_def mod_Suc_eq)

lemma u32_sub_Suc [simp]: "u32_sub (u32 (Suc n)) (Suc 0) = u32 n"
  by (simp add: u32_sub_def u32_def mod_simps)

lemma u32_of_int_nat [simp]: "n < 4294967296 \<Longrightarrow> u32_of_int (int n) = n"
  by (simp add: u32_of_int_def nat_mod_as_int)

lemma u32_of_int_less [simp]: "u32_of_int i < 4294967296"
  by (simp add: u32_of_int_def nat_less_iff)

lemma u32_of_int_pos: "0 \<le> i \<Longrightarrow> i < 4294967296 \<Longrightarrow> u32_of_int i = nat i"
  by (simp add: u32_of_int_def)

lemma u32_of_int_neg:
  assumes "i < 0" and "- 2147483648 \<le> i"
  shows "2147483648 \<le> u32_of_int i"
proof -
  have "(i + 4294967296) mod 4294967296 = i + 4294967296"
    using assms by (intro mod_pos_pos_trivial) simp_all
  then have "i mod 4294967296 = i + 4294967296" by simp
  then show ?thesis using assms by (simp add: u32_of_int_def)
qed

lemma s32_id [simp]: "- 2147483648 \<le> i \<Longrightarrow> i < 2147483648 \<Longrightarrow> s32 i = i"
  by (simp add: s32_def)

lemma s32_range: "- 2147483648 \<le> s32 i \<and> s32 i < 2147483648"
  using pos_mod_bound [of 4294967296 "i + 2147483648"]
    pos_mod_sign [of 4294967296 "i + 2147483648"]
  by (simp add: s32_def)

section \<open>Error codes of include/blt/error.h\<close>

abbreviation (input) ERR_NONE :: int where "ERR_NONE \<equiv> 0"
abbreviation (input) ERR_PERMISSION :: int where "ERR_PERMISSION \<equiv> -1"
abbreviation (input) ERR_RESOURCE :: int where "ERR_RESOURCE \<equiv> -2"
abbreviation (input) ERR_MEMORY :: int where "ERR_MEMORY \<equiv> -3"
abbreviation (input) ERR_SENDPORT :: int where "ERR_SENDPORT \<equiv> -4"
abbreviation (input) ERR_RECVPORT :: int where "ERR_RECVPORT \<equiv> -5"
abbreviation (input) ERR_WOULD_BLOCK :: int where "ERR_WOULD_BLOCK \<equiv> -6"
abbreviation (input) ERR_SEGV :: int where "ERR_SEGV \<equiv> -7"

section \<open>Chains threaded through an array\<close>

text \<open>
  \<open>chain nx a xs\<close>: following \<open>nx\<close> from index \<open>a\<close> visits \<open>xs\<close> and ends at 0, the
  way the kernel threads its free page list and its free resource ids.
\<close>

primrec chain :: "(nat \<Rightarrow> nat) \<Rightarrow> nat \<Rightarrow> nat list \<Rightarrow> bool" where
  "chain nx a [] \<longleftrightarrow> a = 0"
| "chain nx a (x # xs) \<longleftrightarrow> a = x \<and> x \<noteq> 0 \<and> chain nx (nx x) xs"

lemma chain_upd [simp]: "u \<notin> set xs \<Longrightarrow> chain (nx(u := v)) a xs = chain nx a xs"
  by (induction xs arbitrary: a) auto

lemma chain_0 [simp]: "chain nx 0 xs \<longleftrightarrow> xs = []"
  by (cases xs) auto

lemma chain_pos: "a \<noteq> 0 \<Longrightarrow> chain nx a xs \<longleftrightarrow> (\<exists>ys. xs = a # ys \<and> chain nx (nx a) ys)"
  by (cases xs) auto

lemma chain_unique: "chain nx a xs \<Longrightarrow> chain nx a ys \<Longrightarrow> xs = ys"
  by (induction xs arbitrary: a ys) (auto simp: chain_pos)

lemma chain_cong: "(\<And>x. x \<in> set xs \<Longrightarrow> nx x = nx' x) \<Longrightarrow> chain nx a xs = chain nx' a xs"
  by (induction xs arbitrary: a) auto

section \<open>Free lists\<close>

text \<open>
  The contract of a free list: \<open>take\<close> removes the head, \<open>give\<close> puts an item back in
  front; \<open>free s xs\<close> says that \<open>xs\<close> are the items available in state \<open>s\<close>. The physical
  page list of \<^verbatim>\<open>memory.c\<close> and the resource ids of \<^verbatim>\<open>resource.c\<close> both implement it.
\<close>

datatype 'a free_op = Take | Give 'a

locale free_list =
  fixes take :: "'s \<Rightarrow> ('a \<times> 's) option"
    and give :: "'a \<Rightarrow> 's \<Rightarrow> 's"
    and free :: "'s \<Rightarrow> 'a list \<Rightarrow> bool"
    and ok :: "'a \<Rightarrow> bool"
  assumes take_Cons: "free s (x # xs) \<Longrightarrow> \<exists>s'. take s = Some (x, s') \<and> free s' xs"
    and take_Nil: "free s [] \<Longrightarrow> take s = None"
    and give_free: "free s xs \<Longrightarrow> x \<notin> set xs \<Longrightarrow> ok x \<Longrightarrow> free (give x s) (x # xs)"
    and free_ok: "free s xs \<Longrightarrow> distinct xs \<and> (\<forall>x \<in> set xs. ok x)"
begin

text \<open>A client runs a list of operations and gives back only what it holds.\<close>

inductive run :: "'s \<Rightarrow> 'a set \<Rightarrow> 'a free_op list \<Rightarrow> 's \<Rightarrow> 'a set \<Rightarrow> bool" where
  run_Nil: "run s H [] s H"
| run_Take: "take s = Some (x, s') \<Longrightarrow> run s' (insert x H) ops s'' H' \<Longrightarrow>
     run s H (Take # ops) s'' H'"
| run_Give: "x \<in> H \<Longrightarrow> run (give x s) (H - {x}) ops s'' H' \<Longrightarrow>
     run s H (Give x # ops) s'' H'"

lemma take_fresh:
  assumes "free s xs" and "take s = Some (x, s')"
  shows "\<exists>ys. xs = x # ys \<and> x \<notin> set ys \<and> free s' ys"
  using assms take_Nil take_Cons free_ok by (cases xs) fastforce+

lemma run_conserves:
  assumes "run s H ops s' H'" and "free s xs" and "H \<inter> set xs = {}" and "\<forall>x \<in> H. ok x"
  shows "\<exists>ys. free s' ys \<and> H' \<inter> set ys = {} \<and> H' \<union> set ys = H \<union> set xs"
  using assms
proof (induction arbitrary: xs rule: run.induct)
  case (run_Nil s H)
  then show ?case by blast
next
  case (run_Take s x s' H ops s'' H')
  from take_fresh [OF run_Take.prems(1) run_Take.hyps(1)] obtain ys where
    ys: "xs = x # ys" "x \<notin> set ys" "free s' ys" by blast
  then have "insert x H \<inter> set ys = {}" and "\<forall>y \<in> insert x H. ok y"
    using run_Take.prems free_ok by auto
  from run_Take.IH [OF ys(3) this] show ?case using ys by auto
next
  case (run_Give x H s ops s'' H')
  have "x \<notin> set xs" and "ok x" using run_Give.prems run_Give.hyps by auto
  then have "free (give x s) (x # xs)" using run_Give.prems give_free by blast
  moreover have "(H - {x}) \<inter> set (x # xs) = {}" using run_Give.prems by auto
  ultimately obtain ys where "free s'' ys" "H' \<inter> set ys = {}"
      "H' \<union> set ys = (H - {x}) \<union> set (x # xs)"
    using run_Give.IH run_Give.prems by blast
  then show ?case using run_Give.hyps by auto
qed

end

section \<open>FIFO queues\<close>

text \<open>
  The contract of a wait queue: \<open>enq\<close> appends an item that is not queued yet, \<open>deq\<close>
  removes the oldest one, \<open>holds s xs\<close> says that \<open>xs\<close> are the queued items, oldest first,
  and \<open>can x s\<close> that \<open>x\<close> is an item that may be queued. \<^verbatim>\<open>list.c\<close> implements it with
  linked nodes; the run queue, the semaphores and the ports of the kernel rely on it.
\<close>

locale fifo_queue =
  fixes enq :: "'a \<Rightarrow> 's \<Rightarrow> 's"
    and deq :: "'s \<Rightarrow> 'a option \<times> 's"
    and holds :: "'s \<Rightarrow> 'a list \<Rightarrow> bool"
    and can :: "'a \<Rightarrow> 's \<Rightarrow> bool"
  assumes enq_holds: "holds s xs \<Longrightarrow> can x s \<Longrightarrow> x \<notin> set xs \<Longrightarrow> holds (enq x s) (xs @ [x])"
    and enq_can: "holds s xs \<Longrightarrow> can x s \<Longrightarrow> x \<notin> set xs \<Longrightarrow> can y s \<Longrightarrow> can y (enq x s)"
    and deq_Nil: "holds s [] \<Longrightarrow> deq s = (None, s)"
    and deq_Cons: "holds s (x # xs) \<Longrightarrow> fst (deq s) = Some x \<and> holds (snd (deq s)) xs"
begin

primrec enq_all :: "'a list \<Rightarrow> 's \<Rightarrow> 's" where
  "enq_all [] s = s"
| "enq_all (x # xs) s = enq_all xs (enq x s)"

primrec deq_many :: "nat \<Rightarrow> 's \<Rightarrow> 'a option list \<times> 's" where
  "deq_many 0 s = ([], s)"
| "deq_many (Suc n) s =
     (let (r, s1) = deq s; (rs, s2) = deq_many n s1 in (r # rs, s2))"

lemma enq_all_holds:
  "holds s xs \<Longrightarrow> \<forall>y \<in> set ys. can y s \<Longrightarrow> distinct (xs @ ys) \<Longrightarrow> holds (enq_all ys s) (xs @ ys)"
proof (induction ys arbitrary: s xs)
  case Nil
  then show ?case by simp
next
  case (Cons y ys)
  then have "holds (enq y s) (xs @ [y])" and "\<forall>z \<in> set ys. can z (enq y s)"
    by (auto intro: enq_holds enq_can)
  from Cons.IH [OF this] Cons.prems(3) show ?case by simp
qed

lemma deq_many_holds:
  "holds s xs \<Longrightarrow> n \<le> length xs \<Longrightarrow>
   fst (deq_many n s) = map Some (take n xs) \<and> holds (snd (deq_many n s)) (drop n xs)"
proof (induction n arbitrary: s xs)
  case 0
  then show ?case by simp
next
  case (Suc n)
  then obtain y ys where xs: "xs = y # ys" by (cases xs) auto
  from deq_Cons [OF Suc.prems(1) [unfolded xs]] obtain s1 where
    s1: "deq s = (Some y, s1)" "holds s1 ys" by (cases "deq s") auto
  with Suc.IH [OF s1(2)] Suc.prems(2) xs show ?case
    by (simp add: split_beta)
qed

text \<open>First in, first out: items queued behind \<open>xs\<close> come out after \<open>xs\<close>, in the order they
  went in, and the queue is empty afterwards.\<close>

lemma fifo_order:
  assumes "holds s xs" and "\<forall>y \<in> set ys. can y s" and "distinct (xs @ ys)"
  shows "fst (deq_many (length (xs @ ys)) (enq_all ys s)) = map Some (xs @ ys) \<and>
    holds (snd (deq_many (length (xs @ ys)) (enq_all ys s))) []"
  using deq_many_holds [OF enq_all_holds [OF assms], of "length (xs @ ys)"] by simp

end

end
