(* ===== verification/KMemory.thy ===== *)
theory KMemory
  imports Prelude
begin

text \<open>
  The kernel allocators of \<^verbatim>\<open>kernel/memory.c\<close>: physical pages threaded through
  \<open>pagelist\<close>, kernel virtual pages handed out from the top of kernel space downwards,
  and seven pools of fixed-size blocks carved out of pages. A panic is the result
  \<open>None\<close>. The free chain of a pool and the list of free virtual pages, which the code
  threads through the freed memory itself, are lists of addresses, head first.
\<close>

section \<open>State\<close>

record km_pool =
  km_size :: nat
  used_count :: int
  fresh_count :: nat
  free_count :: int
  free_chain :: "nat list"
  fresh_chain :: nat

record kmem =
  pagelist :: "nat \<Rightarrow> nat"
  freepage :: nat
  total_pages :: nat
  used_pages :: nat
  nextmem :: nat
  freevpagelist :: "(nat \<times> nat) list"
  high :: "nat \<Rightarrow> nat"
  km_map :: "km_pool list"

abbreviation (input) KM16 :: nat where "KM16 \<equiv> 0"
abbreviation (input) KM32 :: nat where "KM32 \<equiv> 1"
abbreviation (input) KM64 :: nat where "KM64 \<equiv> 2"
abbreviation (input) KM96 :: nat where "KM96 \<equiv> 3"
abbreviation (input) KM128 :: nat where "KM128 \<equiv> 4"
abbreviation (input) KM192 :: nat where "KM192 \<equiv> 5"
abbreviation (input) KM256 :: nat where "KM256 \<equiv> 6"
abbreviation (input) KMMAX :: nat where "KMMAX \<equiv> 7"

definition size_map :: "nat list" where
  "size_map =
     [KM16] @ replicate 16 KM16 @ replicate 16 KM32 @ replicate 32 KM64 @
     replicate 32 KM96 @ replicate 32 KM128 @ replicate 64 KM192 @
     replicate 64 KM256 @ replicate 256 0"

definition km_map_init :: "km_pool list" where
  "km_map_init =
    [\<lparr>km_size = 16, used_count = 0, fresh_count = 256, free_count = 0,
       free_chain = [], fresh_chain = 0\<rparr>,
     \<lparr>km_size = 32, used_count = 0, fresh_count = 128, free_count = 0,
       free_chain = [], fresh_chain = 0\<rparr>,
     \<lparr>km_size = 64, used_count = 0, fresh_count = 64, free_count = 0,
       free_chain = [], fresh_chain = 0\<rparr>,
     \<lparr>km_size = 96, used_count = 0, fresh_count = 42, free_count = 0,
       free_chain = [], fresh_chain = 0\<rparr>,
     \<lparr>km_size = 128, used_count = 0, fresh_count = 32, free_count = 0,
       free_chain = [], fresh_chain = 0\<rparr>,
     \<lparr>km_size = 192, used_count = 0, fresh_count = 21, free_count = 0,
       free_chain = [], fresh_chain = 0\<rparr>,
     \<lparr>km_size = 256, used_count = 0, fresh_count = 16, free_count = 0,
       free_chain = [], fresh_chain = 0\<rparr>]"

text \<open>The static state before \<open>memory_init\<close>; \<open>0x80400000 - 4*4096\<close> is the first
  \<open>nextmem\<close>.\<close>

definition kmem_boot :: kmem where
  "kmem_boot = \<lparr>pagelist = (\<lambda>_. 0), freepage = 0, total_pages = 0, used_pages = 0,
     nextmem = 0x80400000 - 4 * 4096, freevpagelist = [], high = (\<lambda>_. 0),
     km_map = km_map_init\<rparr>"

section \<open>Operations\<close>

definition putpage :: "nat \<Rightarrow> kmem \<Rightarrow> kmem" where
  "putpage number m = m\<lparr>pagelist := (pagelist m)(number := freepage m),
     freepage := number, used_pages := u32_sub (used_pages m) 1\<rparr>"

definition getpage :: "kmem \<Rightarrow> (nat \<times> kmem) option" where
  "getpage m =
     (let n = freepage m in
      if n \<noteq> 0
      then Some (n, m\<lparr>freepage := pagelist m n, used_pages := u32 (used_pages m + 1)\<rparr>)
      else None)"

text \<open>\<open>aspace_maphi\<close> of \<^verbatim>\<open>kernel/aspace.c\<close>, on \<open>flat->high\<close> (every address space
  shares it); the TLB flush has no counterpart.\<close>

definition aspace_maphi :: "nat \<Rightarrow> nat \<Rightarrow> nat \<Rightarrow> nat \<Rightarrow> kmem \<Rightarrow> kmem" where
  "aspace_maphi phys virt len flags m =
     fold (\<lambda>i m. m\<lparr>high := (high m)((virt AND 0x3FF) + i := u32 ((phys + i) * 4096) OR flags)\<rparr>)
       [0..<len] m"

text \<open>The check of \<open>kfreeP\<close> lets \<open>KMMAX\<close> itself through; the access past the table
  is undefined, like the panic it is \<open>None\<close>.\<close>

definition kfreeP :: "nat \<Rightarrow> nat \<Rightarrow> kmem \<Rightarrow> kmem option" where
  "kfreeP sz block m =
     (if sz > KMMAX then None
      else if sz = KMMAX then None
      else
        (let km = km_map m ! sz in
         Some (m\<lparr>km_map := (km_map m)[sz := km\<lparr>free_count := free_count km + 1,
            used_count := used_count km - 1, free_chain := block # free_chain km\<rparr>]\<rparr>)))"

definition kfreeB :: "nat \<Rightarrow> nat \<Rightarrow> kmem \<Rightarrow> kmem option" where
  "kfreeB sz block m = (if sz < 256 then kfreeP (size_map ! sz) block m else None)"

text \<open>\<open>sizeof (node_t)\<close>: two pointers and a data word.\<close>

definition sizeof_node :: nat where
  "sizeof_node = 12"

definition kgetpage :: "kmem \<Rightarrow> (nat \<times> nat \<times> kmem) option" where
  "kgetpage m = do {
     (pg, m1) \<leftarrow> getpage m;
     if nextmem m1 < 0x80050000 then None
     else
       (case freevpagelist m1 of
          (n, page) # rest \<Rightarrow> do {
            m2 \<leftarrow> kfreeB sizeof_node n (m1\<lparr>freevpagelist := rest\<rparr>);
            Some (page, u32 (pg * 0x1000), aspace_maphi pg (page div 0x1000) 1 3 m2)
          }
        | [] \<Rightarrow>
            (let nm = u32_sub (nextmem m1) 4096 in
             Some (nm, u32 (pg * 0x1000),
               aspace_maphi pg (nm div 0x1000) 1 3 (m1\<lparr>nextmem := nm\<rparr>))))
   }"

fun kgetpages_loop :: "nat \<Rightarrow> nat \<Rightarrow> kmem \<Rightarrow> kmem option" where
  "kgetpages_loop 0 n m = Some m"
| "kgetpages_loop (Suc left) n m = do {
     (pg, m1) \<leftarrow> getpage m;
     kgetpages_loop left (n + 1) (aspace_maphi pg n 1 3 m1)
   }"

definition kgetpages :: "nat \<Rightarrow> kmem \<Rightarrow> (nat \<times> kmem) option" where
  "kgetpages count m =
     (if count = 1 then do { (v, phys, m1) \<leftarrow> kgetpage m; Some (v, m1) }
      else
        (let nm = u32_sub (nextmem m) (4096 * count) in do {
           m1 \<leftarrow> kgetpages_loop count (nm div 0x1000) (m\<lparr>nextmem := nm\<rparr>);
           Some (nm, m1)
         }))"

definition kmappages :: "nat \<Rightarrow> nat \<Rightarrow> nat \<Rightarrow> kmem \<Rightarrow> nat \<times> kmem" where
  "kmappages phys count flags m =
     (let nm = u32_sub (nextmem m) (4096 * count)
      in (nm, aspace_maphi phys (nm div 0x1000) count flags (m\<lparr>nextmem := nm\<rparr>)))"

definition kmallocP :: "nat \<Rightarrow> kmem \<Rightarrow> (nat \<times> kmem) option" where
  "kmallocP sz m =
     (if sz \<ge> KMMAX then None
      else
        (let km = (km_map m ! sz)\<lparr>used_count := used_count (km_map m ! sz) + 1\<rparr> in
         case free_chain km of
           block # rest \<Rightarrow>
             Some (block, m\<lparr>km_map := (km_map m)[sz :=
               km\<lparr>free_count := free_count km - 1, free_chain := rest\<rparr>]\<rparr>)
         | [] \<Rightarrow>
             (let block = fresh_chain km; left = fresh_count km - 1 in
              if left \<noteq> 0
              then Some (block, m\<lparr>km_map := (km_map m)[sz :=
                km\<lparr>fresh_count := left, fresh_chain := fresh_chain km + km_size km\<rparr>]\<rparr>)
              else do {
                (pg, m1) \<leftarrow> kgetpages 1 (m\<lparr>km_map := (km_map m)[sz :=
                   km\<lparr>fresh_count := 4096 div km_size km\<rparr>]\<rparr>);
                Some (block, m1\<lparr>km_map := (km_map m1)[sz :=
                   (km_map m1 ! sz)\<lparr>fresh_chain := pg\<rparr>]\<rparr>)
              })))"

definition kmallocB :: "nat \<Rightarrow> kmem \<Rightarrow> (nat \<times> kmem) option" where
  "kmallocB sz m = (if sz < 256 then kmallocP (size_map ! sz) m else None)"

definition kfreepage :: "nat \<Rightarrow> kmem \<Rightarrow> kmem option" where
  "kfreepage vaddr m =
     (let vpage = (vaddr div 0x1000) AND 0x3FF;
          pageno = high m vpage div 0x1000;
          m1 = putpage pageno m;
          m2 = m1\<lparr>high := (high m1)(vpage := 0)\<rparr>
      in do {
        (n, m3) \<leftarrow> kmallocB sizeof_node m2;
        Some (m3\<lparr>freevpagelist := (n, vaddr) # freevpagelist m3\<rparr>)
      })"

text \<open>The two loops of \<open>memory_init\<close>: every page from \<open>top_page\<close> down to
  \<open>bottom_page\<close> goes on the free list, then every pool gets its first page.\<close>

definition init_pagelist :: "nat \<Rightarrow> nat \<Rightarrow> kmem \<Rightarrow> kmem" where
  "init_pagelist bottom_page top_page m =
     fold (\<lambda>i m. m\<lparr>total_pages := total_pages m + 1,
             pagelist := (pagelist m)(i := freepage m), freepage := i\<rparr>)
       (rev [bottom_page..<Suc top_page]) m"

fun init_pools :: "nat list \<Rightarrow> kmem \<Rightarrow> kmem option" where
  "init_pools [] m = Some m"
| "init_pools (i # is) m = do {
     (pg, m1) \<leftarrow> kgetpages 1 m;
     init_pools is (m1\<lparr>km_map := (km_map m1)[i := (km_map m1 ! i)\<lparr>fresh_chain := pg\<rparr>]\<rparr>)
   }"

definition memory_init :: "nat \<Rightarrow> nat \<Rightarrow> kmem \<Rightarrow> kmem option" where
  "memory_init bottom_page top_page m =
     (let count = (top_page - bottom_page) div 1024 + 1;
          top = top_page - count;
          m1 = m\<lparr>total_pages := 0, used_pages := 0,
                 nextmem := u32_sub (nextmem m) (4096 * count)\<rparr>;
          m2 = aspace_maphi top (nextmem m1 div 0x1000) count 3 m1;
          m3 = init_pagelist bottom_page top (m2\<lparr>freepage := 0\<rparr>)
      in init_pools [0..<KMMAX] m3)"

lemmas [kdefs] = putpage_def getpage_def kfreeP_def kfreeB_def kgetpage_def kgetpages_def
  kmallocP_def kmallocB_def kfreepage_def

end
