(* ===== verification/KMemoryInv.thy ===== *)
theory KMemoryInv
  imports KMemory
begin

text \<open>
  Correctness of the allocators of \<^verbatim>\<open>kernel/memory.c\<close>: blocks and pages in use never
  overlap, every operation keeps the allocator invariant, \<open>memory_init\<close> establishes it,
  and the free page list conserves pages.
\<close>

section \<open>Pages and blocks\<close>

text \<open>
  Ghost state of the allocator proofs: \<open>own\<close> says which kernel virtual page belongs to
  which pool or was handed out whole, \<open>L i\<close> is the set of blocks of pool \<open>i\<close> in use.
\<close>

datatype page_owner = Pool nat | Whole

definition psz :: "nat \<Rightarrow> nat" where
  "psz i = [16, 32, 64, 96, 128, 192, 256] ! i"

definition block_ok :: "(nat \<rightharpoonup> page_owner) \<Rightarrow> nat \<Rightarrow> nat \<Rightarrow> bool" where
  "block_ok own i a \<longleftrightarrow>
     (\<exists>P j. own P = Some (Pool i) \<and> j < 4096 div psz i \<and> a = P + j * psz i)"

definition fresh_ok :: "(nat \<rightharpoonup> page_owner) \<Rightarrow> nat set \<Rightarrow> nat \<Rightarrow> km_pool \<Rightarrow> bool" where
  "fresh_ok own A i p \<longleftrightarrow>
     (\<exists>P j. own P = Some (Pool i) \<and> fresh_chain p = P + j * psz i \<and> 0 < fresh_count p \<and>
        j + fresh_count p = 4096 div psz i \<and>
        (\<forall>k. j \<le> k \<longrightarrow> k < 4096 div psz i \<longrightarrow> P + k * psz i \<notin> set (free_chain p) \<union> A))"

definition pool_ok :: "(nat \<rightharpoonup> page_owner) \<Rightarrow> nat set \<Rightarrow> nat \<Rightarrow> km_pool \<Rightarrow> bool" where
  "pool_ok own A i p \<longleftrightarrow>
     km_size p = psz i \<and> free_count p = int (length (free_chain p)) \<and>
     distinct (free_chain p) \<and>
     (\<forall>a \<in> set (free_chain p). block_ok own i a \<and> a \<notin> A) \<and>
     (\<forall>a \<in> A. block_ok own i a)"

definition live :: "(nat \<Rightarrow> nat set) \<Rightarrow> kmem \<Rightarrow> nat \<Rightarrow> nat set" where
  "live L m i = L i \<union> (if i = KM16 then fst ` set (freevpagelist m) else {})"

definition pages_ok :: "(nat \<rightharpoonup> page_owner) \<Rightarrow> kmem \<Rightarrow> bool" where
  "pages_ok own m \<longleftrightarrow>
     (\<forall>P \<in> dom own. 4096 dvd P \<and> nextmem m \<le> P) \<and>
     (\<forall>(n, v) \<in> set (freevpagelist m). own v = None \<and> 4096 dvd v \<and> nextmem m \<le> v) \<and>
     distinct (map snd (freevpagelist m)) \<and> distinct (map fst (freevpagelist m)) \<and>
     4096 dvd nextmem m \<and> nextmem m < 4294967296"

text \<open>\<open>X\<close> is the set of pools whose fresh page is being replaced; between operations it
  is empty.\<close>

definition kmem_invx :: "nat set \<Rightarrow> (nat \<rightharpoonup> page_owner) \<Rightarrow> (nat \<Rightarrow> nat set) \<Rightarrow> kmem \<Rightarrow> bool" where
  "kmem_invx X own L m \<longleftrightarrow>
     length (km_map m) = KMMAX \<and> pages_ok own m \<and>
     L KM16 \<inter> fst ` set (freevpagelist m) = {} \<and>
     (\<forall>i < KMMAX. pool_ok own (live L m i) i (km_map m ! i) \<and>
        (i \<notin> X \<longrightarrow> fresh_ok own (live L m i) i (km_map m ! i)))"

abbreviation kmem_inv :: "(nat \<rightharpoonup> page_owner) \<Rightarrow> (nat \<Rightarrow> nat set) \<Rightarrow> kmem \<Rightarrow> bool" where
  "kmem_inv \<equiv> kmem_invx {}"

lemma psz_simps [simp]:
  "psz 0 = 16" "psz (Suc 0) = 32" "psz 1 = 32" "psz 2 = 64" "psz 3 = 96" "psz 4 = 128" "psz 5 = 192" "psz 6 = 256"
  by (simp_all add: psz_def)

lemma KMMAX_cases: "i < KMMAX \<Longrightarrow> i \<in> {0, 1, 2, 3, 4, 5, 6}"
  by auto

lemma psz_pos: "i < KMMAX \<Longrightarrow> 0 < psz i \<and> 0 < 4096 div psz i"
  by (drule KMMAX_cases) auto

lemma block_ok_mono: "block_ok own i a \<Longrightarrow> own \<subseteq>\<^sub>m own' \<Longrightarrow> block_ok own' i a"
  unfolding block_ok_def map_le_def by (metis domI)

lemma fresh_ok_mono: "fresh_ok own A i p \<Longrightarrow> own \<subseteq>\<^sub>m own' \<Longrightarrow> fresh_ok own' A i p"
  unfolding fresh_ok_def map_le_def by (metis domI)

lemma pool_ok_mono: "pool_ok own A i p \<Longrightarrow> own \<subseteq>\<^sub>m own' \<Longrightarrow> pool_ok own' A i p"
  unfolding pool_ok_def using block_ok_mono by blast

text \<open>Two different blocks never overlap: blocks of one page are slots of one size, and
  a page belongs to one pool.\<close>

lemma slot_in_page:
  assumes "j < 4096 div s" and "0 < s"
  shows "j * s + s \<le> (4096 :: nat)"
proof -
  have "Suc j * s \<le> (4096 div s) * s" using assms by (intro mult_le_mono1) simp
  also have "\<dots> \<le> 4096" by simp
  finally show ?thesis by simp
qed

lemma blocks_disjoint:
  assumes own: "\<forall>P \<in> dom own. 4096 dvd P"
    and a: "block_ok own i a" and b: "block_ok own k b"
    and i: "i < KMMAX" and k: "k < KMMAX" and ne: "i \<noteq> k \<or> a \<noteq> b"
  shows "{a ..< a + psz i} \<inter> {b ..< b + psz k} = {}"
proof -
  obtain P j where P: "own P = Some (Pool i)" "j < 4096 div psz i" "a = P + j * psz i"
    using a by (auto simp: block_ok_def)
  obtain Q l where Q: "own Q = Some (Pool k)" "l < 4096 div psz k" "b = Q + l * psz k"
    using b by (auto simp: block_ok_def)
  have endP: "j * psz i + psz i \<le> 4096" and endQ: "l * psz k + psz k \<le> 4096"
    using P Q psz_pos [OF i] psz_pos [OF k] by (simp_all add: slot_in_page)
  show ?thesis
  proof (cases "P = Q")
    case True
    with P Q have [simp]: "k = i" by simp
    have "j \<noteq> l" using ne True P Q by auto
    then have "j * psz i + psz i \<le> l * psz i \<or> l * psz i + psz i \<le> j * psz i"
      by (metis Suc_leI add.commute mult_Suc mult_le_mono1 nat_neq_iff)
    then show ?thesis using True P Q by auto
  next
    case False
    obtain p q where pq: "P = 4096 * p" "Q = 4096 * q"
      using own P Q by (meson domI dvd_def)
    then have "P + 4096 \<le> Q \<or> Q + 4096 \<le> P"
      using False by auto
    then show ?thesis using P Q endP endQ by auto
  qed
qed


section \<open>The allocator keeps its invariant\<close>

lemma aspace_maphi_frame [frame, simp]:
  "pagelist (aspace_maphi p v l f m) = pagelist m"
  "freepage (aspace_maphi p v l f m) = freepage m"
  "nextmem (aspace_maphi p v l f m) = nextmem m"
  "freevpagelist (aspace_maphi p v l f m) = freevpagelist m"
  "km_map (aspace_maphi p v l f m) = km_map m"
  "used_pages (aspace_maphi p v l f m) = used_pages m"
proof -
  have "pagelist (aspace_maphi p v l f m) = pagelist m \<and>
    freepage (aspace_maphi p v l f m) = freepage m \<and>
    nextmem (aspace_maphi p v l f m) = nextmem m \<and>
    freevpagelist (aspace_maphi p v l f m) = freevpagelist m \<and>
    km_map (aspace_maphi p v l f m) = km_map m \<and>
    used_pages (aspace_maphi p v l f m) = used_pages m"
    unfolding aspace_maphi_def by (induction l) auto
  then show "pagelist (aspace_maphi p v l f m) = pagelist m"
    "freepage (aspace_maphi p v l f m) = freepage m"
    "nextmem (aspace_maphi p v l f m) = nextmem m"
    "freevpagelist (aspace_maphi p v l f m) = freevpagelist m"
    "km_map (aspace_maphi p v l f m) = km_map m"
    "used_pages (aspace_maphi p v l f m) = used_pages m" by simp_all
qed

lemma getpage_frame [frame]:
  assumes "getpage m = Some (n, m')"
  shows "km_map m' = km_map m" "nextmem m' = nextmem m"
    "freevpagelist m' = freevpagelist m" "high m' = high m"
  using assms by (auto simp: getpage_def Let_def split: if_splits)

lemma kmem_invx_cong:
  assumes "km_map m' = km_map m" and "nextmem m' = nextmem m"
    and "freevpagelist m' = freevpagelist m"
  shows "kmem_invx X own L m' = kmem_invx X own L m"
  by (simp add: kmem_invx_def pages_ok_def live_def assms)

lemma size_map_node [simp]: "size_map ! sizeof_node = KM16"
  unfolding size_map_def sizeof_node_def by code_simp

lemma block_not_in_new_page:
  assumes own: "\<forall>P \<in> dom own. 4096 dvd P" and v: "own v \<noteq> Some (Pool i)" "4096 dvd v"
    and a: "block_ok own i a" and k: "k < 4096 div psz i" and i: "i < KMMAX"
  shows "a \<noteq> v + k * psz i"
proof
  assume eq: "a = v + k * psz i"
  obtain P j where P: "own P = Some (Pool i)" "j < 4096 div psz i" "a = P + j * psz i"
    using a by (auto simp: block_ok_def)
  have "j * psz i + psz i \<le> 4096" "k * psz i + psz i \<le> 4096"
    using P k psz_pos [OF i] by (simp_all add: slot_in_page)
  then have lt: "j * psz i < 4096" "k * psz i < 4096"
    using psz_pos [OF i] by linarith+
  obtain p q where pq: "P = 4096 * p" "v = 4096 * q"
    using own P v by (meson domI dvd_def)
  have "4096 * p + j * psz i = 4096 * q + k * psz i"
    using eq P pq by simp
  with lt have "p = q" by arith
  with pq have "P = v" by simp
  then show False using P v by simp
qed

lemma pool_ok_free:
  assumes "pool_ok own A i p" and "a \<in> A"
  shows "pool_ok own (A - {a}) i (p\<lparr>free_count := free_count p + 1,
     used_count := used_count p - 1, free_chain := a # free_chain p\<rparr>)"
  using assms by (auto simp: pool_ok_def)

lemma fresh_ok_free:
  assumes "fresh_ok own A i p" and "a \<in> A"
  shows "fresh_ok own (A - {a}) i (p\<lparr>free_count := free_count p + 1,
     used_count := used_count p - 1, free_chain := a # free_chain p\<rparr>)"
proof -
  obtain P j where P: "own P = Some (Pool i)" "fresh_chain p = P + j * psz i"
      "0 < fresh_count p" "j + fresh_count p = 4096 div psz i"
      "\<forall>k. j \<le> k \<longrightarrow> k < 4096 div psz i \<longrightarrow> P + k * psz i \<notin> set (free_chain p) \<union> A"
    using assms(1) by (auto simp: fresh_ok_def)
  show ?thesis
    unfolding fresh_ok_def
    by (rule exI [of _ P], rule exI [of _ j]) (use P assms(2) in auto)
qed


lemma live_km_map [simp]: "live L (m\<lparr>km_map := x\<rparr>) i = live L m i"
  by (simp add: live_def)

lemma pages_ok_km_map [simp]: "pages_ok own (m\<lparr>km_map := x\<rparr>) = pages_ok own m"
  by (simp add: pages_ok_def)

lemma kmem_invx_pool:
  assumes inv: "kmem_invx X own L m" and i: "i < KMMAX"
    and dis: "i = KM16 \<longrightarrow> A \<inter> fst ` set (freevpagelist m) = {}"
    and p: "pool_ok own (live (L(i := A)) m i) i p"
    and f: "i \<notin> X \<longrightarrow> fresh_ok own (live (L(i := A)) m i) i p"
  shows "kmem_invx X own (L(i := A)) (m\<lparr>km_map := (km_map m)[i := p]\<rparr>)"
proof -
  let ?p = "\<lambda>k. (km_map m)[i := p] ! k"
  have len: "length (km_map m) = KMMAX" using inv by (simp add: kmem_invx_def)
  have "pool_ok own (live (L(i := A)) m k) k (?p k) \<and>
      (k \<notin> X \<longrightarrow> fresh_ok own (live (L(i := A)) m k) k (?p k))" if "k < KMMAX" for k
  proof (cases "k = i")
    case True
    with p f i len show ?thesis by simp
  next
    case False
    then have "live (L(i := A)) m k = live L m k" by (simp add: live_def)
    with False that inv show ?thesis by (simp add: kmem_invx_def)
  qed
  moreover have "(L(i := A)) KM16 \<inter> fst ` set (freevpagelist m) = {}"
    using inv dis by (simp add: kmem_invx_def)
  ultimately show ?thesis
    using inv by (simp add: kmem_invx_def)
qed

lemma kfreeP_inv:
  assumes inv: "kmem_invx X own L m" and i: "i < KMMAX" and a: "a \<in> L i"
  shows "\<exists>m'. kfreeP i a m = Some m' \<and> kmem_invx X own (L(i := L i - {a})) m' \<and>
    nextmem m' = nextmem m \<and> freevpagelist m' = freevpagelist m"
proof -
  let ?km = "km_map m ! i"
  let ?km' = "?km\<lparr>free_count := free_count ?km + 1,
     used_count := used_count ?km - 1, free_chain := a # free_chain ?km\<rparr>"
  have notin: "i = KM16 \<longrightarrow> a \<notin> fst ` set (freevpagelist m)"
    using inv a unfolding kmem_invx_def by blast
  then have lv: "live (L(i := L i - {a})) m i = live L m i - {a}" and al: "a \<in> live L m i"
    using a by (auto simp: live_def)
  have "pool_ok own (live L m i) i ?km" and "i \<notin> X \<longrightarrow> fresh_ok own (live L m i) i ?km"
    using inv i by (auto simp: kmem_invx_def)
  then have "kmem_invx X own (L(i := L i - {a})) (m\<lparr>km_map := (km_map m)[i := ?km']\<rparr>)"
    using inv i al unfolding kmem_invx_def [of X own L m]
    by (intro kmem_invx_pool [OF inv i]) (auto simp: lv pool_ok_free fresh_ok_free)
  then show ?thesis
    using i by (simp add: kfreeP_def Let_def)
qed

lemma pages_ok_pop:
  assumes ok: "pages_ok own m" and fv: "freevpagelist m = (n, v) # rest"
  shows "own v = None" "4096 dvd v" "pages_ok (own(v \<mapsto> w)) (m\<lparr>freevpagelist := rest\<rparr>)"
    "n \<notin> fst ` set rest"
proof -
  show none: "own v = None" and d: "4096 dvd v" and n: "n \<notin> fst ` set rest"
    using ok fv by (auto simp: pages_ok_def)
  have v: "v \<notin> snd ` set rest" "nextmem m \<le> v"
    using ok fv by (auto simp: pages_ok_def)
  then have "\<forall>(n', v') \<in> set rest. v' \<noteq> v"
    by (force simp: image_iff)
  then show "pages_ok (own(v \<mapsto> w)) (m\<lparr>freevpagelist := rest\<rparr>)"
    using ok fv v d by (auto simp: pages_ok_def)
qed

lemma pages_ok_extend:
  assumes ok: "pages_ok own m" and room: "0x80050000 \<le> nextmem m"
  shows "own (nextmem m - 4096) = None" "4096 dvd nextmem m - 4096"
    "pages_ok (own(nextmem m - 4096 \<mapsto> w)) (m\<lparr>nextmem := nextmem m - 4096\<rparr>)"
proof -
  have lt: "nextmem m - 4096 < nextmem m" using room by simp
  have le: "4096 dvd P \<and> nextmem m \<le> P" if "own P = Some x" for P x
    using ok that by (auto simp: pages_ok_def)
  show none: "own (nextmem m - 4096) = None"
  proof (cases "own (nextmem m - 4096)")
    case (Some x)
    then have "nextmem m \<le> nextmem m - 4096" using le by blast
    with lt show ?thesis by simp
  qed
  show d: "4096 dvd nextmem m - 4096"
    using ok by (auto simp: pages_ok_def intro: dvd_diff_nat)
  have fv: "own v = None \<and> 4096 dvd v \<and> nextmem m \<le> v"
    if "(n, v) \<in> set (freevpagelist m)" for n v
    using ok that by (auto simp: pages_ok_def)
  have "\<forall>P \<in> dom (own(nextmem m - 4096 \<mapsto> w)). 4096 dvd P \<and> nextmem m - 4096 \<le> P"
    using le d lt by (force simp: dom_def split: if_splits)
  moreover have "\<forall>(n, v) \<in> set (freevpagelist m).
      (own(nextmem m - 4096 \<mapsto> w)) v = None \<and> 4096 dvd v \<and> nextmem m - 4096 \<le> v"
    using fv lt by (force split: if_splits)
  ultimately show "pages_ok (own(nextmem m - 4096 \<mapsto> w)) (m\<lparr>nextmem := nextmem m - 4096\<rparr>)"
    using ok d lt by (simp add: pages_ok_def)
qed

lemma kmem_invx_grow:
  assumes inv: "kmem_invx X own L m" and le: "own \<subseteq>\<^sub>m own'" and ok: "pages_ok own' m'"
    and km: "km_map m' = km_map m" and lv: "\<And>k. live L' m' k = live L m k"
    and dis: "L' KM16 \<inter> fst ` set (freevpagelist m') = {}"
  shows "kmem_invx X own' L' m'"
proof -
  have "pool_ok own' (live L m i) i (km_map m ! i) \<and>
      (i \<notin> X \<longrightarrow> fresh_ok own' (live L m i) i (km_map m ! i))" if "i < KMMAX" for i
    using inv that pool_ok_mono [OF _ le] fresh_ok_mono [OF _ le] by (simp add: kmem_invx_def)
  then show ?thesis
    using inv ok dis by (simp add: kmem_invx_def km lv)
qed

lemma pop_vpage_inv:
  assumes inv: "kmem_invx X own L m" and fv: "freevpagelist m = (n, v) # rest"
  shows "\<exists>m'. kfreeB sizeof_node n (m\<lparr>freevpagelist := rest\<rparr>) = Some m' \<and>
    kmem_invx X (own(v \<mapsto> w)) L m' \<and> own v = None \<and> 4096 dvd v \<and>
    freevpagelist m' = rest \<and> nextmem m' = nextmem m"
proof -
  let ?L = "L(KM16 := insert n (L KM16))" and ?m = "m\<lparr>freevpagelist := rest\<rparr>"
  have ok: "pages_ok own m" using inv by (simp add: kmem_invx_def)
  note pop = pages_ok_pop [OF ok fv]
  have le: "own \<subseteq>\<^sub>m own(v \<mapsto> w)" using pop(1) by (auto simp: map_le_def)
  have lv: "live ?L ?m k = live L m k" for k
    using fv by (auto simp: live_def)
  have nL: "n \<notin> L KM16" using inv fv by (auto simp: kmem_invx_def)
  have "kmem_invx X (own(v \<mapsto> w)) ?L ?m"
    by (rule kmem_invx_grow [OF inv le pop(3) _ lv])
      (use inv fv pop(4) nL in \<open>auto simp: kmem_invx_def\<close>)
  from kfreeP_inv [OF this, of KM16 n] obtain m' where
    "kfreeP KM16 n ?m = Some m'" "kmem_invx X (own(v \<mapsto> w)) (?L(KM16 := insert n (L KM16) - {n})) m'"
    "freevpagelist m' = rest" "nextmem m' = nextmem m" by auto
  moreover have "?L(KM16 := insert n (L KM16) - {n}) = L" using nL by auto
  ultimately show ?thesis
    using pop(1,2) size_map_node by (simp add: kfreeB_def sizeof_node_def)
qed

lemma kgetpage_inv:
  assumes inv: "kmem_invx X own L m" and get: "kgetpage m = Some (v, ph, m')"
  shows "kmem_invx X (own(v \<mapsto> w)) L m' \<and> own v = None \<and> 4096 dvd v"
proof -
  obtain pg m1 where g: "getpage m = Some (pg, m1)"
    using get by (cases "getpage m") (auto simp: kgetpage_def)
  have room: "0x80050000 \<le> nextmem m1"
    using get g by (simp add: kgetpage_def split: if_splits)
  have inv1: "kmem_invx X own L m1"
    using inv kmem_invx_cong [OF getpage_frame(1-3) [OF g], of X own L] by simp
  then have ok: "pages_ok own m1" by (simp add: kmem_invx_def)
  show ?thesis
  proof (cases "freevpagelist m1")
    case Nil
    have nm: "u32_sub (nextmem m1) 4096 = nextmem m1 - 4096"
      using ok room by (simp add: pages_ok_def)
    have "v = nextmem m1 - 4096" and
      m': "m' = aspace_maphi pg ((nextmem m1 - 4096) div 4096) 1 3
             (m1\<lparr>nextmem := nextmem m1 - 4096\<rparr>)"
      using get g room Nil nm by (auto simp: kgetpage_def Let_def)
    moreover have "kmem_invx X (own(nextmem m1 - 4096 \<mapsto> w)) L
        (m1\<lparr>nextmem := nextmem m1 - 4096\<rparr>)"
    proof -
      have le: "own \<subseteq>\<^sub>m own(nextmem m1 - 4096 \<mapsto> w)"
        using pages_ok_extend(1) [OF ok room] by (auto simp: map_le_def)
      show ?thesis
        by (rule kmem_invx_grow [OF inv1 le pages_ok_extend(3) [OF ok room]])
          (use inv1 in \<open>auto simp: kmem_invx_def live_def\<close>)
    qed
    moreover have "kmem_invx X own' L m' = kmem_invx X own' L (m1\<lparr>nextmem := nextmem m1 - 4096\<rparr>)" for own'
      unfolding m' by (rule kmem_invx_cong) simp_all
    ultimately show ?thesis
      using pages_ok_extend(1,2) [OF ok room] by simp
  next
    case (Cons q rest)
    obtain n page where q: "q = (n, page)" by (cases q)
    from pop_vpage_inv [OF inv1 Cons [unfolded q], of w] obtain m2 where
      m2: "kfreeB sizeof_node n (m1\<lparr>freevpagelist := rest\<rparr>) = Some m2"
        "kmem_invx X (own(page \<mapsto> w)) L m2" "own page = None" "4096 dvd page" by blast
    then have "v = page" and m': "m' = aspace_maphi pg (page div 4096) 1 3 m2"
      using get g room Cons q by (auto simp: kgetpage_def)
    moreover have "kmem_invx X own' L m' = kmem_invx X own' L m2" for own'
      unfolding m' by (rule kmem_invx_cong) simp_all
    ultimately show ?thesis using m2 by simp
  qed
qed

lemma kgetpages1_inv:
  assumes "kmem_invx X own L m" and "kgetpages 1 m = Some (v, m')"
  shows "kmem_invx X (own(v \<mapsto> w)) L m' \<and> own v = None \<and> 4096 dvd v"
proof -
  obtain ph where "kgetpage m = Some (v, ph, m')"
    using assms(2) by (cases "kgetpage m") (auto simp: kgetpages_def)
  then show ?thesis by (rule kgetpage_inv [OF assms(1)])
qed


text \<open>The three ways \<open>kmallocP\<close> serves a request: a recycled block, the next slot of the
  fresh page, the last slot of the fresh page (which then fetches a new page).\<close>

lemma pool_ok_recycle:
  assumes "pool_ok own A i p" and "free_chain p = a # rest"
  shows "a \<notin> A" "block_ok own i a"
    "pool_ok own (insert a A) i (p\<lparr>used_count := u, free_count := free_count p - 1,
       free_chain := rest\<rparr>)"
  using assms by (auto simp: pool_ok_def)

lemma fresh_ok_recycle:
  assumes f: "fresh_ok own A i p" and c: "free_chain p = a # rest"
  shows "fresh_ok own (insert a A) i (p\<lparr>used_count := u, free_count := n, free_chain := rest\<rparr>)"
proof -
  obtain P j where P: "own P = Some (Pool i)" "fresh_chain p = P + j * psz i"
      "0 < fresh_count p" "j + fresh_count p = 4096 div psz i"
      "\<forall>k. j \<le> k \<longrightarrow> k < 4096 div psz i \<longrightarrow> P + k * psz i \<notin> set (free_chain p) \<union> A"
    using f by (auto simp: fresh_ok_def)
  show ?thesis
    unfolding fresh_ok_def
    by (rule exI [of _ P], rule exI [of _ j]) (use P c in auto)
qed

lemma pool_ok_fresh:
  assumes p: "pool_ok own A i p" and f: "fresh_ok own A i p"
  shows "fresh_chain p \<notin> A" "block_ok own i (fresh_chain p)"
    "pool_ok own (insert (fresh_chain p) A) i (p\<lparr>used_count := u, fresh_count := n, fresh_chain := x\<rparr>)"
proof -
  obtain P j where P: "own P = Some (Pool i)" "fresh_chain p = P + j * psz i"
      "0 < fresh_count p" "j + fresh_count p = 4096 div psz i"
      "\<forall>k. j \<le> k \<longrightarrow> k < 4096 div psz i \<longrightarrow> P + k * psz i \<notin> set (free_chain p) \<union> A"
    using f by (auto simp: fresh_ok_def)
  then have j: "j < 4096 div psz i" by simp
  then have ni: "fresh_chain p \<notin> set (free_chain p) \<union> A" using P by simp
  then show "fresh_chain p \<notin> A" by simp
  show b: "block_ok own i (fresh_chain p)" using P j by (auto simp: block_ok_def)
  show "pool_ok own (insert (fresh_chain p) A) i (p\<lparr>used_count := u, fresh_count := n, fresh_chain := x\<rparr>)"
    using p b ni by (auto simp: pool_ok_def)
qed

lemma fresh_ok_bump:
  assumes f: "fresh_ok own A i p" and i: "i < KMMAX" and left: "fresh_count p - 1 \<noteq> 0"
  shows "fresh_ok own (insert (fresh_chain p) A) i
    (p\<lparr>used_count := u, fresh_count := fresh_count p - 1, fresh_chain := fresh_chain p + psz i\<rparr>)"
proof -
  obtain P j where P: "own P = Some (Pool i)" "fresh_chain p = P + j * psz i"
      "0 < fresh_count p" "j + fresh_count p = 4096 div psz i"
      "\<forall>k. j \<le> k \<longrightarrow> k < 4096 div psz i \<longrightarrow> P + k * psz i \<notin> set (free_chain p) \<union> A"
    using f by (auto simp: fresh_ok_def)
  have "P + k * psz i \<noteq> P + j * psz i" if "Suc j \<le> k" for k
    using that psz_pos [OF i] by simp
  then show ?thesis
    unfolding fresh_ok_def
    by (intro exI [of _ P] exI [of _ "Suc j"]) (use P left in auto)
qed

lemma fresh_ok_new_page:
  assumes p: "pool_ok own A i p" and own: "\<forall>P \<in> dom own. 4096 dvd P"
    and v: "own v \<noteq> Some (Pool i)" "4096 dvd v" and i: "i < KMMAX"
    and fc: "fresh_count p = 4096 div psz i"
  shows "fresh_ok (own(v \<mapsto> Pool i)) A i (p\<lparr>fresh_chain := v\<rparr>)"
proof -
  have "v + k * psz i \<notin> set (free_chain p) \<union> A" if "k < 4096 div psz i" for k
    using p block_not_in_new_page [OF own v _ that i] by (fastforce simp: pool_ok_def)
  then show ?thesis
    unfolding fresh_ok_def
    by (intro exI [of _ v] exI [of _ 0]) (use psz_pos [OF i] fc in auto)
qed


lemma kfreeP_frame [frame]:
  assumes "kfreeP i a m = Some m'"
  shows "length (km_map m') = length (km_map m)"
    "fresh_count (km_map m' ! k) = fresh_count (km_map m ! k)"
    "high m' = high m" "pagelist m' = pagelist m" "freepage m' = freepage m"
proof -
  define p where "p = (km_map m ! i)\<lparr>free_count := free_count (km_map m ! i) + 1,
    used_count := used_count (km_map m ! i) - 1, free_chain := a # free_chain (km_map m ! i)\<rparr>"
  have m': "m' = m\<lparr>km_map := (km_map m)[i := p]\<rparr>"
    using assms by (simp add: kfreeP_def p_def Let_def split: if_splits)
  show "length (km_map m') = length (km_map m)" "high m' = high m"
    "pagelist m' = pagelist m" "freepage m' = freepage m" by (simp_all add: m')
  show "fresh_count (km_map m' ! k) = fresh_count (km_map m ! k)"
    by (cases "k = i"; cases "i < length (km_map m)")
      (simp_all add: m' p_def list_update_beyond)
qed

lemma kgetpages1_frame [frame]:
  assumes "kgetpages 1 m = Some (v, m')"
  shows "fresh_count (km_map m' ! k) = fresh_count (km_map m ! k)"
proof -
  obtain ph where get: "kgetpage m = Some (v, ph, m')"
    using assms by (cases "kgetpage m") (auto simp: kgetpages_def)
  obtain pg m1 where g: "getpage m = Some (pg, m1)"
    using get by (cases "getpage m") (auto simp: kgetpage_def)
  show ?thesis
  proof (cases "freevpagelist m1")
    case Nil
    then show ?thesis
      using get g getpage_frame [OF g] by (auto simp: kgetpage_def Let_def split: if_splits)
  next
    case (Cons q rest)
    obtain n page where q: "q = (n, page)" by (cases q)
    obtain m2 where m2: "kfreeB sizeof_node n (m1\<lparr>freevpagelist := rest\<rparr>) = Some m2"
      using get g Cons q
      by (cases "kfreeB sizeof_node n (m1\<lparr>freevpagelist := rest\<rparr>)")
        (auto simp: kgetpage_def split: if_splits)
    then have "kfreeP KM16 n (m1\<lparr>freevpagelist := rest\<rparr>) = Some m2"
      using size_map_node by (simp add: kfreeB_def sizeof_node_def)
    then have "fresh_count (km_map m2 ! k) = fresh_count (km_map m1 ! k)"
      using kfreeP_frame(2) by fastforce
    moreover have "m' = aspace_maphi pg (page div 4096) 1 3 m2"
      using get g Cons q m2 by (auto simp: kgetpage_def split: if_splits)
    ultimately show ?thesis using getpage_frame [OF g] by simp
  qed
qed

lemma kmem_invx_subset: "kmem_invx X own L m \<Longrightarrow> X \<subseteq> Y \<Longrightarrow> kmem_invx Y own L m"
  by (auto simp: kmem_invx_def)

text \<open>Giving a pool its new fresh page closes the exception for that pool.\<close>

lemma kmem_invx_new_page:
  assumes inv: "kmem_invx X own L m" and get: "kgetpages 1 m = Some (v, m1)"
    and i: "i < KMMAX" and fc: "fresh_count (km_map m ! i) = 4096 div psz i"
  shows "kmem_invx (X - {i}) (own(v \<mapsto> Pool i)) L
     (m1\<lparr>km_map := (km_map m1)[i := (km_map m1 ! i)\<lparr>fresh_chain := v\<rparr>]\<rparr>) \<and> own v = None"
proof -
  let ?p = "(km_map m1 ! i)\<lparr>fresh_chain := v\<rparr>" and ?own = "own(v \<mapsto> Pool i)"
  have W: "kmem_invx X (own(v \<mapsto> Whole)) L m1" and none: "own v = None" and d: "4096 dvd v"
    and inv1: "kmem_invx X ?own L m1"
    using kgetpages1_inv [OF inv get] by blast+
  have al: "\<forall>P \<in> dom (own(v \<mapsto> Whole)). 4096 dvd P"
    using W by (simp add: kmem_invx_def pages_ok_def)
  have fc1: "fresh_count (km_map m1 ! i) = 4096 div psz i"
    using fc kgetpages1_frame [OF get] by simp
  have "pool_ok (own(v \<mapsto> Whole)) (live L m1 i) i (km_map m1 ! i)"
    using W i by (simp add: kmem_invx_def)
  from fresh_ok_new_page [OF this al _ d i fc1]
  have f: "fresh_ok ?own (live L m1 i) i ?p" by simp
  have p: "pool_ok ?own (live L m1 i) i ?p"
    using inv1 i by (simp add: kmem_invx_def pool_ok_def)
  have len: "length (km_map m1) = KMMAX" using inv1 by (simp add: kmem_invx_def)
  have "pool_ok ?own (live L m1 k) k ((km_map m1)[i := ?p] ! k) \<and>
      (k \<notin> X - {i} \<longrightarrow> fresh_ok ?own (live L m1 k) k ((km_map m1)[i := ?p] ! k))"
    if "k < KMMAX" for k
    using that inv1 f p len i by (cases "k = i") (auto simp: kmem_invx_def)
  then show ?thesis
    using inv1 none by (simp add: kmem_invx_def)
qed


lemma live_insert: "a \<notin> live L m i \<Longrightarrow> live (L(i := insert a (L i))) m i = insert a (live L m i)"
  by (auto simp: live_def)

lemma live_insert_dis:
  "L KM16 \<inter> fst ` set (freevpagelist m) = {} \<Longrightarrow> a \<notin> live L m i \<Longrightarrow>
   i = KM16 \<longrightarrow> insert a (L i) \<inter> fst ` set (freevpagelist m) = {}"
  by (cases "i = KM16") (simp_all add: live_def)

text \<open>Soundness of the block allocator: the block it returns was not in use, lies in a
  page of its pool, and the invariant holds with the block in use.\<close>

lemma kmallocP_inv:
  assumes inv: "kmem_inv own L m" and i: "i < KMMAX" and al: "kmallocP i m = Some (a, m')"
  shows "a \<notin> live L m i \<and> (\<exists>own'. own \<subseteq>\<^sub>m own' \<and> block_ok own' i a \<and>
    kmem_inv own' (L(i := insert a (L i))) m')"
proof -
  let ?p = "km_map m ! i" and ?L = "L(i := insert a (L i))"
  let ?u = "used_count ?p + 1"
  have p: "pool_ok own (live L m i) i ?p" and f: "fresh_ok own (live L m i) i ?p"
    and dis: "L KM16 \<inter> fst ` set (freevpagelist m) = {}"
    using inv i by (simp_all add: kmem_invx_def)
  have sz: "km_size ?p = psz i" using p by (simp add: pool_ok_def)
  show ?thesis
  proof (cases "free_chain ?p")
    case (Cons b rest)
    then have ab: "a = b" and m': "m' = m\<lparr>km_map := (km_map m)[i :=
        ?p\<lparr>used_count := ?u, free_count := free_count ?p - 1, free_chain := rest\<rparr>]\<rparr>"
      using al i by (simp_all add: kmallocP_def Let_def)
    note r = pool_ok_recycle [OF p Cons [folded ab]]
    have "kmem_inv own ?L m'"
      unfolding m'
      by (rule kmem_invx_pool [OF inv i live_insert_dis [OF dis r(1)]])
        (simp_all add: live_insert [OF r(1)] r(3) fresh_ok_recycle [OF f Cons [folded ab]])
    then show ?thesis using r(1,2) by (intro conjI exI [of _ own]) simp_all
  next
    case Nil
    have a: "a = fresh_chain ?p"
      using al i Nil by (cases "fresh_count ?p - 1 = 0")
        (auto simp: kmallocP_def Let_def split: bind_splits)
    note r = pool_ok_fresh [OF p f]
    show ?thesis
    proof (cases "fresh_count ?p - 1 = 0")
      case False
      then have m': "m' = m\<lparr>km_map := (km_map m)[i := ?p\<lparr>used_count := ?u,
          fresh_count := fresh_count ?p - 1, fresh_chain := fresh_chain ?p + psz i\<rparr>]\<rparr>"
        using al i Nil sz by (auto simp: kmallocP_def Let_def)
      have "kmem_inv own ?L m'"
        unfolding m' a
        by (rule kmem_invx_pool [OF inv i live_insert_dis [OF dis r(1)]])
          (unfold live_insert [OF r(1)], rule r(3), use fresh_ok_bump [OF f i False] in blast)
      then show ?thesis using r(1,2) a by (intro conjI exI [of _ own]) simp_all
    next
      case True
      let ?m = "m\<lparr>km_map := (km_map m)[i := ?p\<lparr>used_count := ?u,
          fresh_count := 4096 div psz i, fresh_chain := fresh_chain ?p\<rparr>]\<rparr>"
      obtain v m1 where get: "kgetpages 1 ?m = Some (v, m1)"
        and m': "m' = m1\<lparr>km_map := (km_map m1)[i := (km_map m1 ! i)\<lparr>fresh_chain := v\<rparr>]\<rparr>"
        using al i Nil True sz
        by (cases "kgetpages 1 ?m") (auto simp: kmallocP_def Let_def)
      have "kmem_invx {i} own ?L ?m"
        unfolding a
        by (rule kmem_invx_pool [OF kmem_invx_subset [OF inv] i live_insert_dis [OF dis r(1)]])
          (simp, unfold live_insert [OF r(1)], rule r(3), simp)
      from kmem_invx_new_page [OF this get i]
      have "kmem_inv (own(v \<mapsto> Pool i)) ?L m'" and "own v = None"
        using inv i by (simp_all add: m' kmem_invx_def [of "{}" own L m])
      moreover from this have "own \<subseteq>\<^sub>m own(v \<mapsto> Pool i)" by (auto simp: map_le_def)
      ultimately show ?thesis
        using r(1) block_ok_mono [OF r(2)] unfolding a by blast
    qed
  qed
qed

section \<open>Blocks handed to clients\<close>

lemma nth_skip: "n \<le> i \<Longrightarrow> (replicate n x @ ys) ! i = ys ! (i - n)"
  by (simp add: nth_append)
lemma nth_rep: "i < n \<Longrightarrow> (replicate n x @ ys) ! i = x"
  by (simp add: nth_append)
lemma size_map_nth:
  assumes "sz < 256"
  shows "size_map ! sz =
     (if sz \<le> 16 then KM16 else if sz \<le> 32 then KM32 else if sz \<le> 64 then KM64
      else if sz \<le> 96 then KM96 else if sz \<le> 128 then KM128 else if sz \<le> 192 then KM192
      else KM256)"
proof -
  have eq: "size_map = replicate 17 KM16 @ replicate 16 KM32 @ replicate 32 KM64 @
     replicate 32 KM96 @ replicate 32 KM128 @ replicate 64 KM192 @
     replicate 64 KM256 @ replicate 256 0"
    by (simp add: size_map_def numeral_eq_Suc)
  consider "sz < 17" | "17 \<le> sz" "sz < 33" | "33 \<le> sz" "sz < 65" | "65 \<le> sz" "sz < 97"
    | "97 \<le> sz" "sz < 129" | "129 \<le> sz" "sz < 193" | "193 \<le> sz" "sz < 256"
    using assms by linarith
  then show ?thesis
    by cases (simp_all add: eq nth_skip nth_rep)
qed
lemma size_map_less: "sz < 256 \<Longrightarrow> size_map ! sz < KMMAX"
  by (simp add: size_map_nth)

lemma size_map_fits: "sz < 256 \<Longrightarrow> sz \<le> psz (size_map ! sz)"
  by (simp add: size_map_nth)

lemma size_map_tight: "sz < 256 \<Longrightarrow> 0 < size_map ! sz \<Longrightarrow> psz (size_map ! sz - 1) < sz"
  by (simp add: size_map_nth split: if_splits)

section \<open>Physical pages\<close>

definition free_pages :: "kmem \<Rightarrow> nat list \<Rightarrow> bool" where
  "free_pages m xs \<longleftrightarrow> chain (pagelist m) (freepage m) xs \<and> distinct xs"

lemma chain_nz: "chain nx a xs \<Longrightarrow> x \<in> set xs \<Longrightarrow> x \<noteq> 0"
  by (induction xs arbitrary: a) auto

interpretation pg: free_list getpage putpage free_pages "\<lambda>n. n \<noteq> 0"
proof (unfold_locales, goal_cases)
  case (1 s x xs)
  then show ?case by (auto simp: free_pages_def getpage_def Let_def)
next
  case (2 s)
  then show ?case by (simp add: free_pages_def getpage_def)
next
  case (3 s xs x)
  then show ?case by (simp add: free_pages_def putpage_def)
next
  case (4 s xs)
  then show ?case by (auto simp: free_pages_def dest: chain_nz)
qed

fun page_run :: "nat free_op list \<Rightarrow> nat list \<Rightarrow> kmem \<Rightarrow> (nat list \<times> kmem) option" where
  "page_run [] H m = Some (H, m)"
| "page_run (Take # ops) H m = do { (n, m1) \<leftarrow> getpage m; page_run ops (n # H) m1 }"
| "page_run (Give n # ops) H m =
     (if n \<in> set H then page_run ops (removeAll n H) (putpage n m) else None)"

lemma page_run_run: "page_run ops H m = Some (H', m') \<Longrightarrow> pg.run m (set H) ops m' (set H')"
proof (induction ops H m rule: page_run.induct)
  case (1 H m)
  then show ?case by (simp add: pg.run_Nil)
next
  case (2 ops H m)
  then show ?case
    by (cases "getpage m") (auto intro: pg.run_Take)
next
  case (3 n ops H m)
  then show ?case by (auto split: if_splits intro: pg.run_Give)
qed

section \<open>memory_init\<close>

lemma init_pagelist_chain:
  assumes "distinct xs" and "0 \<notin> set xs" and "freepage m = 0"
  shows "chain (pagelist (fold (\<lambda>i m. m\<lparr>total_pages := total_pages m + 1,
      pagelist := (pagelist m)(i := freepage m), freepage := i\<rparr>) (rev xs) m))
    (freepage (fold (\<lambda>i m. m\<lparr>total_pages := total_pages m + 1,
      pagelist := (pagelist m)(i := freepage m), freepage := i\<rparr>) (rev xs) m)) xs"
  using assms by (induction xs) auto

lemma init_pagelist_frame [simp, frame]:
  "nextmem (init_pagelist b t m) = nextmem m"
  "freevpagelist (init_pagelist b t m) = freevpagelist m"
  "km_map (init_pagelist b t m) = km_map m"
  "high (init_pagelist b t m) = high m"
proof -
  have "nextmem (fold f (rev xs) m) = nextmem m \<and>
    freevpagelist (fold f (rev xs) m) = freevpagelist m \<and>
    km_map (fold f (rev xs) m) = km_map m \<and> high (fold f (rev xs) m) = high m"
    if "f = (\<lambda>i m. m\<lparr>total_pages := total_pages m + 1,
      pagelist := (pagelist m)(i := freepage m), freepage := i\<rparr>)" for f xs
    using that by (induction xs) auto
  then show "nextmem (init_pagelist b t m) = nextmem m"
    "freevpagelist (init_pagelist b t m) = freevpagelist m"
    "km_map (init_pagelist b t m) = km_map m"
    "high (init_pagelist b t m) = high m"
    unfolding init_pagelist_def by blast+
qed

lemma kgetpages1_extend:
  assumes ch: "chain (pagelist m) (freepage m) (x # xs)" and fv: "freevpagelist m = []"
    and nm: "0x80050000 \<le> nextmem m" "nextmem m < 4294967296"
  shows "\<exists>m'. kgetpages 1 m = Some (nextmem m - 4096, m') \<and>
    chain (pagelist m') (freepage m') xs \<and> freevpagelist m' = [] \<and>
    nextmem m' = nextmem m - 4096 \<and> km_map m' = km_map m \<and>
    (\<forall>k. k \<noteq> ((nextmem m - 4096) div 0x1000) AND 0x3FF \<longrightarrow> high m' k = high m k)"
  using assms
  by (simp add: kgetpages_def kgetpage_def getpage_def Let_def)
    (simp add: aspace_maphi_def)

lemma init_pools_ok:
  assumes "length xs \<ge> length is" and "chain (pagelist m) (freepage m) xs"
    and "freevpagelist m = []" and "0x80050000 + 4096 * length is \<le> nextmem m + 4096"
    and "kmem_invx X own L m" and "set is \<subseteq> X" and "distinct is" and "set is \<subseteq> {..<KMMAX}"
    and "\<forall>i \<in> set is. fresh_count (km_map m ! i) = 4096 div psz i"
  shows "\<exists>m' own'. init_pools is m = Some m' \<and> kmem_invx (X - set is) own' L m' \<and>
    chain (pagelist m') (freepage m') (drop (length is) xs) \<and>
    (\<forall>k. fresh_count (km_map m' ! k) = fresh_count (km_map m ! k)) \<and> nextmem m' = nextmem m - 4096 * length is"
  using assms
proof (induction "is" arbitrary: m xs own X)
  case Nil
  then show ?case by auto
next
  case (Cons i js)
  obtain x ys where xs: "xs = x # ys" using Cons.prems(1) by (cases xs) auto
  have nm: "0x80050000 \<le> nextmem m" "nextmem m < 4294967296"
    using Cons.prems by (simp_all add: kmem_invx_def pages_ok_def)
  from kgetpages1_extend [OF Cons.prems(2) [unfolded xs] Cons.prems(3) nm] obtain m1 where
    m1: "kgetpages 1 m = Some (nextmem m - 4096, m1)" "chain (pagelist m1) (freepage m1) ys"
      "freevpagelist m1 = []" "nextmem m1 = nextmem m - 4096" "km_map m1 = km_map m" by blast
  let ?m = "m1\<lparr>km_map := (km_map m1)[i := (km_map m1 ! i)\<lparr>fresh_chain := nextmem m - 4096\<rparr>]\<rparr>"
  have i: "i < KMMAX" and fc: "fresh_count (km_map m ! i) = 4096 div psz i"
    using Cons.prems by simp_all
  from kmem_invx_new_page [OF Cons.prems(5) m1(1) i fc]
  have inv: "kmem_invx (X - {i}) (own(nextmem m - 4096 \<mapsto> Pool i)) L ?m" by simp
  have fc': "\<forall>k \<in> set js. fresh_count (km_map ?m ! k) = 4096 div psz k"
  proof
    fix k assume k: "k \<in> set js"
    then have "i \<noteq> k" using Cons.prems(7) by auto
    with k show "fresh_count (km_map ?m ! k) = 4096 div psz k"
      using Cons.prems(9) m1(5) by simp
  qed
  have "set js \<subseteq> X - {i}" using Cons.prems(6,7) by auto
  from Cons.IH [of ys ?m "X - {i}", OF _ _ _ _ inv this _ _ fc'] obtain m' own' where
    "init_pools js ?m = Some m'" "kmem_invx (X - {i} - set js) own' L m'"
    "chain (pagelist m') (freepage m') (drop (length js) ys)"
    "\<forall>k. fresh_count (km_map m' ! k) = fresh_count (km_map ?m ! k)" "nextmem m' = nextmem ?m - 4096 * length js"
    using Cons.prems xs m1 nm by auto
  moreover have "fresh_count (km_map ?m ! k) = fresh_count (km_map m ! k)" for k
    using m1(5) by (cases "k = i"; cases "i < length (km_map m)")
      (simp_all add: list_update_beyond)
  moreover have "X - {i} - set js = X - set (i # js)" by auto
  ultimately show ?case using m1 xs by (auto simp del: Diff_insert)
qed


text \<open>The state that \<open>init_pools\<close> starts from: all seven pools still lack a page.\<close>

lemma boot_invx:
  assumes "nextmem m < 4294967296" and "4096 dvd nextmem m"
    and "freevpagelist m = []" and "km_map m = km_map_init"
  shows "kmem_invx {..<KMMAX} Map.empty (\<lambda>_. {}) m"
proof -
  have "pool_ok Map.empty {} i (km_map_init ! i)" if "i < KMMAX" for i
    using KMMAX_cases [OF that] by (auto simp: pool_ok_def km_map_init_def)
  moreover have "length km_map_init = KMMAX" by (simp add: km_map_init_def)
  moreover have "live (\<lambda>_. {}) m = (\<lambda>_. {})" using assms(3) by (simp add: live_def fun_eq_iff)
  ultimately show ?thesis
    using assms by (simp add: kmem_invx_def pages_ok_def)
qed

lemma init_fresh_count: "i < KMMAX \<Longrightarrow> fresh_count (km_map_init ! i) = 4096 div psz i"
  by (drule KMMAX_cases) (auto simp: km_map_init_def)

lemma memory_init_total:
  assumes b: "0 < lo" and cnt: "count = (hi - lo) div 1024 + 1"
    and room: "lo + 7 + count \<le> hi" and small: "hi - lo < 921600"
  shows "\<exists>m own. memory_init lo hi kmem_boot = Some m \<and>
    kmem_inv own (\<lambda>_. {}) m \<and> free_pages m [lo + 7 ..< Suc (hi - count)] \<and>
    (\<forall>k < KMMAX. fresh_count (km_map m ! k) = 4096 div psz k) \<and> 0x80000000 \<le> nextmem m"
proof -
  let ?xs = "[lo ..< Suc (hi - count)]"
  let ?m1 = "kmem_boot\<lparr>total_pages := 0, used_pages := 0,
               nextmem := u32_sub (nextmem kmem_boot) (4096 * count)\<rparr>"
  let ?m2 = "aspace_maphi (hi - count) (nextmem ?m1 div 0x1000) count 3 ?m1"
  let ?m3 = "init_pagelist lo (hi - count) (?m2\<lparr>freepage := 0\<rparr>)"
  have c: "count \<le> 900" using small cnt by simp
  then have nm: "nextmem ?m3 = 2151661568 - 4096 * count"
    by (simp add: kmem_boot_def)
  have ch: "chain (pagelist ?m3) (freepage ?m3) ?xs"
    unfolding init_pagelist_def by (rule init_pagelist_chain) (use b in auto)
  have fv: "freevpagelist ?m3 = []" and km: "km_map ?m3 = km_map_init"
    by (simp_all add: kmem_boot_def)
  have inv: "kmem_invx {..<KMMAX} Map.empty (\<lambda>_. {}) ?m3"
    by (rule boot_invx; simp only: nm fv km) simp_all
  have "\<exists>m' own'. init_pools [0..<KMMAX] ?m3 = Some m' \<and>
      kmem_invx ({..<KMMAX} - set [0..<KMMAX]) own' (\<lambda>_. {}) m' \<and>
      chain (pagelist m') (freepage m') (drop (length [0..<KMMAX]) ?xs) \<and>
      (\<forall>k. fresh_count (km_map m' ! k) = fresh_count (km_map ?m3 ! k)) \<and>
      nextmem m' = nextmem ?m3 - 4096 * length [0..<KMMAX]"
    by (rule init_pools_ok [OF _ ch fv _ inv])
      (use room c in \<open>simp_all only: nm km, auto simp: init_fresh_count\<close>)
  moreover have "\<forall>k < KMMAX. fresh_count (km_map ?m3 ! k) = 4096 div psz k"
    unfolding km using init_fresh_count by blast
  moreover have "0x80000000 \<le> nextmem ?m3 - 4096 * length [0..<KMMAX]" unfolding nm using c by simp
  moreover have "{..<KMMAX} - set [0..<KMMAX] = {}" by auto
  moreover have "drop (length [0..<KMMAX]) ?xs = [lo + 7 ..< Suc (hi - count)]"
    by (simp del: upt_Suc)
  moreover have "memory_init lo hi kmem_boot = init_pools [0..<KMMAX] ?m3"
    by (simp add: memory_init_def Let_def cnt)
  ultimately show ?thesis
    unfolding free_pages_def by (metis (no_types, lifting) distinct_upt)
qed

text \<open>A state just after \<open>memory_init\<close> for the witnesses: one \<open>node_t\<close> can be allocated.\<close>

lemma boot_alloc:
  "\<exists>own m a m'. kmem_inv own (\<lambda>_. {}) m \<and> kmallocB 12 m = Some (a, m')"
proof -
  obtain own m where m: "kmem_inv own (\<lambda>_. {}) m" "fresh_count (km_map m ! KM16) = 256"
    using memory_init_total [of 300 1 320] psz_simps(1) by fastforce
  have "\<exists>a m'. kmallocP KM16 m = Some (a, m')"
    using m(2) by (cases "free_chain (km_map m ! KM16)") (simp_all add: kmallocP_def Let_def)
  then show ?thesis
    using m(1) size_map_node by (auto simp: kmallocB_def sizeof_node_def)
qed

text \<open>
  C2. The block allocator is sound: a block returned by \<open>kmallocB\<close> is at least as large
  as asked, lies in the smallest pool that fits, overlaps no block in use in any pool,
  and the allocator invariant holds afterwards with the block in use.
\<close>

theorem kmallocB_sound:
  assumes inv: "kmem_inv own L m" and al: "kmallocB sz m = Some (a, m')"
  shows "sz \<le> psz (size_map ! sz) \<and>
    (0 < size_map ! sz \<longrightarrow> psz (size_map ! sz - 1) < sz) \<and>
    (\<forall>k < KMMAX. \<forall>b \<in> live L m k.
       {a ..< a + psz (size_map ! sz)} \<inter> {b ..< b + psz k} = {}) \<and>
    (\<exists>own'. kmem_inv own'
       (L(size_map ! sz := insert a (L (size_map ! sz)))) m')"
proof -
  let ?i = "size_map ! sz"
  have sz: "sz < 256" and al': "kmallocP ?i m = Some (a, m')"
    using al by (simp_all add: kmallocB_def split: if_splits)
  have i: "?i < KMMAX" by (rule size_map_less [OF sz])
  from kmallocP_inv [OF inv i al'] obtain own' where
    na: "a \<notin> live L m ?i" and le: "own \<subseteq>\<^sub>m own'" and ba: "block_ok own' ?i a"
    and inv': "kmem_inv own' (L(?i := insert a (L ?i))) m'" by blast
  have al4: "\<forall>P \<in> dom own'. 4096 dvd P"
    using inv' by (simp add: kmem_invx_def pages_ok_def)
  have "{a ..< a + psz ?i} \<inter> {b ..< b + psz k} = {}" if k: "k < KMMAX" and b: "b \<in> live L m k" for k b
  proof (rule blocks_disjoint [OF al4 ba _ i k])
    have "pool_ok own (live L m k) k (km_map m ! k)"
      using inv k by (simp add: kmem_invx_def)
    then show "block_ok own' k b"
      using b block_ok_mono [OF _ le] by (simp add: pool_ok_def)
    show "?i \<noteq> k \<or> a \<noteq> b" using na b by auto
  qed
  then show ?thesis
    using size_map_fits [OF sz] size_map_tight [OF sz] inv' by auto
qed

theorem kmallocB_sound_witness:
  "\<exists>own L m a m'. kmem_inv own L m \<and> kmallocB 12 m = Some (a, m') \<and> (12 :: nat) \<le> psz (size_map ! 12) \<and>
    (\<forall>k < KMMAX. \<forall>b \<in> live L m k.
       {a ..< a + psz (size_map ! 12)} \<inter> {b ..< b + psz k} = {})"
proof -
  obtain own m a m' where "kmem_inv own (\<lambda>_. {}) m" "kmallocB 12 m = Some (a, m')"
    using boot_alloc by blast
  with kmallocB_sound [OF this] show ?thesis by blast
qed

text \<open>
  C3. A freed block is the next one recycled: \<open>kfreeB\<close> of a block in use succeeds, keeps
  the invariant with the block no longer in use, and the next \<open>kmallocB\<close> of that size
  returns the same block.
\<close>

theorem kfreeB_recycles:
  assumes inv: "kmem_inv own L m" and sz: "sz < 256" and a: "a \<in> L (size_map ! sz)"
  shows "\<exists>m1 m2. kfreeB sz a m = Some m1 \<and>
    kmem_inv own (L(size_map ! sz := L (size_map ! sz) - {a})) m1 \<and>
    kmallocB sz m1 = Some (a, m2)"
proof -
  let ?i = "size_map ! sz"
  have i: "?i < KMMAX" by (rule size_map_less [OF sz])
  from kfreeP_inv [OF inv i a] obtain m1 where
    m1: "kfreeP ?i a m = Some m1" "kmem_inv own (L(?i := L ?i - {a})) m1" by blast
  have "free_chain (km_map m1 ! ?i) = a # free_chain (km_map m ! ?i)"
    using m1(1) inv i by (auto simp: kfreeP_def Let_def kmem_invx_def split: if_splits)
  then have "\<exists>m2. kmallocP ?i m1 = Some (a, m2)"
    using i by (simp add: kmallocP_def Let_def)
  then show ?thesis
    using m1 sz by (auto simp: kfreeB_def kmallocB_def)
qed

theorem kfreeB_recycles_witness:
  "\<exists>own L m a. kmem_inv own L m \<and> (12 :: nat) < 256 \<and> a \<in> L (size_map ! 12) \<and>
    (\<exists>m1 m2. kfreeB 12 a m = Some m1 \<and> kmallocB 12 m1 = Some (a, m2))"
proof -
  obtain own m a m' where al: "kmem_inv own (\<lambda>_. {}) m" "kmallocB 12 m = Some (a, m')"
    using boot_alloc by blast
  then have "kmallocP (size_map ! 12) m = Some (a, m')" by (simp add: kmallocB_def)
  from kmallocP_inv [OF al(1) size_map_less this] obtain own' where
    inv: "kmem_inv own' ((\<lambda>_. {})(size_map ! 12 := {a})) m'" by auto
  show ?thesis
    using kfreeB_recycles [OF inv, of 12 a] inv by force
qed

text \<open>
  C4. Physical pages are conserved: whatever sequence of \<open>getpage\<close> and \<open>putpage\<close> a client
  runs, giving back only pages it holds, the pages held and the pages on the free list
  stay disjoint and together are exactly the pages that were free at the start, and the
  free list stays a proper list without repetition.
\<close>

theorem pages_conserved:
  assumes "free_pages m xs" and "page_run ops [] m = Some (H, m')"
  shows "\<exists>ys. free_pages m' ys \<and> set H \<inter> set ys = {} \<and> set H \<union> set ys = set xs"
  using pg.run_conserves [OF page_run_run [OF assms(2)] assms(1)] by simp


theorem pages_conserved_witness:
  "\<exists>m xs ops H m'. free_pages m xs \<and> page_run ops [] m = Some (H, m') \<and> H = [2] \<and>
    (\<exists>ys. free_pages m' ys \<and> set H \<inter> set ys = {} \<and> set H \<union> set ys = set xs)"
proof -
  let ?m = "kmem_boot\<lparr>pagelist := (\<lambda>n. if n < 3 then n + 1 else 0), freepage := 1\<rparr>"
  have f: "free_pages ?m [1, 2, 3]" by (simp add: free_pages_def)
  obtain m' where r: "page_run [Take, Take, Give 1] [] ?m = Some ([2], m')"
    by (simp add: getpage_def Let_def)
  obtain ys where "free_pages m' ys" "set [2] \<inter> set ys = {}" "set [2] \<union> set ys = set [1, 2, 3 :: nat]"
    using pages_conserved [OF f r] by blast
  then show ?thesis
    by (intro exI conjI) (rule f, rule r, rule refl)
qed




text \<open>The physical pages that \<open>memory_init\<close> maps, with its call of \<open>aspace_maphi\<close>, to hold
  the page list itself.\<close>

definition pagelist_frames :: "nat \<Rightarrow> nat \<Rightarrow> nat set" where
  "pagelist_frames bottom_page top_page =
     (let count = (top_page - bottom_page) div 1024 + 1
      in {top_page - count ..< top_page - count + count})"

text \<open>
  A defect of \<open>memory_init\<close>: the loop that fills the free list starts at \<open>top_page\<close>
  itself, the first physical page of the page list, so a page that holds the free list is
  handed out by the allocator as its last page.
\<close>

theorem memory_init_frees_pagelist_frame:
  assumes b: "0 < lo" and cnt: "count = (hi - lo) div 1024 + 1"
    and room: "lo + 7 + count \<le> hi" and small: "hi - lo < 921600"
  shows "\<exists>m xs. memory_init lo hi kmem_boot = Some m \<and> free_pages m xs \<and>
    last xs \<in> pagelist_frames lo hi"
proof -
  obtain m where "memory_init lo hi kmem_boot = Some m"
      "free_pages m [lo + 7 ..< Suc (hi - count)]"
    using memory_init_total [OF assms] by blast
  moreover have "last [lo + 7 ..< Suc (hi - count)] = hi - count"
    using room by (simp add: le_diff_conv2)
  moreover have "hi - count \<in> pagelist_frames lo hi"
    using cnt by (simp add: pagelist_frames_def Let_def)
  ultimately show ?thesis by metis
qed

theorem memory_init_frees_pagelist_frame_witness:
  "(0 :: nat) < 300 \<and> (300 :: nat) + 7 + 1 \<le> 320 \<and>
   (\<exists>m xs. memory_init 300 320 kmem_boot = Some m \<and> free_pages m xs \<and>
     last xs \<in> pagelist_frames 300 320)"
  using memory_init_frees_pagelist_frame [of 300 1 320] by simp


end
