(* ===== verification/DList.thy ===== *)
theory DList
  imports KMemoryInv
begin

text \<open>
  The circular doubly linked lists of \<^verbatim>\<open>kernel/list.c\<close> on an explicit heap. A
  \<open>list_t\<close> and a \<open>node_t\<close> both start with \<open>next\<close> and \<open>prev\<close>, and the code casts one to the
  other, so one pair of field functions serves both; \<open>count\<close> belongs to list headers and
  \<open>data\<close> to nodes. Nodes come from \<open>kmalloc(node_t)\<close>, that is \<open>kmallocB\<close> of
  \<^verbatim>\<open>KMemory\<close>. \<open>NULL\<close> is 0. The lemmas show that each operation implements the
  corresponding operation on the sequence of nodes and leaves other lists alone.
\<close>

section \<open>Heap and operations\<close>

record lheap =
  nxt :: "nat \<Rightarrow> nat"
  prv :: "nat \<Rightarrow> nat"
  ldata :: "nat \<Rightarrow> nat"
  lcount :: "nat \<Rightarrow> nat"
  lkm :: kmem

definition set_nxt :: "nat \<Rightarrow> nat \<Rightarrow> lheap \<Rightarrow> lheap" where
  "set_nxt a v h = h\<lparr>nxt := (nxt h)(a := v)\<rparr>"

definition set_prv :: "nat \<Rightarrow> nat \<Rightarrow> lheap \<Rightarrow> lheap" where
  "set_prv a v h = h\<lparr>prv := (prv h)(a := v)\<rparr>"

definition inc_count :: "nat \<Rightarrow> lheap \<Rightarrow> lheap" where
  "inc_count l h = h\<lparr>lcount := (lcount h)(l := u32 (lcount h l + 1))\<rparr>"

definition dec_count :: "nat \<Rightarrow> lheap \<Rightarrow> lheap" where
  "dec_count l h = h\<lparr>lcount := (lcount h)(l := u32_sub (lcount h l) 1)\<rparr>"

definition list_init :: "nat \<Rightarrow> lheap \<Rightarrow> lheap" where
  "list_init list h =
     (let h = set_nxt list list h; h = set_prv list list h
      in h\<lparr>lcount := (lcount h)(list := 0)\<rparr>)"

definition list_attach_head :: "nat \<Rightarrow> nat \<Rightarrow> lheap \<Rightarrow> lheap" where
  "list_attach_head list node h =
     (let h = set_nxt node (nxt h list) h;
          h = set_prv (nxt h node) node h;
          h = set_prv node list h;
          h = set_nxt list node h
      in inc_count list h)"

definition list_attach_tail :: "nat \<Rightarrow> nat \<Rightarrow> lheap \<Rightarrow> lheap" where
  "list_attach_tail list node h =
     (let h = set_prv node (prv h list) h;
          h = set_nxt (prv h node) node h;
          h = set_nxt node list h;
          h = set_prv list node h
      in inc_count list h)"

text \<open>\<open>list_add_head\<close> and \<open>list_add_tail\<close> allocate a node, store the data, and run the
  same pointer assignments.\<close>

definition list_add_head :: "nat \<Rightarrow> nat \<Rightarrow> lheap \<Rightarrow> lheap option" where
  "list_add_head list data h = do {
     (node, km) \<leftarrow> kmallocB sizeof_node (lkm h);
     Some (list_attach_head list node (h\<lparr>lkm := km, ldata := (ldata h)(node := data)\<rparr>))
   }"

definition list_add_tail :: "nat \<Rightarrow> nat \<Rightarrow> lheap \<Rightarrow> lheap option" where
  "list_add_tail list data h = do {
     (node, km) \<leftarrow> kmallocB sizeof_node (lkm h);
     Some (list_attach_tail list node (h\<lparr>lkm := km, ldata := (ldata h)(node := data)\<rparr>))
   }"

definition list_peek_head :: "nat \<Rightarrow> lheap \<Rightarrow> nat" where
  "list_peek_head list h = (if nxt h list = list then 0 else ldata h (nxt h list))"

definition list_peek_tail :: "nat \<Rightarrow> lheap \<Rightarrow> nat" where
  "list_peek_tail list h = (if prv h list = list then 0 else ldata h (prv h list))"

text \<open>\<open>node->prev->next = node->next; node->next->prev = node->prev\<close>, in the two orders
  the code uses.\<close>

definition unlink :: "nat \<Rightarrow> lheap \<Rightarrow> lheap" where
  "unlink node h =
     (let h = set_nxt (prv h node) (nxt h node) h in set_prv (nxt h node) (prv h node) h)"

definition unlink' :: "nat \<Rightarrow> lheap \<Rightarrow> lheap" where
  "unlink' node h =
     (let h = set_prv (nxt h node) (prv h node) h in set_nxt (prv h node) (nxt h node) h)"

definition kfree_node :: "nat \<Rightarrow> lheap \<Rightarrow> lheap option" where
  "kfree_node node h = do { km \<leftarrow> kfreeB sizeof_node node (lkm h); Some (h\<lparr>lkm := km\<rparr>) }"

definition list_remove_head :: "nat \<Rightarrow> lheap \<Rightarrow> (nat \<times> lheap) option" where
  "list_remove_head list h =
     (let node = nxt h list in
      if node = list then Some (0, h)
      else do {
        h1 \<leftarrow> kfree_node node (unlink node h);
        Some (ldata h node, dec_count list h1)
      })"

definition list_remove_tail :: "nat \<Rightarrow> lheap \<Rightarrow> (nat \<times> lheap) option" where
  "list_remove_tail list h =
     (let node = prv h list in
      if node = list then Some (0, h)
      else do {
        h1 \<leftarrow> kfree_node node (unlink node h);
        Some (ldata h node, dec_count list h1)
      })"

definition list_detach_head :: "nat \<Rightarrow> lheap \<Rightarrow> nat \<times> lheap" where
  "list_detach_head list h =
     (let node = nxt h list in
      if node = list then (0, h)
      else (ldata h node, dec_count list (unlink node h)))"

definition list_detach_tail :: "nat \<Rightarrow> lheap \<Rightarrow> nat \<times> lheap" where
  "list_detach_tail list h =
     (let node = prv h list in
      if node = list then (0, h)
      else (ldata h node, dec_count list (unlink node h)))"

text \<open>The search loop of \<open>list_remove\<close> and \<open>list_detach\<close>: \<open>Some (Some node)\<close> is the node
  found, \<open>Some None\<close> the end of the list, \<open>None\<close> a loop that does not end.\<close>

partial_function (option) list_search :: "nat \<Rightarrow> nat \<Rightarrow> lheap \<Rightarrow> nat \<Rightarrow> nat option option" where
  "list_search list data h node =
     (if node = list then Some None
      else if ldata h node = data then Some (Some node)
      else list_search list data h (nxt h node))"

definition list_remove :: "nat \<Rightarrow> nat \<Rightarrow> lheap \<Rightarrow> (int \<times> lheap) option" where
  "list_remove list data h = do {
     r \<leftarrow> list_search list data h (nxt h list);
     case r of
       None \<Rightarrow> Some (-1, h)
     | Some node \<Rightarrow> do {
         h1 \<leftarrow> kfree_node node (unlink' node h);
         Some (ERR_NONE, dec_count list h1)
       }
   }"

definition list_detach :: "nat \<Rightarrow> nat \<Rightarrow> lheap \<Rightarrow> (int \<times> lheap) option" where
  "list_detach list data h = do {
     r \<leftarrow> list_search list data h (nxt h list);
     case r of
       None \<Rightarrow> Some (-1, h)
     | Some node \<Rightarrow> Some (ERR_NONE, dec_count list (unlink' node h))
   }"

lemmas [kdefs] = set_nxt_def set_prv_def inc_count_def dec_count_def unlink_def unlink'_def

section \<open>Lists on the heap\<close>

primrec dpath :: "(nat \<Rightarrow> nat) \<Rightarrow> (nat \<Rightarrow> nat) \<Rightarrow> nat \<Rightarrow> nat list \<Rightarrow> nat \<Rightarrow> bool" where
  "dpath n p a [] b \<longleftrightarrow> n a = b \<and> p b = a"
| "dpath n p a (x # xs) b \<longleftrightarrow> n a = x \<and> p x = a \<and> dpath n p x xs b"

lemma dpath_append [simp]:
  "dpath n p a (xs @ x # ys) b \<longleftrightarrow> dpath n p a xs x \<and> dpath n p x ys b"
  by (induction xs arbitrary: a) auto

lemma dpath_snoc [simp]: "dpath n p a (xs @ [x]) b \<longleftrightarrow> dpath n p a xs x \<and> n x = b \<and> p b = x"
  by simp

lemma dpath_cong:
  assumes "\<And>x. x \<in> set (a # xs) \<Longrightarrow> n' x = n x" and "\<And>x. x \<in> set (xs @ [b]) \<Longrightarrow> p' x = p x"
  shows "dpath n' p' a xs b = dpath n p a xs b"
  using assms by (induction xs arbitrary: a) auto

lemma dpath_nxt_upd [simp]:
  "u \<notin> set (a # xs) \<Longrightarrow> dpath (n(u := v)) p a xs b = dpath n p a xs b"
  by (rule dpath_cong) auto

lemma dpath_prv_upd [simp]:
  "u \<notin> set (xs @ [b]) \<Longrightarrow> dpath n (p(u := v)) a xs b = dpath n p a xs b"
  by (rule dpath_cong) auto

lemma dpath_ends: "dpath n p a xs b \<Longrightarrow> n a = hd (xs @ [b]) \<and> p b = last (a # xs)"
  by (induction xs arbitrary: a) auto

definition dlist :: "lheap \<Rightarrow> nat \<Rightarrow> nat list \<Rightarrow> bool" where
  "dlist h l ps \<longleftrightarrow> dpath (nxt h) (prv h) l ps l \<and> distinct (l # ps) \<and> lcount h l = u32 (length ps)"

lemma dlist_init: "dlist (list_init l h) l []"
  by (simp add: dlist_def list_init_def kdefs)

text \<open>Linking a node between the header and its first or last neighbour.\<close>

lemma dpath_link_head:
  assumes d: "dpath n p l ps l" and di: "distinct (l # ps)" and x: "x \<notin> set (l # ps)"
  shows "dpath ((n(x := n l))(l := x)) ((p(n l := x))(x := l)) l (x # ps) l"
proof (cases ps)
  case Nil
  with d x show ?thesis by auto
next
  case (Cons y ys)
  with d have y: "n l = y" "dpath n p y ys l" by auto
  have "dpath ((n(x := y))(l := x)) ((p(y := x))(x := l)) y ys l = dpath n p y ys l"
    using di x Cons by (intro dpath_cong) auto
  then show ?thesis using y x Cons di by auto
qed

lemma dpath_link_tail:
  assumes d: "dpath n p l ps l" and di: "distinct (l # ps)" and x: "x \<notin> set (l # ps)"
  shows "dpath ((n(p l := x))(x := l)) ((p(x := p l))(l := x)) l (ps @ [x]) l"
proof (cases ps rule: rev_cases)
  case Nil
  with d x show ?thesis by auto
next
  case (snoc ys y)
  with d have y: "p l = y" "dpath n p l ys y" by auto
  have "dpath ((n(y := x))(x := l)) ((p(x := y))(l := x)) l ys y = dpath n p l ys y"
    using di x snoc by (intro dpath_cong) auto
  then show ?thesis using y x snoc di by auto
qed

lemma dpath_unlink:
  assumes d: "dpath n p l (xs @ x # ys) l" and di: "distinct (l # xs @ x # ys)"
  shows "dpath (n(p x := n x)) (p(n x := p x)) l (xs @ ys) l"
proof -
  have l: "dpath n p l xs x" and r: "dpath n p x ys l" using d by auto
  have px: "p x = last (l # xs)" and nx: "n x = hd (ys @ [l])"
    using dpath_ends [OF l] dpath_ends [OF r] by auto
  show ?thesis
  proof (cases xs rule: rev_cases; cases ys)
    assume "xs = []" "ys = []"
    with px nx show ?thesis by simp
  next
    fix z zs assume c: "xs = []" "ys = z # zs"
    have "dpath (n(l := z)) (p(z := l)) z zs l = dpath n p z zs l"
      using di c by (intro dpath_cong) auto
    with c px nx r show ?thesis by simp
  next
    fix ws w assume c: "xs = ws @ [w]" "ys = []"
    have "dpath (n(w := l)) (p(l := w)) l ws w = dpath n p l ws w"
      using di c by (intro dpath_cong) auto
    with c px nx l show ?thesis by simp
  next
    fix ws w z zs assume c: "xs = ws @ [w]" "ys = z # zs"
    have "dpath (n(w := z)) (p(z := w)) z zs l = dpath n p z zs l"
      and "dpath (n(w := z)) (p(z := w)) l ws w = dpath n p l ws w"
      using di c by (intro dpath_cong; auto)+
    with c px nx l r show ?thesis by simp
  qed
qed

lemma unlink_eq:
  assumes "dpath (nxt h) (prv h) l (xs @ x # ys) l" and "distinct (l # xs @ x # ys)"
  shows "unlink x h = h\<lparr>nxt := (nxt h)(prv h x := nxt h x), prv := (prv h)(nxt h x := prv h x)\<rparr>"
    and "unlink' x h = h\<lparr>nxt := (nxt h)(prv h x := nxt h x), prv := (prv h)(nxt h x := prv h x)\<rparr>"
proof -
  have l: "dpath (nxt h) (prv h) l xs x" and r: "dpath (nxt h) (prv h) x ys l" using assms by auto
  have "prv h x = last (l # xs)" and "nxt h x = hd (ys @ [l])"
    using dpath_ends [OF l] dpath_ends [OF r] by auto
  then have "prv h x \<noteq> x" and "nxt h x \<noteq> x"
    using assms(2) by (auto simp: last_in_set split: if_splits)
      (metis append_Nil hd_append2 hd_in_set list.sel(1) neq_Nil_conv)+
  then show "unlink x h = h\<lparr>nxt := (nxt h)(prv h x := nxt h x), prv := (prv h)(nxt h x := prv h x)\<rparr>"
    and "unlink' x h = h\<lparr>nxt := (nxt h)(prv h x := nxt h x), prv := (prv h)(nxt h x := prv h x)\<rparr>"
    by (simp_all add: kdefs Let_def)
qed


section \<open>Each operation on the sequence of nodes\<close>

lemma list_attach_head_eq:
  "x \<noteq> l \<Longrightarrow> list_attach_head l x h = h\<lparr>nxt := (nxt h)(x := nxt h l, l := x),
     prv := (prv h)(nxt h l := x, x := l), lcount := (lcount h)(l := u32 (lcount h l + 1))\<rparr>"
  by (simp add: list_attach_head_def kdefs Let_def)

lemma list_attach_tail_eq:
  "x \<noteq> l \<Longrightarrow> list_attach_tail l x h = h\<lparr>nxt := (nxt h)(prv h l := x, x := l),
     prv := (prv h)(x := prv h l, l := x), lcount := (lcount h)(l := u32 (lcount h l + 1))\<rparr>"
  by (simp add: list_attach_tail_def kdefs Let_def)

lemma dlist_attach_head:
  assumes "dlist h l ps" and "x \<notin> set (l # ps)"
  shows "dlist (list_attach_head l x h) l (x # ps)"
proof -
  have "dpath ((nxt h)(x := nxt h l, l := x)) ((prv h)(nxt h l := x, x := l)) l (x # ps) l"
    using assms by (intro dpath_link_head) (auto simp: dlist_def)
  then show ?thesis
    using assms by (auto simp: dlist_def list_attach_head_eq simp del: dpath.simps)
qed

lemma dlist_attach_tail:
  assumes "dlist h l ps" and "x \<notin> set (l # ps)"
  shows "dlist (list_attach_tail l x h) l (ps @ [x])"
proof -
  have "dpath ((nxt h)(prv h l := x, x := l)) ((prv h)(x := prv h l, l := x)) l (ps @ [x]) l"
    using assms by (intro dpath_link_tail) (auto simp: dlist_def)
  then show ?thesis
    using assms
    by (auto simp: dlist_def list_attach_tail_eq simp del: dpath_append dpath_snoc)
qed

lemma dlist_unlink:
  assumes d: "dlist h l (xs @ x # ys)"
  shows "dlist (dec_count l (unlink x h)) l (xs @ ys)"
    and "dlist (dec_count l (unlink' x h)) l (xs @ ys)"
proof -
  have p: "dpath (nxt h) (prv h) l (xs @ x # ys) l" and di: "distinct (l # xs @ x # ys)"
    and c: "lcount h l = u32 (Suc (length (xs @ ys)))"
    using d by (auto simp: dlist_def)
  show "dlist (dec_count l (unlink x h)) l (xs @ ys)"
    and "dlist (dec_count l (unlink' x h)) l (xs @ ys)"
    using dpath_unlink [OF p di] di c
    by (auto simp: dlist_def dec_count_def unlink_eq [OF p di])
qed

lemma dlist_Nil_iff: "dlist h l ps \<Longrightarrow> nxt h l = l \<longleftrightarrow> ps = []" "dlist h l ps \<Longrightarrow> prv h l = l \<longleftrightarrow> ps = []"
  by (cases ps; auto simp: dlist_def) (cases ps rule: rev_cases; auto simp: dlist_def)

lemma dlist_hd: "dlist h l (x # ps) \<Longrightarrow> nxt h l = x"
  by (simp add: dlist_def)

lemma dlist_last: "dlist h l (ps @ [x]) \<Longrightarrow> prv h l = x"
  by (simp add: dlist_def)

text \<open>Two lists with no address in common do not disturb each other.\<close>

lemma dlist_cong:
  assumes "\<And>x. x \<in> set (l # ps) \<Longrightarrow> nxt h' x = nxt h x \<and> prv h' x = prv h x"
    and "lcount h' l = lcount h l"
  shows "dlist h' l ps = dlist h l ps"
proof -
  have "dpath (nxt h') (prv h') l ps l = dpath (nxt h) (prv h) l ps l"
    using assms(1) by (intro dpath_cong) auto
  then show ?thesis using assms(2) by (simp add: dlist_def)
qed

lemma attach_frame:
  assumes d: "dlist h l ps" and x: "x \<noteq> l" and dis: "set (x # l # ps) \<inter> set (k # qs) = {}"
  shows "dlist (list_attach_tail l x h) k qs = dlist h k qs"
    and "dlist (list_attach_head l x h) k qs = dlist h k qs"
proof -
  have "prv h l \<in> set (l # ps)" and "nxt h l \<in> set (l # ps)"
    using d dpath_ends [of "nxt h" "prv h" l ps l] by (auto simp: dlist_def hd_append last_in_set)
  then show "dlist (list_attach_tail l x h) k qs = dlist h k qs"
    and "dlist (list_attach_head l x h) k qs = dlist h k qs"
    using dis x
    by (auto simp: list_attach_tail_eq list_attach_head_eq intro!: dlist_cong)
qed

lemma unlink_frame:
  assumes d: "dlist h l (xs @ x # ys)" and dis: "set (l # xs @ x # ys) \<inter> set (k # qs) = {}"
  shows "dlist (dec_count l (unlink x h)) k qs = dlist h k qs"
    and "dlist (dec_count l (unlink' x h)) k qs = dlist h k qs"
proof -
  have p: "dpath (nxt h) (prv h) l (xs @ x # ys) l" and di: "distinct (l # xs @ x # ys)"
    using d by (auto simp: dlist_def)
  have "prv h x = last (l # xs)" and "nxt h x = hd (ys @ [l])"
    using dpath_ends [of "nxt h" "prv h" l xs x] dpath_ends [of "nxt h" "prv h" x ys l] p by auto
  then have "prv h x \<in> set (l # xs @ x # ys)" and "nxt h x \<in> set (l # xs @ x # ys)"
    by (auto simp: hd_append last_in_set)
  then have "prv h x \<notin> set (k # qs)" and "nxt h x \<notin> set (k # qs)" and "l \<noteq> k"
    using dis by (auto simp del: set_append)
  then show "dlist (dec_count l (unlink x h)) k qs = dlist h k qs"
    and "dlist (dec_count l (unlink' x h)) k qs = dlist h k qs"
    by (intro dlist_cong; simp add: unlink_eq [OF p di] dec_count_def; metis)+
qed

section \<open>Allocating and releasing nodes\<close>

lemma kfree_node_Some: "\<exists>km. kfree_node x h = Some (h\<lparr>lkm := km\<rparr>) \<and> kfreeB sizeof_node x (lkm h) = Some km"
  by (simp add: kfree_node_def kfreeB_def size_map_node)
    (simp add: sizeof_node_def kfreeP_def Let_def)

lemma kfree_node_inv:
  assumes "kmem_inv own L (lkm h)" and "x \<in> L KM16" and "kfree_node x h = Some h'"
  shows "kmem_inv own (L(KM16 := L KM16 - {x})) (lkm h')"
  using kfreeP_inv [OF assms(1) _ assms(2)] assms(3)
  by (auto simp: kfree_node_def kfreeB_def size_map_node split: bind_splits if_splits)

text \<open>A list header lies inside some block in use: every \<open>list_t\<close> the kernel allocates is a
  field of a larger object.\<close>

definition in_live_block :: "(nat \<Rightarrow> nat set) \<Rightarrow> kmem \<Rightarrow> nat \<Rightarrow> bool" where
  "in_live_block L m a \<longleftrightarrow> (\<exists>k < KMMAX. \<exists>b \<in> live L m k. b \<le> a \<and> a < b + psz k)"

lemma kmalloc_node:
  assumes inv: "kmem_inv own L m" and al: "kmallocB sizeof_node m = Some (x, m')"
    and l: "in_live_block L m l" and ps: "set ps \<subseteq> live L m KM16"
  shows "x \<notin> set (l # ps) \<and> x \<notin> live L m KM16 \<and>
    (\<exists>own'. kmem_inv own' (L(KM16 := insert x (L KM16))) m')"
proof -
  have al': "kmallocP KM16 m = Some (x, m')"
    using al size_map_node by (simp add: kmallocB_def sizeof_node_def)
  from kmallocP_inv [OF inv _ al'] obtain own' where
    x: "x \<notin> live L m KM16" and le: "own \<subseteq>\<^sub>m own'" and b: "block_ok own' KM16 x"
    and inv': "kmem_inv own' (L(KM16 := insert x (L KM16))) m'" by auto
  obtain k a where k: "k < KMMAX" "a \<in> live L m k" "a \<le> l" "l < a + psz k"
    using l by (auto simp: in_live_block_def)
  have "block_ok own' k a"
    using inv k block_ok_mono [OF _ le] by (auto simp: kmem_invx_def pool_ok_def)
  moreover have "\<forall>P \<in> dom own'. 4096 dvd P"
    using inv' by (simp add: kmem_invx_def pages_ok_def)
  ultimately have "{x ..< x + psz KM16} \<inter> {a ..< a + psz k} = {}"
    using b k x by (intro blocks_disjoint) auto
  then have "x \<noteq> l" using k by auto
  with x ps inv' show ?thesis by auto
qed

section \<open>Searching\<close>

lemma list_search_find:
  assumes "dpath (nxt h) p a ys l" and "l \<notin> set ys"
  shows "list_search l d h (hd (ys @ [l])) = Some (find (\<lambda>x. ldata h x = d) ys)"
  using assms
proof (induction ys arbitrary: a)
  case Nil
  then show ?case by (simp add: list_search.simps)
next
  case (Cons y ys)
  then have "nxt h y = hd (ys @ [l])" using dpath_ends [of "nxt h" p y ys l] by simp
  with Cons show ?case by (subst list_search.simps) auto
qed

lemma find_first:
  "find (\<lambda>x. f x = d) ps = Some x \<Longrightarrow>
   \<exists>xs ys. ps = xs @ x # ys \<and> d \<notin> f ` set xs \<and> f x = d"
proof (induction ps)
  case Nil
  then show ?case by simp
next
  case (Cons y ps)
  show ?case
  proof (cases "f y = d")
    case True
    with Cons.prems show ?thesis by (intro exI [of _ "[]"] exI [of _ ps]) auto
  next
    case False
    with Cons obtain xs ys where "ps = xs @ x # ys" "d \<notin> f ` set xs" "f x = d" by auto
    with False show ?thesis by (intro exI [of _ "y # xs"] exI [of _ ys]) auto
  qed
qed

lemma list_search_dlist:
  "dlist h l ps \<Longrightarrow> list_search l d h (nxt h l) = Some (find (\<lambda>x. ldata h x = d) ps)"
  using list_search_find [of h "prv h" l ps l d] dpath_ends [of "nxt h" "prv h" l ps l]
  by (auto simp: dlist_def)

lemma unlink_ldata [simp]: "ldata (unlink x h) = ldata h" "ldata (unlink' x h) = ldata h"
  "ldata (dec_count l h) = ldata h" "lkm (unlink x h) = lkm h" "lkm (unlink' x h) = lkm h"
  "lkm (dec_count l h) = lkm h"
  by (simp_all add: kdefs Let_def)

lemma attach_ldata [simp]: "ldata (list_attach_tail l x h) = ldata h"
  "ldata (list_attach_head l x h) = ldata h" "lkm (list_attach_tail l x h) = lkm h"
  "lkm (list_attach_head l x h) = lkm h"
  by (simp_all add: list_attach_tail_def list_attach_head_def kdefs Let_def)

lemma dlist_lkm [simp]: "dlist (h\<lparr>lkm := km\<rparr>) l ps = dlist h l ps"
  "dlist (h\<lparr>ldata := d\<rparr>) l ps = dlist h l ps"
  by (simp_all add: dlist_def)

lemma dec_count_lkm: "dec_count l (h\<lparr>lkm := km\<rparr>) = (dec_count l h)\<lparr>lkm := km\<rparr>"
  by (simp add: dec_count_def)

section \<open>Adding a node\<close>

text \<open>The lists the change at header \<open>l\<close> with nodes \<open>ps\<close> must not disturb: those made of
  blocks in use, with a header and nodes of their own.\<close>

definition others_kept :: "(nat \<Rightarrow> nat set) \<Rightarrow> lheap \<Rightarrow> nat set \<Rightarrow> lheap \<Rightarrow> bool" where
  "others_kept L h A h' \<longleftrightarrow>
     (\<forall>k qs. dlist h k qs \<longrightarrow> set qs \<subseteq> L KM16 \<longrightarrow> in_live_block L (lkm h) k \<longrightarrow>
        A \<inter> set (k # qs) = {} \<longrightarrow> dlist h' k qs \<and> map (ldata h') qs = map (ldata h) qs)"

definition node_added :: "(nat \<Rightarrow> nat set) \<Rightarrow> lheap \<Rightarrow> lheap \<Rightarrow> nat \<Rightarrow> bool" where
  "node_added L h h' x \<longleftrightarrow> x \<notin> live L (lkm h) KM16 \<and>
     (\<exists>own'. kmem_inv own' (L(KM16 := insert x (L KM16))) (lkm h'))"

lemma KM16_live: "set qs \<subseteq> L KM16 \<Longrightarrow> set qs \<subseteq> live L m KM16"
  by (auto simp: live_def)

lemma attach_others_kept:
  assumes d: "dlist h l ps" and inv: "kmem_inv own L (lkm h)"
    and al: "kmallocB sizeof_node (lkm h) = Some (x, km)" and x: "x \<noteq> l"
  shows "others_kept L h (set (l # ps)) (list_attach_tail l x (h\<lparr>lkm := km, ldata := (ldata h)(x := data)\<rparr>))"
    and "others_kept L h (set (l # ps)) (list_attach_head l x (h\<lparr>lkm := km, ldata := (ldata h)(x := data)\<rparr>))"
proof -
  let ?h = "h\<lparr>lkm := km, ldata := (ldata h)(x := data)\<rparr>"
  have new: "x \<notin> set (k # qs)" if "in_live_block L (lkm h) k" "set qs \<subseteq> L KM16" for k qs
    using kmalloc_node [OF inv al that(1)] KM16_live [of qs L] that(2) by blast
  have d': "dlist ?h l ps" using d by simp
  have keep: "map ((ldata h)(x := data)) qs = map (ldata h) qs" if "x \<notin> set qs" for qs
    using that by simp
  show "others_kept L h (set (l # ps)) (list_attach_tail l x ?h)"
    unfolding others_kept_def
  proof (intro allI impI)
    fix k qs
    assume "dlist h k qs" "set qs \<subseteq> L KM16" "in_live_block L (lkm h) k" "set (l # ps) \<inter> set (k # qs) = {}"
    moreover from this have "x \<notin> set (k # qs)" by (intro new)
    ultimately show "dlist (list_attach_tail l x ?h) k qs \<and>
        map (ldata (list_attach_tail l x ?h)) qs = map (ldata h) qs"
      using attach_frame(1) [OF d' x, of k qs] keep by auto
  qed
  show "others_kept L h (set (l # ps)) (list_attach_head l x ?h)"
    unfolding others_kept_def
  proof (intro allI impI)
    fix k qs
    assume "dlist h k qs" "set qs \<subseteq> L KM16" "in_live_block L (lkm h) k" "set (l # ps) \<inter> set (k # qs) = {}"
    moreover from this have "x \<notin> set (k # qs)" by (intro new)
    ultimately show "dlist (list_attach_head l x ?h) k qs \<and>
        map (ldata (list_attach_head l x ?h)) qs = map (ldata h) qs"
      using attach_frame(2) [OF d' x, of k qs] keep by auto
  qed
qed

lemma list_add_tail_ok:
  assumes d: "dlist h l ps" and inv: "kmem_inv own L (lkm h)" and l: "in_live_block L (lkm h) l"
    and ps: "set ps \<subseteq> L KM16" and r: "list_add_tail l data h = Some h'"
  shows "\<exists>x. node_added L h h' x \<and> dlist h' l (ps @ [x]) \<and>
    map (ldata h') (ps @ [x]) = map (ldata h) ps @ [data] \<and> others_kept L h (set (l # ps)) h'"
proof -
  from r obtain x km where al: "kmallocB sizeof_node (lkm h) = Some (x, km)"
    and h': "h' = list_attach_tail l x (h\<lparr>lkm := km, ldata := (ldata h)(x := data)\<rparr>)"
    by (auto simp: list_add_tail_def split: bind_splits)
  note new = kmalloc_node [OF inv al l KM16_live [of ps L, OF ps]]
  have "dlist h' l (ps @ [x])"
    unfolding h' using d new by (intro dlist_attach_tail) auto
  moreover have "others_kept L h (set (l # ps)) h'"
    unfolding h' using attach_others_kept [OF d inv al] new by auto
  ultimately show ?thesis
    using new by (intro exI [of _ x]) (auto simp: h' node_added_def)
qed

lemma list_add_head_ok:
  assumes d: "dlist h l ps" and inv: "kmem_inv own L (lkm h)" and l: "in_live_block L (lkm h) l"
    and ps: "set ps \<subseteq> L KM16" and r: "list_add_head l data h = Some h'"
  shows "\<exists>x. node_added L h h' x \<and> dlist h' l (x # ps) \<and>
    map (ldata h') (x # ps) = data # map (ldata h) ps \<and> others_kept L h (set (l # ps)) h'"
proof -
  from r obtain x km where al: "kmallocB sizeof_node (lkm h) = Some (x, km)"
    and h': "h' = list_attach_head l x (h\<lparr>lkm := km, ldata := (ldata h)(x := data)\<rparr>)"
    by (auto simp: list_add_head_def split: bind_splits)
  note new = kmalloc_node [OF inv al l KM16_live [of ps L, OF ps]]
  have "dlist h' l (x # ps)"
    unfolding h' using d new by (intro dlist_attach_head) auto
  moreover have "others_kept L h (set (l # ps)) h'"
    unfolding h' using attach_others_kept [OF d inv al] new by auto
  ultimately show ?thesis
    using new by (intro exI [of _ x]) (auto simp: h' node_added_def)
qed

section \<open>Removing and detaching\<close>

lemma unlink'_dlist:
  assumes "dlist h l (xs @ x # ys)" shows "unlink' x h = unlink x h"
  using assms unlink_eq [of h l xs x ys] by (simp add: dlist_def)

lemma list_remove_ok:
  assumes d: "dlist h l ps"
  shows "case find (\<lambda>x. ldata h x = data) ps of
      None \<Rightarrow> list_remove l data h = Some (-1, h)
    | Some x \<Rightarrow> (\<exists>xs ys h'. ps = xs @ x # ys \<and> data \<notin> ldata h ` set xs \<and> ldata h x = data \<and>
        list_remove l data h = Some (ERR_NONE, h') \<and> dlist h' l (xs @ ys) \<and> ldata h' = ldata h \<and>
        kfreeB sizeof_node x (lkm h) = Some (lkm h'))"
proof (cases "find (\<lambda>x. ldata h x = data) ps")
  case None
  then show ?thesis by (simp add: list_remove_def list_search_dlist [OF d])
next
  case (Some x)
  from find_first [OF Some] obtain xs ys where
    ps: "ps = xs @ x # ys" "data \<notin> ldata h ` set xs" "ldata h x = data" by auto
  from kfree_node_Some [of x "unlink' x h"] obtain km where
    km: "kfree_node x (unlink' x h) = Some ((unlink' x h)\<lparr>lkm := km\<rparr>)"
    "kfreeB sizeof_node x (lkm h) = Some km" by auto
  have "dlist ((dec_count l (unlink x h))\<lparr>lkm := km\<rparr>) l (xs @ ys)"
    using dlist_unlink d ps by simp
  moreover have "list_remove l data h = Some (ERR_NONE, (dec_count l (unlink x h))\<lparr>lkm := km\<rparr>)"
    using km unlink'_dlist [OF d [unfolded ps(1)]]
    by (simp add: list_remove_def list_search_dlist [OF d] Some dec_count_lkm)
  ultimately show ?thesis
    unfolding Some option.case using km ps
    by (intro exI [of _ xs] exI [of _ ys] exI [of _ "(dec_count l (unlink x h))\<lparr>lkm := km\<rparr>"] conjI)
      simp_all
qed

lemma list_detach_head_ok:
  "dlist h l [] \<Longrightarrow> list_detach_head l h = (0, h)"
  "dlist h l (x # ps) \<Longrightarrow> list_detach_head l h = (ldata h x, dec_count l (unlink x h)) \<and>
     dlist (dec_count l (unlink x h)) l ps"
  using dlist_Nil_iff [of h l "x # ps"] dlist_hd [of h l x ps] dlist_unlink [of h l "[]" x ps]
  by (auto simp: list_detach_head_def Let_def dlist_Nil_iff)

lemma list_detach_tail_ok:
  "dlist h l [] \<Longrightarrow> list_detach_tail l h = (0, h)"
  "dlist h l (ps @ [x]) \<Longrightarrow> list_detach_tail l h = (ldata h x, dec_count l (unlink x h)) \<and>
     dlist (dec_count l (unlink x h)) l ps"
  using dlist_Nil_iff [of h l "ps @ [x]"] dlist_last [of h l ps x] dlist_unlink [of h l ps x "[]"]
  by (auto simp: list_detach_tail_def Let_def dlist_Nil_iff)

lemma remove1_map_first:
  "d \<notin> f ` set xs \<Longrightarrow> f x = d \<Longrightarrow> remove1 d (map f (xs @ x # ys)) = map f (xs @ ys)"
  by (induction xs) auto

section \<open>Wait queues\<close>

text \<open>A task carries its queue node at offset 72 of \<open>task_t\<close> (\<open>sizeof(resource_t)\<close> is 68 and
  \<open>waiting_on\<close> 4), and \<open>node.data\<close> points back to the task. The queue operations of
  \<open>resource.c\<close> are \<open>list_attach_tail\<close> of that node and \<open>list_detach_head\<close>.\<close>

definition task_node :: "nat \<Rightarrow> nat" where
  "task_node t = t + 72"

definition wq_enq :: "nat \<Rightarrow> nat \<Rightarrow> lheap \<Rightarrow> lheap" where
  "wq_enq l t h = list_attach_tail l (task_node t) h"

definition wq_deq :: "nat \<Rightarrow> lheap \<Rightarrow> nat option \<times> lheap" where
  "wq_deq l h = (let (t, h') = list_detach_head l h in (if t = 0 then None else Some t, h'))"

definition wq_item :: "nat \<Rightarrow> nat \<Rightarrow> lheap \<Rightarrow> bool" where
  "wq_item l t h \<longleftrightarrow> t \<noteq> 0 \<and> ldata h (task_node t) = t \<and> task_node t \<noteq> l"

definition wait_queue :: "nat \<Rightarrow> lheap \<Rightarrow> nat list \<Rightarrow> bool" where
  "wait_queue l h ts \<longleftrightarrow> dlist h l (map task_node ts) \<and> (\<forall>t \<in> set ts. wq_item l t h)"

lemma task_node_eq [simp]: "task_node t = task_node u \<longleftrightarrow> t = u"
  by (simp add: task_node_def)

lemma task_node_image [simp]: "task_node t \<in> task_node ` A \<longleftrightarrow> t \<in> A"
  by (auto simp: image_iff)

interpretation lq: fifo_queue "wq_enq l" "wq_deq l" "wait_queue l" "wq_item l" for l
proof (unfold_locales, goal_cases)
  case (1 h ts t)
  then show ?case
    using dlist_attach_tail [of h l "map task_node ts" "task_node t"]
    by (auto simp: wait_queue_def wq_enq_def wq_item_def)
next
  case (2 h ts t u)
  then show ?case by (simp add: wq_item_def wq_enq_def)
next
  case (3 h)
  then show ?case by (simp add: wait_queue_def wq_deq_def list_detach_head_ok)
next
  case (4 h t ts)
  then show ?case
    using list_detach_head_ok(2) [of h l "task_node t" "map task_node ts"]
    by (auto simp: wait_queue_def wq_deq_def wq_item_def)
qed

text \<open>A heap after boot for the witnesses: a list header in a block of its own, to which one
  node has been added.\<close>

lemma kmallocP_fresh:
  assumes "2 \<le> fresh_count (km_map m ! KM16)"
  shows "\<exists>a m'. kmallocP KM16 m = Some (a, m') \<and>
    (km_map m \<noteq> [] \<longrightarrow> fresh_count (km_map m ! KM16) - 1 \<le> fresh_count (km_map m' ! KM16))"
  using assms by (cases "free_chain (km_map m ! KM16)") (simp_all add: kmallocP_def Let_def)

lemma boot_list:
  "\<exists>own L h l h1. dlist h l [] \<and> kmem_inv own L (lkm h) \<and> in_live_block L (lkm h) l \<and>
    list_add_tail l 7 h = Some h1"
proof -
  obtain own m where m: "kmem_inv own (\<lambda>_. {}) m" "fresh_count (km_map m ! KM16) = 256"
    using memory_init_total [of 300 1 320] by auto
  have ne: "km_map m \<noteq> []" using m(1) by (auto simp: kmem_invx_def)
  obtain a m1 where a: "kmallocP KM16 m = Some (a, m1)" "255 \<le> fresh_count (km_map m1 ! KM16)"
    using kmallocP_fresh [of m] m(2) ne by auto
  from kmallocP_inv [OF m(1) _ a(1)] obtain own' where
    inv: "kmem_inv own' ((\<lambda>_. {})(KM16 := {a})) m1" by auto
  obtain x m2 where x: "kmallocP KM16 m1 = Some (x, m2)"
    using kmallocP_fresh [of m1] a(2) by auto
  let ?h = "list_init a \<lparr>nxt = \<lambda>_. 0, prv = \<lambda>_. 0, ldata = \<lambda>_. 0, lcount = \<lambda>_. 0, lkm = m1\<rparr>"
  have "lkm ?h = m1" by (simp add: list_init_def kdefs Let_def)
  moreover from this have "\<exists>h1. list_add_tail a 7 ?h = Some h1"
    using x size_map_node by (auto simp: list_add_tail_def kmallocB_def sizeof_node_def)
  moreover have "in_live_block ((\<lambda>_. {})(KM16 := {a})) m1 a"
    by (simp add: in_live_block_def live_def psz_def)
  ultimately show ?thesis using inv dlist_init by metis
qed

section \<open>Properties\<close>

text \<open>
  C10. \<open>list_add_tail\<close> and \<open>list_add_head\<close> implement appending and prepending: the list gains
  one node that was not in use before and carries the data, at the end or in front; the
  other entries keep their data and order; the allocator invariant holds with the new node
  in use; and every other list made of blocks in use keeps its nodes and data.
\<close>

theorem list_add_refines:
  assumes "dlist h l ps" and "kmem_inv own L (lkm h)" and "in_live_block L (lkm h) l"
    and "set ps \<subseteq> L KM16"
  shows "(\<forall>h'. list_add_tail l data h = Some h' \<longrightarrow>
      (\<exists>x. node_added L h h' x \<and> dlist h' l (ps @ [x]) \<and>
        map (ldata h') (ps @ [x]) = map (ldata h) ps @ [data] \<and>
        others_kept L h (set (l # ps)) h')) \<and>
    (\<forall>h'. list_add_head l data h = Some h' \<longrightarrow>
      (\<exists>x. node_added L h h' x \<and> dlist h' l (x # ps) \<and>
        map (ldata h') (x # ps) = data # map (ldata h) ps \<and>
        others_kept L h (set (l # ps)) h'))"
  using list_add_tail_ok [OF assms] list_add_head_ok [OF assms] by blast

theorem list_add_refines_witness:
  "\<exists>own L h l h1 x. dlist h l [] \<and> kmem_inv own L (lkm h) \<and> in_live_block L (lkm h) l \<and>
    list_add_tail l 7 h = Some h1 \<and> dlist h1 l [x] \<and> ldata h1 x = 7"
proof -
  obtain own L h l h1 where "dlist h l []" "kmem_inv own L (lkm h)" "in_live_block L (lkm h) l"
    "list_add_tail l 7 h = Some h1" using boot_list by blast
  with list_add_refines [OF this(1-3), of 7] show ?thesis by fastforce
qed

text \<open>
  C11. \<open>list_remove\<close> always returns on a well-formed list. If the data occurs, exactly its
  first node leaves the list and returns to the allocator, whose invariant is kept, the
  result is 0 and the data sequence is the old one with the first occurrence removed;
  otherwise the heap is unchanged and the result is \<open>-1\<close>.
\<close>

theorem list_remove_refines:
  assumes d: "dlist h l ps" and inv: "kmem_inv own L (lkm h)" and ps: "set ps \<subseteq> L KM16"
  shows "if data \<in> ldata h ` set ps
    then \<exists>x h'. x \<in> set ps \<and> ldata h x = data \<and> list_remove l data h = Some (ERR_NONE, h') \<and>
      dlist h' l (remove1 x ps) \<and>
      map (ldata h') (remove1 x ps) = remove1 data (map (ldata h) ps) \<and>
      kmem_inv own (L(KM16 := L KM16 - {x})) (lkm h')
    else list_remove l data h = Some (-1, h)"
proof (cases "find (\<lambda>x. ldata h x = data) ps")
  case None
  then have "data \<notin> ldata h ` set ps" by (auto simp: find_None_iff)
  with None show ?thesis using list_remove_ok [OF d, of data] by simp
next
  case (Some x)
  then obtain xs ys h' where ps': "ps = xs @ x # ys" "data \<notin> ldata h ` set xs" "ldata h x = data"
    and r: "list_remove l data h = Some (ERR_NONE, h')" "dlist h' l (xs @ ys)" "ldata h' = ldata h"
    "kfreeB sizeof_node x (lkm h) = Some (lkm h')"
    using list_remove_ok [OF d, of data] by auto
  have "x \<notin> set xs" using d ps' by (auto simp: dlist_def)
  then have rm: "remove1 x ps = xs @ ys" by (simp add: ps' remove1_append)
  have "kmem_inv own (L(KM16 := L KM16 - {x})) (lkm h')"
    using kfree_node_inv [OF inv, of x "h\<lparr>lkm := lkm h'\<rparr>"] r ps ps' by (simp add: kfree_node_def)
  with ps' r rm remove1_map_first [OF ps'(2,3)] show ?thesis by auto
qed

theorem list_remove_refines_witness:
  "\<exists>own L h l x h'. dlist h l [x] \<and> kmem_inv own L (lkm h) \<and> x \<in> L KM16 \<and>
    list_remove l 7 h = Some (ERR_NONE, h') \<and> dlist h' l []"
proof -
  obtain own L h0 l h where *: "dlist h0 l []" "kmem_inv own L (lkm h0)" "in_live_block L (lkm h0) l"
    "list_add_tail l 7 h0 = Some h" using boot_list by blast
  from list_add_tail_ok [OF this(1-3) _ this(4)] obtain x own' where
    h: "dlist h l [x]" "ldata h x = 7" "kmem_inv own' (L(KM16 := insert x (L KM16))) (lkm h)"
    by (auto simp: node_added_def)
  then obtain h' where "list_remove l 7 h = Some (ERR_NONE, h')" "dlist h' l []"
    using list_remove_refines [OF h(1) h(3), of 7] by auto
  with h show ?thesis by (metis fun_upd_same insertI1)
qed

text \<open>
  The wait queues are first in, first out: tasks attached behind those already waiting
  are detached after them and in the order they were attached, each once, and the queue is
  then empty.
\<close>

theorem wait_queue_fifo:
  assumes "wait_queue l h ts" and "\<forall>t \<in> set us. wq_item l t h" and "distinct (ts @ us)"
  shows "fst (lq.deq_many l (length (ts @ us)) (lq.enq_all l us h)) = map Some (ts @ us) \<and>
    wait_queue l (snd (lq.deq_many l (length (ts @ us)) (lq.enq_all l us h))) []"
  using lq.fifo_order [OF assms] .


theorem wait_queue_fifo_witness:
  "\<exists>h :: lheap. wait_queue 8 h [] \<and> (\<forall>t \<in> set [100, 200]. wq_item 8 t h) \<and>
    fst (lq.deq_many 8 (length [100, 200]) (lq.enq_all 8 [100, 200] h)) = map Some [100, 200]"
proof -
  let ?h = "list_init 8 \<lparr>nxt = \<lambda>_. 0, prv = \<lambda>_. 0, ldata = (\<lambda>_. 0)(172 := 100, 272 := 200),
    lcount = \<lambda>_. 0, lkm = kmem_boot\<rparr>"
  have q: "wait_queue 8 ?h []" by (simp add: wait_queue_def dlist_init)
  have i: "\<forall>t \<in> set [100, 200]. wq_item 8 t ?h"
    by (simp add: wq_item_def task_node_def list_init_def kdefs Let_def)
  show ?thesis
    using wait_queue_fifo [OF q i] q i by (intro exI [of _ ?h]) (simp only: append_Nil, simp)
qed

end
