(* ===== verification/KList.thy ===== *)
theory KList
  imports DList
begin

text \<open>
  The lists that own their nodes, as the rest of the kernel uses them: sequences of nodes
  with address and data, with operations that allocate and free nodes. The pointer code of
  \<^verbatim>\<open>kernel/list.c\<close> implements them: each operation on the heap gives the same sequence
  and the same allocator state.
\<close>

section \<open>Lists that own their nodes\<close>

text \<open>The contents of a \<open>list_t\<close> as a sequence of nodes, each with its address and data.
  The operations allocate and free nodes like those of \<^verbatim>\<open>list.c\<close>, which implement
  them.\<close>

type_synonym klist = "(nat \<times> nat) list"

definition kl_add_tail :: "nat \<Rightarrow> klist \<Rightarrow> kmem \<Rightarrow> (klist \<times> kmem) option" where
  "kl_add_tail data xs m = do {
     (node, m1) \<leftarrow> kmallocB sizeof_node m;
     Some (xs @ [(node, data)], m1)
   }"

definition kl_remove :: "nat \<Rightarrow> klist \<Rightarrow> kmem \<Rightarrow> (int \<times> klist \<times> kmem) option" where
  "kl_remove data xs m =
     (case find (\<lambda>(n, d). d = data) xs of
        None \<Rightarrow> Some (-1, xs, m)
      | Some (n, d) \<Rightarrow> do {
          m1 \<leftarrow> kfreeB sizeof_node n m;
          Some (ERR_NONE, remove1 (n, d) xs, m1)
        })"

definition kl_remove_head :: "klist \<Rightarrow> kmem \<Rightarrow> (nat \<times> klist \<times> kmem) option" where
  "kl_remove_head xs m =
     (case xs of
        [] \<Rightarrow> Some (0, [], m)
      | (n, d) # ys \<Rightarrow> do { m1 \<leftarrow> kfreeB sizeof_node n m; Some (d, ys, m1) })"

definition kl_peek_head :: "klist \<Rightarrow> nat" where
  "kl_peek_head xs = (case xs of [] \<Rightarrow> 0 | (n, d) # ys \<Rightarrow> d)"

section \<open>The pointer code implements them\<close>

definition kl_abs :: "lheap \<Rightarrow> nat list \<Rightarrow> klist" where
  "kl_abs h ps = map (\<lambda>p. (p, ldata h p)) ps"

lemma kl_abs_cong: "map (ldata h') ps = map (ldata h) ps \<Longrightarrow> kl_abs h' ps = kl_abs h ps"
  by (auto simp: kl_abs_def)

lemma kl_find: "find (\<lambda>(n, d). d = data) (kl_abs h ps) =
    map_option (\<lambda>p. (p, ldata h p)) (find (\<lambda>p. ldata h p = data) ps)"
  by (induction ps) (auto simp: kl_abs_def)

lemma kl_remove1: "remove1 (x, ldata h x) (kl_abs h ps) = kl_abs h (remove1 x ps)"
  by (induction ps) (auto simp: kl_abs_def)

lemma kl_add_tail_refines:
  assumes "dlist h l ps" and "kmem_inv own L (lkm h)" and "in_live_block L (lkm h) l"
    and "set ps \<subseteq> L KM16" and r: "list_add_tail l data h = Some h'"
  shows "\<exists>x. dlist h' l (ps @ [x]) \<and>
    kl_add_tail data (kl_abs h ps) (lkm h) = Some (kl_abs h' (ps @ [x]), lkm h')"
proof -
  from list_add_tail_ok [OF assms] obtain x where
    x: "dlist h' l (ps @ [x])" "map (ldata h') ps = map (ldata h) ps" "ldata h' x = data" by auto
  from r obtain y km where y: "kmallocB sizeof_node (lkm h) = Some (y, km)"
    and h': "h' = list_attach_tail l y (h\<lparr>lkm := km, ldata := (ldata h)(y := data)\<rparr>)"
    by (auto simp: list_add_tail_def split: bind_splits)
  have "y \<notin> set (l # ps)"
    using kmalloc_node [OF assms(2) y assms(3) KM16_live [of ps L, OF assms(4)]] by simp
  then have "dlist h' l (ps @ [y])"
    unfolding h' using assms(1) by (intro dlist_attach_tail) auto
  then have "y = x" using dlist_last x(1) by metis
  with x y show ?thesis
    using kl_abs_cong [OF x(2)] by (auto simp: kl_add_tail_def h' kl_abs_def)
qed

lemma kl_remove_refines:
  assumes "dlist h l ps"
  shows "\<exists>e qs h'. list_remove l data h = Some (e, h') \<and> dlist h' l qs \<and>
    kl_remove data (kl_abs h ps) (lkm h) = Some (e, kl_abs h' qs, lkm h')"
proof (cases "find (\<lambda>x. ldata h x = data) ps")
  case None
  then show ?thesis
    using list_remove_ok [OF assms, of data] assms by (auto simp: kl_remove_def kl_find)
next
  case (Some x)
  with list_remove_ok [OF assms, of data] obtain xs ys h' where
    x: "ps = xs @ x # ys" "ldata h x = data" "list_remove l data h = Some (ERR_NONE, h')"
    "dlist h' l (xs @ ys)" "ldata h' = ldata h" "kfreeB sizeof_node x (lkm h) = Some (lkm h')" by auto
  have "x \<notin> set xs" using assms x(1) by (auto simp: dlist_def)
  then have "remove1 x ps = xs @ ys" by (simp add: x(1) remove1_append)
  moreover have "kl_abs h' qs = kl_abs h qs" for qs by (simp add: kl_abs_def x(5))
  ultimately have "kl_remove data (kl_abs h ps) (lkm h) = Some (ERR_NONE, kl_abs h' (xs @ ys), lkm h')"
    using Some x(2,6) kl_remove1 [of x h ps] by (simp add: kl_remove_def kl_find)
  with x show ?thesis by blast
qed

lemma kl_remove_head_refines:
  assumes "dlist h l ps"
  shows "\<exists>d qs h'. list_remove_head l h = Some (d, h') \<and> dlist h' l qs \<and>
    kl_remove_head (kl_abs h ps) (lkm h) = Some (d, kl_abs h' qs, lkm h')"
proof (cases ps)
  case Nil
  with assms show ?thesis
    by (intro exI [of _ 0] exI [of _ "[]"] exI [of _ h])
      (simp add: list_remove_head_def Let_def dlist_Nil_iff kl_remove_head_def kl_abs_def)
next
  case (Cons x qs)
  from kfree_node_Some [of x "unlink x h"] obtain km where
    km: "kfree_node x (unlink x h) = Some ((unlink x h)\<lparr>lkm := km\<rparr>)"
    "kfreeB sizeof_node x (lkm h) = Some km" by auto
  have "dlist ((dec_count l (unlink x h))\<lparr>lkm := km\<rparr>) l qs"
    using dlist_unlink [of h l "[]" x qs] assms Cons by simp
  moreover have "nxt h l = x" "nxt h l \<noteq> l"
    using dlist_hd assms Cons dlist_Nil_iff(1) [OF assms] by auto
  ultimately show ?thesis
    using km Cons
    by (intro exI [of _ "ldata h x"] exI [of _ qs] exI [of _ "(dec_count l (unlink x h))\<lparr>lkm := km\<rparr>"])
      (simp add: list_remove_head_def Let_def kl_remove_head_def kl_abs_def dec_count_lkm)
qed

end
