(* ===== verification/KState.thy ===== *)
theory KState
  imports KList
begin

text \<open>
  The data of the kernel: the structures of \<^verbatim>\<open>resource.h\<close>, \<^verbatim>\<open>task.h\<close>,
  \<^verbatim>\<open>team.h\<close>, \<^verbatim>\<open>port.h\<close>, \<^verbatim>\<open>sem.h\<close> and \<^verbatim>\<open>aspace.h\<close> as records, and one
  record for the kernel's global state. Objects are reached through pointers, natural
  numbers with \<open>NULL = 0\<close>; a structure that starts with a \<open>resource_t\<close> has its resource
  part in \<open>rsrcs\<close> and its own fields in the store of its type, at the same pointer. All
  memory comes from the allocator of \<^verbatim>\<open>KMemory\<close>. A result \<open>None\<close> means that the
  kernel stopped: a panic, its orderly exit, or an access through a null pointer or past
  the end of a table.
\<close>

section \<open>Structures\<close>

datatype rsrc_type = RSRC_NONE | RSRC_TASK | RSRC_ASPACE | RSRC_PORT | RSRC_SEM
  | RSRC_RIGHT | RSRC_AREA | RSRC_QUEUE | RSRC_TEAM | RSRC_MAX

record resource_t =
  rid :: nat
  rtype :: rsrc_type
  rowner :: nat
  rights :: klist
  rqueue :: "nat list"
  rname :: string

text \<open>\<open>frame\<close> is the part of the kernel stack from \<open>esp\<close> upwards that \<open>task_create\<close> prepares.\<close>

record task_t =
  waiting_on :: nat
  status :: int
  wait_time :: nat
  flags :: nat
  irq :: nat
  esp :: nat
  esp0 :: nat
  cr3 :: nat
  scount :: nat
  kstack :: nat
  ustack :: nat
  stack_area :: nat
  tteam :: nat
  frame :: "nat list"

record team_t =
  resources :: klist
  team_refcount :: int
  taspace :: nat
  heap_id :: int
  text_area :: int

text \<open>A message is on exactly one port's chain from \<open>first\<close> to \<open>last\<close>; the chain is a list.
  \<open>mdata\<close> is the buffer's address and \<open>mbytes\<close> its contents.\<close>

record message_t =
  maddr :: nat
  msize :: nat
  mcode :: nat
  from_port :: int
  to_port :: int
  mdata :: nat
  mbytes :: "nat list"

record port_t =
  msgcount :: int
  slaved :: int
  msgs :: "message_t list"
  port_refcount :: int
  nowait :: int
  restrict_to :: int
  sendqueue :: nat

record sem_t =
  sem_count :: int

text \<open>The chain of \<open>phys_page_t\<close> of a page group is a list of their addresses and \<open>addr\<close>
  arrays.\<close>

record pagegroup_t =
  pg_size :: nat
  pg_refcount :: nat
  pg_flags :: nat
  pg_areas :: klist
  pg_pages :: "(nat \<times> nat list) list"

record area_t =
  pgroup :: nat
  virt_addr :: nat
  alength :: nat
  maxlength :: nat

record aspace_t =
  areas :: klist
  pdir_page :: nat
  ptab_page :: nat
  pdir :: "nat \<Rightarrow> nat"
  ptab :: "nat \<Rightarrow> nat"
  pdirphys :: nat

abbreviation (input) tKERNEL :: nat where "tKERNEL \<equiv> 0"
abbreviation (input) tRUNNING :: nat where "tRUNNING \<equiv> 1"
abbreviation (input) tREADY :: nat where "tREADY \<equiv> 2"
abbreviation (input) tDEAD :: nat where "tDEAD \<equiv> 3"
abbreviation (input) tWAITING :: nat where "tWAITING \<equiv> 4"
abbreviation (input) tSLEEP_IRQ :: nat where "tSLEEP_IRQ \<equiv> 5"

text \<open>Sizes of the structures, in the order of their fields with 32-bit words.\<close>

abbreviation (input) sizeof_resource :: nat where "sizeof_resource \<equiv> 68"
abbreviation (input) sizeof_task :: nat where "sizeof_task \<equiv> 132"
abbreviation (input) sizeof_team :: nat where "sizeof_team \<equiv> 96"
abbreviation (input) sizeof_message :: nat where "sizeof_message \<equiv> 24"
abbreviation (input) sizeof_port :: nat where "sizeof_port \<equiv> 100"
abbreviation (input) sizeof_sem :: nat where "sizeof_sem \<equiv> 72"
abbreviation (input) sizeof_pagegroup :: nat where "sizeof_pagegroup \<equiv> 28"
abbreviation (input) sizeof_phys_page :: nat where "sizeof_phys_page \<equiv> 32"
abbreviation (input) sizeof_area :: nat where "sizeof_area \<equiv> 84"
abbreviation (input) sizeof_aspace :: nat where "sizeof_aspace \<equiv> 100"

section \<open>Global state\<close>

text \<open>A task that gave up the processor inside the kernel has its C stack kept until it is
  scheduled again. What is left of the call is one of the following continuations: the
  rest of \<open>sem_acquire\<close>, the loops of \<open>port_send\<close> and \<open>port_recv\<close> with their local
  variables, the rest of \<open>thr_wait\<close>, a plain return with a value (a caller preempted in
  \<open>sem_release\<close>, \<open>sleep\<close> or a timer interrupt), the two points of the reaper's loop, and the
  unreachable rest of \<open>terminate\<close>.\<close>

datatype kcont =
    K_sem_acquire
  | K_port_send nat int int nat nat nat
  | K_port_recv nat nat nat nat nat
  | K_thr_wait
  | K_return int
  | K_user
  | K_reaper
  | K_reaper_loop
  | K_terminated

datatype result = Done int | Blocked

record kstate =
  km :: kmem
  phys_mem :: "nat \<Rightarrow> nat"
  rmap_resource :: "nat \<Rightarrow> nat"
  rmap_next :: "nat \<Rightarrow> nat"
  rmax :: nat
  rfree :: nat
  resource_list :: klist
  rsrcs :: "nat \<Rightarrow> resource_t"
  tasks :: "nat \<Rightarrow> task_t"
  teams :: "nat \<Rightarrow> team_t"
  ports :: "nat \<Rightarrow> port_t"
  sems :: "nat \<Rightarrow> sem_t"
  pgroups :: "nat \<Rightarrow> pagegroup_t"
  area_st :: "nat \<Rightarrow> area_t"
  aspaces :: "nat \<Rightarrow> aspace_t"
  msg_pool :: "nat list"
  current :: nat
  idle_task :: nat
  kernel_team :: nat
  run_queue :: nat
  timer_queue :: nat
  reaper_queue :: nat
  reaper_sem :: int
  live_tasks :: int
  kernel_timer :: int
  irq_task_map :: "nat \<Rightarrow> nat"
  kont :: "nat \<Rightarrow> kcont option"
  kcr3 :: nat
  tss_esp0 :: nat
  thread_bootstrap :: nat
  kernel_task :: nat
  pager_task :: nat
  pager_port_no :: int
  pager_sem_no :: int
  memtotal :: nat

definition upd_rsrc :: "nat \<Rightarrow> (resource_t \<Rightarrow> resource_t) \<Rightarrow> kstate \<Rightarrow> kstate" where
  "upd_rsrc p f s = s\<lparr>rsrcs := (rsrcs s)(p := f (rsrcs s p))\<rparr>"

definition upd_task :: "nat \<Rightarrow> (task_t \<Rightarrow> task_t) \<Rightarrow> kstate \<Rightarrow> kstate" where
  "upd_task p f s = s\<lparr>tasks := (tasks s)(p := f (tasks s p))\<rparr>"

definition upd_team :: "nat \<Rightarrow> (team_t \<Rightarrow> team_t) \<Rightarrow> kstate \<Rightarrow> kstate" where
  "upd_team p f s = s\<lparr>teams := (teams s)(p := f (teams s p))\<rparr>"

definition upd_port :: "nat \<Rightarrow> (port_t \<Rightarrow> port_t) \<Rightarrow> kstate \<Rightarrow> kstate" where
  "upd_port p f s = s\<lparr>ports := (ports s)(p := f (ports s p))\<rparr>"

definition upd_sem :: "nat \<Rightarrow> (sem_t \<Rightarrow> sem_t) \<Rightarrow> kstate \<Rightarrow> kstate" where
  "upd_sem p f s = s\<lparr>sems := (sems s)(p := f (sems s p))\<rparr>"

definition upd_pgroup :: "nat \<Rightarrow> (pagegroup_t \<Rightarrow> pagegroup_t) \<Rightarrow> kstate \<Rightarrow> kstate" where
  "upd_pgroup p f s = s\<lparr>pgroups := (pgroups s)(p := f (pgroups s p))\<rparr>"

definition upd_area :: "nat \<Rightarrow> (area_t \<Rightarrow> area_t) \<Rightarrow> kstate \<Rightarrow> kstate" where
  "upd_area p f s = s\<lparr>area_st := (area_st s)(p := f (area_st s p))\<rparr>"

definition upd_aspace :: "nat \<Rightarrow> (aspace_t \<Rightarrow> aspace_t) \<Rightarrow> kstate \<Rightarrow> kstate" where
  "upd_aspace p f s = s\<lparr>aspaces := (aspaces s)(p := f (aspaces s p))\<rparr>"

lemmas upd_defs = upd_rsrc_def upd_task_def upd_team_def upd_port_def upd_sem_def
  upd_pgroup_def upd_area_def upd_aspace_def

definition kmalloc :: "nat \<Rightarrow> kstate \<Rightarrow> (nat \<times> kstate) option" where
  "kmalloc sz s = do { (p, m) \<leftarrow> kmallocB sz (km s); Some (p, s\<lparr>km := m\<rparr>) }"

definition kfree :: "nat \<Rightarrow> nat \<Rightarrow> kstate \<Rightarrow> kstate option" where
  "kfree sz p s = do { m \<leftarrow> kfreeB sz p (km s); Some (s\<lparr>km := m\<rparr>) }"

text \<open>The static data before \<open>kmain\<close> runs: all zero.\<close>

definition kstate_boot :: kstate where
  "kstate_boot = \<lparr>km = kmem_boot, phys_mem = (\<lambda>_. 0), rmap_resource = (\<lambda>_. 0), rmap_next = (\<lambda>_. 0),
     rmax = 0, rfree = 0, resource_list = [],
     rsrcs = (\<lambda>_. \<lparr>rid = 0, rtype = RSRC_NONE, rowner = 0, rights = [], rqueue = [], rname = []\<rparr>),
     tasks = (\<lambda>_. \<lparr>waiting_on = 0, status = 0, wait_time = 0, flags = 0, irq = 0, esp = 0, esp0 = 0,
       cr3 = 0, scount = 0, kstack = 0, ustack = 0, stack_area = 0, tteam = 0, frame = []\<rparr>),
     teams = (\<lambda>_. \<lparr>resources = [], team_refcount = 0, taspace = 0, heap_id = 0, text_area = 0\<rparr>),
     ports = (\<lambda>_. \<lparr>msgcount = 0, slaved = 0, msgs = [], port_refcount = 0, nowait = 0,
       restrict_to = 0, sendqueue = 0\<rparr>),
     sems = (\<lambda>_. \<lparr>sem_count = 0\<rparr>),
     pgroups = (\<lambda>_. \<lparr>pg_size = 0, pg_refcount = 0, pg_flags = 0, pg_areas = [], pg_pages = []\<rparr>),
     area_st = (\<lambda>_. \<lparr>pgroup = 0, virt_addr = 0, alength = 0, maxlength = 0\<rparr>),
     aspaces = (\<lambda>_. \<lparr>areas = [], pdir_page = 0, ptab_page = 0, pdir = (\<lambda>_. 0), ptab = (\<lambda>_. 0),
       pdirphys = 0\<rparr>),
     msg_pool = [], current = 0, idle_task = 0, kernel_team = 0, run_queue = 0, timer_queue = 0,
     reaper_queue = 0, reaper_sem = 0, live_tasks = 0, kernel_timer = 0, irq_task_map = (\<lambda>_. 0),
     kont = (\<lambda>_. None), kcr3 = 0, tss_esp0 = 0, thread_bootstrap = 0, kernel_task = 0,
     pager_task = 0, pager_port_no = 0, pager_sem_no = 0, memtotal = 0\<rparr>"

end
