(* ===== verification/Resource.thy ===== *)
theory Resource
  imports KState
begin

text \<open>
  The resource table and the wait queues of \<^verbatim>\<open>kernel/resource.c\<close>, with
  \<open>task_wake\<close> of \<^verbatim>\<open>kernel/task.c\<close>, which \<open>rsrc_release\<close> calls. Resource ids index
  \<open>rmap\<close>; the free ids are threaded through its \<open>next\<close> fields from \<open>rfree\<close>. The queue of a
  resource is the list of the tasks on it.
\<close>

section \<open>Operations\<close>

text \<open>\<open>&null_resource\<close>, the address of a static object no allocation returns.\<close>

definition null_resource :: nat where
  "null_resource = 1"

definition rsrc_init :: "nat \<Rightarrow> kstate \<Rightarrow> kstate" where
  "rsrc_init sz s =
     (let s = s\<lparr>resource_list := []\<rparr>;
          s = upd_rsrc null_resource
                (\<lambda>r. r\<lparr>rid := 0, rtype := RSRC_NONE, rowner := 0, rights := []\<rparr>) s;
          s = s\<lparr>rfree := 1, rmax := sz div 8\<rparr>;
          s = fold (\<lambda>i s. s\<lparr>rmap_resource := (rmap_resource s)(i := null_resource),
                              rmap_next := (rmap_next s)(i := i + 1)\<rparr>) [0..<rmax s] s
      in s\<lparr>rmap_next := (rmap_next s)(rmax s - 1 := 0)\<rparr>)"

text \<open>\<open>id < rmax\<close> compares an \<open>int\<close> with a \<open>uint32\<close>: the id is converted to unsigned.\<close>

definition rsrc_find :: "rsrc_type \<Rightarrow> int \<Rightarrow> kstate \<Rightarrow> nat" where
  "rsrc_find type i s =
     (if u32_of_int i < rmax s \<and>
         rtype (rsrcs s (rmap_resource s (u32_of_int i))) = type
      then rmap_resource s (u32_of_int i) else 0)"

definition rsrc_set_owner :: "nat \<Rightarrow> nat \<Rightarrow> kstate \<Rightarrow> kstate option" where
  "rsrc_set_owner r owner s =
     (let o1 = rowner (rsrcs s r) in do {
        s1 \<leftarrow> (if o1 \<noteq> 0 then do {
                (e, l, m) \<leftarrow> kl_remove r (resources (teams s o1)) (km s);
                Some (upd_team o1 (\<lambda>t. t\<lparr>resources := l\<rparr>) (s\<lparr>km := m\<rparr>))
              } else Some s);
        let s2 = upd_rsrc r (\<lambda>x. x\<lparr>rowner := owner\<rparr>) s1;
        if owner \<noteq> 0 then do {
          (l, m) \<leftarrow> kl_add_tail r (resources (teams s2 owner)) (km s2);
          Some (upd_team owner (\<lambda>t. t\<lparr>resources := l\<rparr>) (s2\<lparr>km := m\<rparr>))
        } else Some s2
      })"

text \<open>The result is \<open>owner->rsrc.id\<close>; a resource without owner is a null dereference.\<close>

definition rsrc_identify :: "nat \<Rightarrow> kstate \<Rightarrow> int option" where
  "rsrc_identify i s =
     (if i \<ge> rmax s \<or> rtype (rsrcs s (rmap_resource s i)) = RSRC_NONE then Some 0
      else if rowner (rsrcs s (rmap_resource s i)) = 0 then None
      else Some (int (rid (rsrcs s (rowner (rsrcs s (rmap_resource s i)))))))"

text \<open>The free ids: \<open>rsrc_bind\<close> takes the first, \<open>rsrc_release\<close> puts one back in front.\<close>

definition take_id :: "kstate \<Rightarrow> (nat \<times> kstate) option" where
  "take_id s =
     (if rfree s \<noteq> 0 then Some (rfree s, s\<lparr>rfree := rmap_next s (rfree s)\<rparr>) else None)"

definition give_id :: "nat \<Rightarrow> kstate \<Rightarrow> kstate" where
  "give_id i s = s\<lparr>rmap_resource := (rmap_resource s)(i := null_resource),
     rmap_next := (rmap_next s)(i := rfree s), rfree := i\<rparr>"

definition rsrc_bind :: "nat \<Rightarrow> rsrc_type \<Rightarrow> nat \<Rightarrow> kstate \<Rightarrow> kstate option" where
  "rsrc_bind r type owner s = do {
     (i, s) \<leftarrow> take_id s;
     let s = s\<lparr>rmap_resource := (rmap_resource s)(i := r)\<rparr>;
     let s = upd_rsrc r (\<lambda>x. x\<lparr>rid := i, rtype := type, rowner := owner, rname := [],
               rqueue := [], rights := []\<rparr>) s;
     s1 \<leftarrow> (if owner \<noteq> 0 then do {
             (l, m) \<leftarrow> kl_add_tail r (resources (teams s owner)) (km s);
             Some (upd_team owner (\<lambda>t. t\<lparr>resources := l\<rparr>) (s\<lparr>km := m\<rparr>))
           } else Some s);
     (l, m) \<leftarrow> kl_add_tail r (resource_list s1) (km s1);
     Some (s1\<lparr>resource_list := l, km := m\<rparr>)
   }"

text \<open>At most 31 characters of the name are kept; \<open>NULL\<close> gives the empty name.\<close>

definition rsrc_set_name :: "nat \<Rightarrow> string option \<Rightarrow> kstate \<Rightarrow> kstate" where
  "rsrc_set_name r name s =
     (case name of
        Some n \<Rightarrow> upd_rsrc r (\<lambda>x. x\<lparr>rname := take 31 (takeWhile (\<lambda>c. c \<noteq> CHR 0x00) n)\<rparr>) s
      | None \<Rightarrow> upd_rsrc r (\<lambda>x. x\<lparr>rname := []\<rparr>) s)"

definition queue_create :: "string option \<Rightarrow> nat \<Rightarrow> kstate \<Rightarrow> (int \<times> kstate) option" where
  "queue_create name team s = do {
     (r, s1) \<leftarrow> kmalloc sizeof_resource s;
     s2 \<leftarrow> rsrc_bind r RSRC_QUEUE team s1;
     let s3 = rsrc_set_name r name s2;
     Some (int (rid (rsrcs s3 r)), s3)
   }"

definition rsrc_enqueue :: "nat \<Rightarrow> nat \<Rightarrow> kstate \<Rightarrow> kstate" where
  "rsrc_enqueue r task s =
     (let s = upd_task task (\<lambda>t. t\<lparr>wait_time := 0, flags := tWAITING, waiting_on := r\<rparr>) s
      in upd_rsrc r (\<lambda>x. x\<lparr>rqueue := rqueue x @ [task]\<rparr>) s)"

definition rsrc_enqueue_ordered :: "nat \<Rightarrow> nat \<Rightarrow> nat \<Rightarrow> kstate \<Rightarrow> kstate" where
  "rsrc_enqueue_ordered r task wake_time s =
     (let s = upd_rsrc r (\<lambda>x. x\<lparr>rqueue := rqueue x @ [task]\<rparr>) s
      in upd_task task (\<lambda>t. t\<lparr>wait_time := wake_time, flags := tWAITING, waiting_on := r\<rparr>) s)"

definition queue_detach_head :: "nat \<Rightarrow> kstate \<Rightarrow> nat \<times> kstate" where
  "queue_detach_head r s =
     (case rqueue (rsrcs s r) of
        [] \<Rightarrow> (0, s)
      | t # ts \<Rightarrow> (t, upd_rsrc r (\<lambda>x. x\<lparr>rqueue := ts\<rparr>) s))"

definition rsrc_dequeue :: "nat \<Rightarrow> kstate \<Rightarrow> nat \<times> kstate" where
  "rsrc_dequeue r s =
     (let (t, s1) = queue_detach_head r s in
      (t, if t \<noteq> 0 then upd_task t (\<lambda>x. x\<lparr>waiting_on := 0, flags := tREADY\<rparr>) s1 else s1))"

text \<open>\<open>rsrc_queue_peek\<close> of an empty queue falls off the end of the function without a
  value; \<open>u\<close> stands for what its caller then reads.\<close>

definition rsrc_queue_peek :: "nat \<Rightarrow> nat \<Rightarrow> kstate \<Rightarrow> nat" where
  "rsrc_queue_peek u r s = (case rqueue (rsrcs s r) of [] \<Rightarrow> u | t # ts \<Rightarrow> t)"

definition task_wake :: "nat \<Rightarrow> int \<Rightarrow> kstate \<Rightarrow> kstate" where
  "task_wake task st s =
     rsrc_enqueue (run_queue s) task (upd_task task (\<lambda>t. t\<lparr>status := st\<rparr>) s)"

text \<open>\<open>while((t = list_detach_head(&r->queue))) task_wake(t,ERR_RESOURCE);\<close> does not end when
  \<open>r\<close> is the run queue itself.\<close>

partial_function (option) wake_all :: "nat \<Rightarrow> kstate \<Rightarrow> kstate option" where
  "wake_all r s =
     (let (t, s1) = queue_detach_head r s in
      if t = 0 then Some s1 else wake_all r (task_wake t ERR_RESOURCE s1))"

definition rsrc_release :: "nat \<Rightarrow> kstate \<Rightarrow> kstate option" where
  "rsrc_release r s =
     (let i = rid (rsrcs s r); o1 = rowner (rsrcs s r) in do {
        s1 \<leftarrow> (if o1 \<noteq> 0 then do {
                (e, l, m) \<leftarrow> kl_remove r (resources (teams s o1)) (km s);
                Some (upd_team o1 (\<lambda>t. t\<lparr>resources := l\<rparr>) (s\<lparr>km := m\<rparr>))
              } else Some s);
        (e, l, m) \<leftarrow> kl_remove r (resource_list s1) (km s1);
        s2 \<leftarrow> wake_all r (s1\<lparr>resource_list := l, km := m\<rparr>);
        Some (give_id i (upd_rsrc r (\<lambda>x. x\<lparr>rtype := RSRC_NONE, rid := 0\<rparr>) s2))
      })"

definition rsrc_typename :: "nat \<Rightarrow> kstate \<Rightarrow> string" where
  "rsrc_typename r s =
     (case rtype (rsrcs s r) of
        RSRC_NONE \<Rightarrow> ''none''
      | RSRC_TASK \<Rightarrow> ''task''
      | RSRC_ASPACE \<Rightarrow> ''aspace''
      | RSRC_PORT \<Rightarrow> ''port''
      | RSRC_SEM \<Rightarrow> ''sem''
      | RSRC_RIGHT \<Rightarrow> ''right''
      | RSRC_AREA \<Rightarrow> ''area''
      | RSRC_QUEUE \<Rightarrow> ''queue''
      | RSRC_TEAM \<Rightarrow> ''team''
      | _ \<Rightarrow> ''????'')"

end
