(* ===== verification/ResourceInv.thy ===== *)
theory ResourceInv
  imports Resource
begin

text \<open>
  Correctness of the resource table and the wait queues: the id table is well formed and
  every operation keeps it so; an id names one live resource from \<open>rsrc_bind\<close> to
  \<open>rsrc_release\<close>; the queues are first in, first out; releasing a resource wakes everything
  that waits on it.
\<close>

section \<open>Resource ids\<close>

definition free_ids :: "kstate \<Rightarrow> nat list \<Rightarrow> bool" where
  "free_ids s F \<longleftrightarrow> chain (rmap_next s) (rfree s) F \<and> distinct F"

interpretation ids: free_list take_id give_id free_ids "\<lambda>i. i \<noteq> 0"
proof (unfold_locales, goal_cases)
  case (1 s x xs)
  then show ?case by (auto simp: free_ids_def take_id_def)
next
  case (2 s)
  then show ?case by (simp add: free_ids_def take_id_def)
next
  case (3 s xs x)
  then show ?case by (simp add: free_ids_def give_id_def)
next
  case (4 s xs)
  then show ?case by (auto simp: free_ids_def dest: chain_nz)
qed

text \<open>The table is well formed: the free ids \<open>F\<close> are threaded from \<open>rfree\<close> and map to
  \<open>null_resource\<close>; every other id but 0 maps to a resource that carries the id.\<close>

definition live_ids :: "kstate \<Rightarrow> nat list \<Rightarrow> nat set" where
  "live_ids s F = {0<..<rmax s} - set F"

definition rtab_ok :: "kstate \<Rightarrow> nat list \<Rightarrow> bool" where
  "rtab_ok s F \<longleftrightarrow> free_ids s F \<and> rmax s \<le> 4294967296 \<and> set F \<subseteq> {0<..<rmax s} \<and>
     rtype (rsrcs s null_resource) = RSRC_NONE \<and>
     (\<forall>i \<in> insert 0 (set F). rmap_resource s i = null_resource) \<and>
     (\<forall>i \<in> live_ids s F. rmap_resource s i \<noteq> 0 \<and>
        rid (rsrcs s (rmap_resource s i)) = i \<and> rtype (rsrcs s (rmap_resource s i)) \<noteq> RSRC_NONE)"

definition bound :: "kstate \<Rightarrow> nat list \<Rightarrow> nat set" where
  "bound s F = rmap_resource s ` live_ids s F"

lemma rtab_bound: "rtab_ok s F \<Longrightarrow> r \<in> bound s F \<Longrightarrow>
    rid (rsrcs s r) \<in> live_ids s F \<and> rmap_resource s (rid (rsrcs s r)) = r \<and> r \<noteq> 0 \<and> r \<noteq> null_resource"
  by (auto simp: rtab_ok_def bound_def)

lemma rsrc_find_iff:
  assumes "rtab_ok s F" and "t \<noteq> RSRC_NONE"
  shows "rsrc_find t j s = r \<and> r \<noteq> 0 \<longleftrightarrow>
    r \<in> bound s F \<and> rid (rsrcs s r) = u32_of_int j \<and> rtype (rsrcs s r) = t"
proof
  assume l: "rsrc_find t j s = r \<and> r \<noteq> 0"
  let ?i = "u32_of_int j"
  have i: "?i < rmax s" "rmap_resource s ?i = r" "rtype (rsrcs s r) = t"
    using l by (auto simp: rsrc_find_def split: if_splits)
  then have "?i \<notin> insert 0 (set F)"
    using assms unfolding rtab_ok_def by metis
  then have "?i \<in> live_ids s F" using i(1) by (auto simp: live_ids_def)
  then show "r \<in> bound s F \<and> rid (rsrcs s r) = ?i \<and> rtype (rsrcs s r) = t"
    using assms(1) i by (auto simp: bound_def rtab_ok_def)
next
  assume r: "r \<in> bound s F \<and> rid (rsrcs s r) = u32_of_int j \<and> rtype (rsrcs s r) = t"
  then show "rsrc_find t j s = r \<and> r \<noteq> 0"
    using rtab_bound [OF assms(1), of r] by (auto simp: rsrc_find_def live_ids_def)
qed

text \<open>What a state shares as far as lookups are concerned.\<close>

definition same_ids :: "kstate \<Rightarrow> kstate \<Rightarrow> bool" where
  "same_ids s s' \<longleftrightarrow> rmap_resource s' = rmap_resource s \<and> rmap_next s' = rmap_next s \<and>
     rfree s' = rfree s \<and> rmax s' = rmax s \<and>
     (\<forall>r. rid (rsrcs s' r) = rid (rsrcs s r) \<and> rtype (rsrcs s' r) = rtype (rsrcs s r))"

lemma same_ids_refl [simp]: "same_ids s s"
  by (simp add: same_ids_def)

lemma same_ids_trans [trans]: "same_ids s s' \<Longrightarrow> same_ids s' s'' \<Longrightarrow> same_ids s s''"
  by (simp add: same_ids_def)

lemma same_ids_rtab: "same_ids s s' \<Longrightarrow> rtab_ok s' F = rtab_ok s F"
  by (simp add: same_ids_def rtab_ok_def free_ids_def live_ids_def)

lemma same_ids_find: "same_ids s s' \<Longrightarrow> rsrc_find t j s' = rsrc_find t j s"
  by (simp add: same_ids_def rsrc_find_def)

lemma same_ids_bound: "same_ids s s' \<Longrightarrow> bound s' F = bound s F"
  by (simp add: same_ids_def bound_def live_ids_def)

section \<open>Wait queues\<close>

definition woken :: "nat \<Rightarrow> int \<Rightarrow> task_t \<Rightarrow> task_t" where
  "woken rq st t = t\<lparr>status := st, wait_time := 0, flags := tWAITING, waiting_on := rq\<rparr>"

lemma woken_woken [simp]: "woken rq st (woken rq st t) = woken rq st t"
  by (simp add: woken_def)

lemma task_wake_eq:
  "task_wake t st s = s\<lparr>tasks := (tasks s)(t := woken (run_queue s) st (tasks s t)),
     rsrcs := (rsrcs s)(run_queue s := (rsrcs s (run_queue s))
       \<lparr>rqueue := rqueue (rsrcs s (run_queue s)) @ [t]\<rparr>)\<rparr>"
  by (simp add: task_wake_def rsrc_enqueue_def upd_defs woken_def Let_def)

text \<open>What waking the tasks \<open>ts\<close> of queue \<open>r\<close> amounts to.\<close>

definition wake_list :: "nat \<Rightarrow> nat list \<Rightarrow> kstate \<Rightarrow> kstate" where
  "wake_list r ts s = s\<lparr>
     tasks := (\<lambda>t. if t \<in> set ts then woken (run_queue s) ERR_RESOURCE (tasks s t) else tasks s t),
     rsrcs := (\<lambda>x. if x = r then (rsrcs s r)\<lparr>rqueue := []\<rparr>
                   else if x = run_queue s
                   then (rsrcs s x)\<lparr>rqueue := rqueue (rsrcs s x) @ ts\<rparr> else rsrcs s x)\<rparr>"

lemma wake_all_eq:
  assumes "r \<noteq> run_queue s" and "0 \<notin> set (rqueue (rsrcs s r))"
  shows "wake_all r s = Some (wake_list r (rqueue (rsrcs s r)) s)"
  using assms
proof (induction "rqueue (rsrcs s r)" arbitrary: s)
  case Nil
  have "(\<lambda>x. if x = r then rsrcs s r\<lparr>rqueue := []\<rparr> else rsrcs s x) = rsrcs s"
    using Nil by (auto simp: fun_eq_iff)
  with Nil show ?case
    by (subst wake_all.simps)
      (simp add: queue_detach_head_def wake_list_def fun_eq_iff flip: Nil(1))
next
  case (Cons t ts)
  let ?s1 = "upd_rsrc r (\<lambda>x. x\<lparr>rqueue := ts\<rparr>) s"
  let ?s2 = "task_wake t ERR_RESOURCE ?s1"
  have q: "rqueue (rsrcs s r) = t # ts" using Cons by simp
  have 2: "ts = rqueue (rsrcs ?s2 r)" "run_queue ?s2 = run_queue s"
    using Cons.prems by (simp_all add: task_wake_eq upd_defs)
  have "wake_all r s = wake_all r ?s2"
    using Cons.prems q by (subst wake_all.simps) (simp add: queue_detach_head_def)
  also have "\<dots> = Some (wake_list r ts ?s2)"
    using Cons.hyps(1) [OF 2(1)] 2 Cons.prems q by simp
  also have "wake_list r ts ?s2 = wake_list r (t # ts) s"
    using Cons.prems by (auto simp: wake_list_def task_wake_eq upd_defs fun_eq_iff)
  finally show ?case by (simp add: q)
qed

section \<open>Binding and releasing\<close>

lemma kfree_Some: "\<exists>m'. kfreeB sizeof_node n m = Some m'"
  using kfree_node_Some [of n "\<lparr>nxt = \<lambda>_. 0, prv = \<lambda>_. 0, ldata = \<lambda>_. 0, lcount = \<lambda>_. 0, lkm = m\<rparr>"]
  by auto

lemma kl_remove_Some: "\<exists>e l m'. kl_remove d xs m = Some (e, l, m')"
proof (cases "find (\<lambda>(n, d'). d' = d) xs")
  case None
  then show ?thesis by (simp add: kl_remove_def)
next
  case (Some a)
  obtain m' where "kfreeB sizeof_node (fst a) m = Some m'" using kfree_Some by blast
  with Some show ?thesis by (cases a) (simp add: kl_remove_def)
qed

lemma rsrc_all_fields:
  "(x :: resource_t)\<lparr>rid := a, rtype := b, rowner := c, rname := d, rqueue := e, rights := f\<rparr> =
    \<lparr>rid = a, rtype = b, rowner = c, rights = f, rqueue = e, rname = d\<rparr>"
  by (cases x) simp

text \<open>What \<open>rsrc_bind\<close> changes: the head of the free ids, the slot, the resource, and the
  bookkeeping lists with the nodes they allocate.\<close>

lemma rsrc_bindE:
  assumes "rsrc_bind r ty ow s = Some s'"
  obtains tms m rl where "rfree s \<noteq> 0"
    and "s' = s\<lparr>rfree := rmap_next s (rfree s), rmap_resource := (rmap_resource s)(rfree s := r),
      rsrcs := (rsrcs s)(r := \<lparr>rid = rfree s, rtype = ty, rowner = ow, rights = [], rqueue = [],
        rname = []\<rparr>), teams := tms, km := m, resource_list := rl\<rparr>"
proof -
  have nz: "rfree s \<noteq> 0" using assms by (cases "rfree s") (auto simp: rsrc_bind_def take_id_def)
  show ?thesis
  proof (cases "ow = 0")
    case True
    with assms nz obtain l m where "kl_add_tail r (resource_list s) (km s) = Some (l, m)"
      "s' = s\<lparr>rfree := rmap_next s (rfree s), rmap_resource := (rmap_resource s)(rfree s := r),
        rsrcs := (rsrcs s)(r := \<lparr>rid = rfree s, rtype = ty, rowner = ow, rights = [], rqueue = [],
        rname = []\<rparr>), resource_list := l, km := m\<rparr>"
      by (auto simp: rsrc_bind_def take_id_def upd_defs Let_def rsrc_all_fields split: bind_splits)
    with nz show ?thesis
      by (intro that [where tms = "teams s" and m = m and rl = l]) simp_all
  next
    case False
    with assms nz obtain l1 m1 l m where "kl_add_tail r (resources (teams s ow)) (km s) = Some (l1, m1)"
      "s' = s\<lparr>rfree := rmap_next s (rfree s), rmap_resource := (rmap_resource s)(rfree s := r),
        rsrcs := (rsrcs s)(r := \<lparr>rid = rfree s, rtype = ty, rowner = ow, rights = [], rqueue = [],
        rname = []\<rparr>), teams := (teams s)(ow := (teams s ow)\<lparr>resources := l1\<rparr>),
        resource_list := l, km := m\<rparr>"
      by (auto simp: rsrc_bind_def take_id_def upd_defs Let_def rsrc_all_fields split: bind_splits)
    with nz show ?thesis
      by (intro that [where tms = "(teams s)(ow := (teams s ow)\<lparr>resources := l1\<rparr>)" and m = m and rl = l])
        simp_all
  qed
qed

lemma rtab_slot: "rtab_ok s F \<Longrightarrow> j < rmax s \<Longrightarrow> j \<in> live_ids s F \<or> rmap_resource s j = null_resource"
  by (cases "j \<in> insert 0 (set F)") (auto simp: rtab_ok_def live_ids_def)

lemma rsrc_bind_ok:
  assumes ok: "rtab_ok s F" and r: "r \<noteq> 0" "r \<noteq> null_resource" "r \<notin> bound s F"
    and ty: "ty \<noteq> RSRC_NONE" and b: "rsrc_bind r ty ow s = Some s'"
  shows "\<exists>F'. F = rid (rsrcs s' r) # F' \<and> rtab_ok s' F' \<and>
    rsrc_find ty (int (rid (rsrcs s' r))) s' = r \<and> bound s' F' = insert r (bound s F) \<and>
    (\<forall>t j. t \<noteq> RSRC_NONE \<longrightarrow> u32_of_int j \<noteq> rid (rsrcs s' r) \<longrightarrow> rsrc_find t j s' = rsrc_find t j s)"
proof -
  from b obtain tms m rl where nz: "rfree s \<noteq> 0" and s': "s' = s\<lparr>rfree := rmap_next s (rfree s),
      rmap_resource := (rmap_resource s)(rfree s := r),
      rsrcs := (rsrcs s)(r := \<lparr>rid = rfree s, rtype = ty, rowner = ow, rights = [], rqueue = [],
        rname = []\<rparr>), teams := tms, km := m, resource_list := rl\<rparr>" by (rule rsrc_bindE)
  obtain F' where F: "F = rfree s # F'" "chain (rmap_next s) (rmap_next s (rfree s)) F'"
    using ok nz by (auto simp: rtab_ok_def free_ids_def chain_pos)
  have live: "live_ids s' F' = insert (rfree s) (live_ids s F)"
    using ok F by (auto simp: live_ids_def s' rtab_ok_def free_ids_def)
  have ne: "rmap_resource s i \<noteq> r" if "i \<in> live_ids s F" for i
    using r(3) that by (auto simp: bound_def)
  have fl: "rfree s \<notin> live_ids s F" using F by (auto simp: live_ids_def)
  have "rtab_ok s' F'"
    unfolding rtab_ok_def live using ok F ne r ty nz fl
    by (auto simp: rtab_ok_def free_ids_def s')
  moreover have "bound s' F' = insert r (bound s F)"
    unfolding bound_def live using fl by (auto simp: s' image_iff)
  moreover have "rfree s < rmax s" "rmax s \<le> 4294967296" using ok F by (auto simp: rtab_ok_def)
  then have "rsrc_find ty (int (rid (rsrcs s' r))) s' = r"
    by (simp add: rsrc_find_def s')
  moreover have "rsrc_find t j s' = rsrc_find t j s"
    if "t \<noteq> RSRC_NONE" "u32_of_int j \<noteq> rid (rsrcs s' r)" for t j
  proof -
    have j: "u32_of_int j \<noteq> rfree s" using that by (simp add: s')
    show ?thesis
    proof (cases "rmap_resource s (u32_of_int j) = r \<and> u32_of_int j < rmax s")
      case True
      then have "u32_of_int j \<notin> live_ids s F" using ne by auto
      then have "rmap_resource s (u32_of_int j) = null_resource"
        using rtab_slot [OF ok, of "u32_of_int j"] True by auto
      with True r show ?thesis by simp
    next
      case False
      with j show ?thesis by (auto simp: rsrc_find_def s')
    qed
  qed
  moreover have "rid (rsrcs s' r) = rfree s" by (simp add: s')
  ultimately show ?thesis using F by auto
qed

lemma rsrc_releaseE:
  assumes "r \<noteq> run_queue s" and "0 \<notin> set (rqueue (rsrcs s r))"
  obtains tms m rl where "rsrc_release r s = Some (give_id (rid (rsrcs s r))
    (upd_rsrc r (\<lambda>x. x\<lparr>rtype := RSRC_NONE, rid := 0\<rparr>)
      (wake_list r (rqueue (rsrcs s r)) (s\<lparr>teams := tms, resource_list := rl, km := m\<rparr>))))"
proof -
  obtain e l m1 where 1: "kl_remove r (resources (teams s (rowner (rsrcs s r)))) (km s) = Some (e, l, m1)"
    using kl_remove_Some by blast
  obtain e2 l2 m2 where 2: "kl_remove r (resource_list s) m1 = Some (e2, l2, m2)"
    using kl_remove_Some by blast
  obtain e3 l3 m3 where 3: "kl_remove r (resource_list s) (km s) = Some (e3, l3, m3)"
    using kl_remove_Some by blast
  have w: "wake_all r (s\<lparr>teams := tms, resource_list := rl, km := m\<rparr>) =
      Some (wake_list r (rqueue (rsrcs s r)) (s\<lparr>teams := tms, resource_list := rl, km := m\<rparr>))" for tms m rl
    using wake_all_eq [of r "s\<lparr>teams := tms, resource_list := rl, km := m\<rparr>"] assms by simp
  show ?thesis
  proof (cases "rowner (rsrcs s r) = 0")
    case True
    then show ?thesis
      using that [where tms = "teams s" and m = m3 and rl = l3] 3 w [where tms = "teams s" and m = m3 and rl = l3]
      by (simp add: rsrc_release_def Let_def)
  next
    case False
    let ?t = "(teams s)(rowner (rsrcs s r) := (teams s (rowner (rsrcs s r)))\<lparr>resources := l\<rparr>)"
    from False show ?thesis
      using that [where tms = ?t and m = m2 and rl = l2] 1 2 w [where tms = ?t and m = m2 and rl = l2]
      by (simp add: rsrc_release_def Let_def upd_defs)
  qed
qed

lemma rsrc_release_ok:
  assumes ok: "rtab_ok s F" and r: "r \<in> bound s F" "r \<noteq> run_queue s" "0 \<notin> set (rqueue (rsrcs s r))"
  shows "\<exists>s'. rsrc_release r s = Some s' \<and> rtab_ok s' (rid (rsrcs s r) # F) \<and>
    bound s' (rid (rsrcs s r) # F) = bound s F - {r} \<and>
    (\<forall>t j. t \<noteq> RSRC_NONE \<longrightarrow> rsrc_find t j s' =
       (if u32_of_int j = rid (rsrcs s r) then 0 else rsrc_find t j s)) \<and>
    tasks s' = (\<lambda>t. if t \<in> set (rqueue (rsrcs s r)) then woken (run_queue s) ERR_RESOURCE (tasks s t)
                    else tasks s t) \<and>
    rqueue (rsrcs s' (run_queue s)) = rqueue (rsrcs s (run_queue s)) @ rqueue (rsrcs s r)"
proof -
  let ?i = "rid (rsrcs s r)"
  from r(2,3) obtain tms m rl where "rsrc_release r s = Some (give_id ?i
    (upd_rsrc r (\<lambda>x. x\<lparr>rtype := RSRC_NONE, rid := 0\<rparr>)
      (wake_list r (rqueue (rsrcs s r)) (s\<lparr>teams := tms, resource_list := rl, km := m\<rparr>))))"
    by (rule rsrc_releaseE)
  then obtain s' where rel: "rsrc_release r s = Some s'"
    and s': "s' = give_id ?i (upd_rsrc r (\<lambda>x. x\<lparr>rtype := RSRC_NONE, rid := 0\<rparr>)
      (wake_list r (rqueue (rsrcs s r)) (s\<lparr>teams := tms, resource_list := rl, km := m\<rparr>)))" by simp
  have f: "rmap_resource s' = (rmap_resource s)(?i := null_resource)"
    "rmap_next s' = (rmap_next s)(?i := rfree s)" "rfree s' = ?i" "rmax s' = rmax s"
    by (simp_all add: s' give_id_def upd_defs wake_list_def)
  have g: "rtype (rsrcs s' r) = RSRC_NONE"
    "x \<noteq> r \<Longrightarrow> rid (rsrcs s' x) = rid (rsrcs s x) \<and> rtype (rsrcs s' x) = rtype (rsrcs s x)" for x
    by (simp_all add: s' give_id_def upd_defs wake_list_def)
  have i: "?i \<in> live_ids s F" "rmap_resource s ?i = r" "r \<noteq> 0" "r \<noteq> null_resource"
    using rtab_bound [OF ok r(1)] by auto
  have uniq: "rmap_resource s j \<noteq> r" if "j \<in> live_ids s F - {?i}" for j
    using ok that by (auto simp: rtab_ok_def)
  have live: "live_ids s' (?i # F) = live_ids s F - {?i}"
    by (auto simp: live_ids_def f)
  have "rtab_ok s' (?i # F)"
    unfolding rtab_ok_def live
  proof (intro conjI)
    show "free_ids s' (?i # F)" "rmax s' \<le> 4294967296" "set (?i # F) \<subseteq> {0<..<rmax s'}"
      using ok i by (auto simp: rtab_ok_def free_ids_def f live_ids_def)
    show "rtype (rsrcs s' null_resource) = RSRC_NONE" using ok g(2) i by (simp add: rtab_ok_def)
    show "\<forall>j \<in> insert 0 (set (?i # F)). rmap_resource s' j = null_resource"
      using ok by (simp add: rtab_ok_def f)
    show "\<forall>j \<in> live_ids s F - {?i}. rmap_resource s' j \<noteq> 0 \<and>
        rid (rsrcs s' (rmap_resource s' j)) = j \<and> rtype (rsrcs s' (rmap_resource s' j)) \<noteq> RSRC_NONE"
      using ok g(2) uniq by (simp add: rtab_ok_def f)
  qed
  moreover have "bound s' (?i # F) = bound s F - {r}"
    unfolding bound_def live using i(2) uniq by (auto simp: f)
  moreover have "rsrc_find t j s' = (if u32_of_int j = ?i then 0 else rsrc_find t j s)"
    if t: "t \<noteq> RSRC_NONE" for t j
  proof (cases "u32_of_int j = ?i \<or> \<not> u32_of_int j < rmax s")
    case True
    then show ?thesis
      using t ok i(4) g(2) [of null_resource] by (auto simp: rsrc_find_def f rtab_ok_def)
  next
    case False
    then have "rmap_resource s (u32_of_int j) \<noteq> r"
      using uniq [of "u32_of_int j"] rtab_slot [OF ok, of "u32_of_int j"] i(4) by auto
    with False g(2) show ?thesis by (auto simp: rsrc_find_def f)
  qed
  moreover have "tasks s' = (\<lambda>t. if t \<in> set (rqueue (rsrcs s r))
      then woken (run_queue s) ERR_RESOURCE (tasks s t) else tasks s t)"
    "rqueue (rsrcs s' (run_queue s)) = rqueue (rsrcs s (run_queue s)) @ rqueue (rsrcs s r)"
    using r(2) by (simp_all add: s' give_id_def upd_defs wake_list_def cong: if_cong)
  ultimately show ?thesis using rel by (intro exI [of _ s'] conjI) simp_all
qed

section \<open>Initialisation\<close>

definition init_slots :: "nat \<Rightarrow> kstate \<Rightarrow> kstate" where
  "init_slots n s = s\<lparr>
     rmap_resource := (\<lambda>i. if i < n then null_resource else rmap_resource s i),
     rmap_next := (\<lambda>i. if i < n then i + 1 else rmap_next s i)\<rparr>"

lemma init_slots_fold:
  "fold (\<lambda>i s. s\<lparr>rmap_resource := (rmap_resource s)(i := null_resource),
     rmap_next := (rmap_next s)(i := i + 1)\<rparr>) [0..<n] s = init_slots n s"
proof (induction n)
  case 0
  then show ?case by (simp add: init_slots_def)
next
  case (Suc n)
  then show ?case
    by (auto simp: init_slots_def fun_eq_iff less_Suc_eq)
qed

lemma chain_upt: "a < n \<Longrightarrow> 0 < a \<Longrightarrow>
    chain (\<lambda>i. if i = n - 1 then 0 else if i < n then i + 1 else f i) a [a..<n]"
proof (induction "n - a" arbitrary: a)
  case (Suc k)
  show ?case
  proof (cases "a = n - 1")
    case True
    then show ?thesis using Suc.prems by (simp add: upt_conv_Cons)
  next
    case False
    then have "chain (\<lambda>i. if i = n - 1 then 0 else if i < n then i + 1 else f i) (a + 1) [a + 1..<n]"
      using Suc by (intro Suc.hyps(1)) auto
    then show ?thesis using Suc.prems False by (simp add: upt_conv_Cons)
  qed
qed simp

lemma rsrc_init_rtab:
  assumes "16 \<le> sz" and "sz < 4294967296"
  shows "rtab_ok (rsrc_init sz s) [1..<sz div 8]"
proof -
  let ?n = "sz div 8"
  have n: "2 \<le> ?n" "?n < 4294967296" using assms by (auto simp: less_eq_div_iff_mult_less_eq)
  have f: "rmap_resource (rsrc_init sz s) i = (if i < ?n then null_resource else rmap_resource s i)"
    "rmap_next (rsrc_init sz s) = (\<lambda>i. if i = ?n - 1 then 0 else if i < ?n then i + 1 else rmap_next s i)"
    "rfree (rsrc_init sz s) = 1" "rmax (rsrc_init sz s) = ?n"
    "rtype (rsrcs (rsrc_init sz s) null_resource) = RSRC_NONE" for i
    unfolding rsrc_init_def Let_def init_slots_fold
    by (simp_all add: upd_defs fun_eq_iff init_slots_def)
  have "free_ids (rsrc_init sz s) [1..<?n]"
    unfolding free_ids_def f using chain_upt [of 1 ?n] n by simp
  then show ?thesis
    using n by (auto simp: rtab_ok_def live_ids_def f)
qed

section \<open>The kernel's queues\<close>

definition kq_deq :: "nat \<Rightarrow> kstate \<Rightarrow> nat option \<times> kstate" where
  "kq_deq r s = (let (t, s') = rsrc_dequeue r s in (if t = 0 then None else Some t, s'))"

definition kq_holds :: "nat \<Rightarrow> kstate \<Rightarrow> nat list \<Rightarrow> bool" where
  "kq_holds r s ts \<longleftrightarrow> rqueue (rsrcs s r) = ts \<and> 0 \<notin> set ts"

interpretation kq: fifo_queue "rsrc_enqueue r" "kq_deq r" "kq_holds r" "\<lambda>t s. t \<noteq> 0" for r
  by unfold_locales
    (auto simp: kq_holds_def kq_deq_def rsrc_enqueue_def rsrc_dequeue_def queue_detach_head_def
      upd_defs Let_def)

section \<open>Properties\<close>

text \<open>
  C12. A resource id names one resource for exactly its lifetime. Binding a resource takes a
  free id; from then on, through any operations that leave the table alone, looking the id
  up by the resource's type finds it and every other id finds what it found before.
  Releasing always succeeds, makes the id unknown again for every type, restores every
  other lookup and the free list, and keeps the table well formed.
\<close>

theorem rsrc_id_lifetime:
  assumes ok: "rtab_ok s F" and r: "r \<noteq> 0" "r \<noteq> null_resource" "r \<notin> bound s F"
    and ty: "ty \<noteq> RSRC_NONE" and b: "rsrc_bind r ty ow s = Some s1" and same: "same_ids s1 s2"
    and q: "r \<noteq> run_queue s2" "0 \<notin> set (rqueue (rsrcs s2 r))"
  shows "rid (rsrcs s1 r) \<in> set F \<and>
    rsrc_find ty (int (rid (rsrcs s1 r))) s2 = r \<and>
    (\<forall>t j. t \<noteq> RSRC_NONE \<longrightarrow> u32_of_int j \<noteq> rid (rsrcs s1 r) \<longrightarrow>
       rsrc_find t j s2 = rsrc_find t j s) \<and>
    (\<exists>s3. rsrc_release r s2 = Some s3 \<and> rtab_ok s3 F \<and>
       (\<forall>t j. t \<noteq> RSRC_NONE \<longrightarrow> rsrc_find t j s3 =
          (if u32_of_int j = rid (rsrcs s1 r) then 0 else rsrc_find t j s)))"
proof -
  let ?i = "rid (rsrcs s1 r)"
  from rsrc_bind_ok [OF ok r ty b] obtain F' where F: "F = ?i # F'" "rtab_ok s1 F'"
    "rsrc_find ty (int ?i) s1 = r" "bound s1 F' = insert r (bound s F)"
    "\<forall>t j. t \<noteq> RSRC_NONE \<longrightarrow> u32_of_int j \<noteq> ?i \<longrightarrow> rsrc_find t j s1 = rsrc_find t j s" by blast
  have i: "rid (rsrcs s2 r) = ?i" using same by (simp add: same_ids_def)
  have "rtab_ok s2 F'" "r \<in> bound s2 F'"
    using F same_ids_rtab [OF same] same_ids_bound [OF same] by auto
  from rsrc_release_ok [OF this q] F(1,5) i same_ids_find [OF same] show ?thesis
    using F(3) by auto
qed

theorem rsrc_id_lifetime_witness:
  "\<exists>s s1. rtab_ok s [1..<4] \<and> rsrc_bind 64 RSRC_SEM 0 s = Some s1 \<and>
    rid (rsrcs s1 64) \<in> set [1..<4] \<and> (\<exists>s3. rsrc_release 64 s1 = Some s3 \<and> rtab_ok s3 [1..<4])"
proof -
  let ?s = "rsrc_init 32 kstate_boot"
  have ok: "rtab_ok ?s [1..<4]" using rsrc_init_rtab [of 32 kstate_boot] by simp
  have e: "rsrcs ?s 64 = rsrcs kstate_boot 64" "km ?s = kmem_boot" "rfree ?s = 1"
    "run_queue ?s = 0" "resource_list ?s = []"
    unfolding rsrc_init_def Let_def init_slots_fold
    by (simp_all add: upd_defs init_slots_def kstate_boot_def null_resource_def)
  have nb: "64 \<notin> bound ?s [1..<4]"
    using ok rtab_bound [OF ok, of 64] e by (auto simp: kstate_boot_def live_ids_def)
  have "\<exists>l m. kl_add_tail 64 [] kmem_boot = Some (l, m)"
    by (simp add: kl_add_tail_def kmallocB_def sizeof_node_def size_map_nth kmallocP_def
        kmem_boot_def km_map_init_def Let_def)
  then obtain s1 where b: "rsrc_bind 64 RSRC_SEM 0 ?s = Some s1"
    using e by (auto simp: rsrc_bind_def take_id_def upd_defs Let_def)
  have s1: "run_queue s1 = 0" "rqueue (rsrcs s1 64) = []"
    using b e by (auto elim!: rsrc_bindE)
  from rsrc_id_lifetime [OF ok _ _ nb _ b same_ids_refl] s1 show ?thesis
    using ok b by (auto simp: null_resource_def)
qed

text \<open>
  C13. Releasing a resource wakes everything that waits on it: the waiting tasks move, in
  order, to the end of the run queue, each with status \<open>ERR_RESOURCE\<close>, and no other task
  changes.
\<close>

theorem rsrc_release_wakes:
  assumes "rtab_ok s F" and "r \<in> bound s F" and "r \<noteq> run_queue s" and "0 \<notin> set (rqueue (rsrcs s r))"
  shows "\<exists>s'. rsrc_release r s = Some s' \<and>
    rqueue (rsrcs s' (run_queue s)) = rqueue (rsrcs s (run_queue s)) @ rqueue (rsrcs s r) \<and>
    (\<forall>t \<in> set (rqueue (rsrcs s r)). status (tasks s' t) = ERR_RESOURCE \<and>
       waiting_on (tasks s' t) = run_queue s) \<and>
    (\<forall>t. t \<notin> set (rqueue (rsrcs s r)) \<longrightarrow> tasks s' t = tasks s t)"
  using rsrc_release_ok [OF assms] by (auto simp: woken_def)

text \<open>The kernel state of the witnesses: an id table with one semaphore, id 1 at address 64,
  and two tasks, 8 and 9, waiting on it.\<close>

definition sample :: kstate where
  "sample = kstate_boot\<lparr>rmax := 4, rfree := 2, rmap_next := (\<lambda>_. 0)(2 := 3),
     rmap_resource := (\<lambda>_. null_resource)(1 := 64), run_queue := 48, current := 7,
     rsrcs := (rsrcs kstate_boot)(64 := \<lparr>rid = 1, rtype = RSRC_SEM, rowner = 0, rights = [],
       rqueue = [8, 9], rname = []\<rparr>),
     sems := (\<lambda>_. \<lparr>sem_count = -2\<rparr>)\<rparr>"

lemma sample_rtab: "rtab_ok sample [2, 3]" "bound sample [2, 3] = {64}"
proof -
  have "live_ids sample [2, 3] = {1}" by (auto simp: live_ids_def sample_def)
  then show "rtab_ok sample [2, 3]" "bound sample [2, 3] = {64}"
    by (simp_all add: rtab_ok_def bound_def free_ids_def sample_def kstate_boot_def null_resource_def)
qed

theorem rsrc_release_wakes_witness:
  "\<exists>s'. rsrc_release 64 sample = Some s' \<and> rqueue (rsrcs s' 48) = [8, 9] \<and>
    status (tasks s' 8) = ERR_RESOURCE"
  using rsrc_release_wakes [OF sample_rtab(1), of 64] sample_rtab(2)
  by (auto simp: sample_def kstate_boot_def)

text \<open>
  \<open>rsrc_init\<close> establishes a well-formed table whose free ids are all ids from 1 up, so
  that every lookup fails.
\<close>

theorem rsrc_init_ok:
  assumes "16 \<le> sz" and "sz < 4294967296"
  shows "rtab_ok (rsrc_init sz s) [1..<sz div 8] \<and>
    (\<forall>t j. t \<noteq> RSRC_NONE \<longrightarrow> rsrc_find t j (rsrc_init sz s) = 0)"
proof -
  have ok: "rtab_ok (rsrc_init sz s) [1..<sz div 8]" by (rule rsrc_init_rtab [OF assms])
  have "rmax (rsrc_init sz s) = sz div 8"
    unfolding rsrc_init_def Let_def init_slots_fold by (simp add: upd_defs init_slots_def)
  then have "bound (rsrc_init sz s) [1..<sz div 8] = {}" by (auto simp: bound_def live_ids_def)
  with ok show ?thesis using rsrc_find_iff [OF ok] by blast
qed

theorem rsrc_init_ok_witness:
  "rtab_ok (rsrc_init 24576 kstate_boot) [1..<3072] \<and> rsrc_find RSRC_PORT 7 (rsrc_init 24576 kstate_boot) = 0"
  using rsrc_init_ok [of 24576 kstate_boot] by simp

end
