(* ===== verification/Sched.thy ===== *)
theory Sched
  imports ResourceInv "HOL-Library.Signed_Division"
begin

text \<open>
  Scheduling: \<open>swtch\<close> and \<open>preempt\<close> of \<^verbatim>\<open>kernel/kernel.c\<close>, \<open>wait_on\<close> of
  \<^verbatim>\<open>kernel/task.c\<close>, \<open>terminate\<close> and \<open>sleep\<close> of \<^verbatim>\<open>kernel/syscall.c\<close>, and the
  interrupt and fault handlers of \<^verbatim>\<open>kernel/fault.c\<close>. \<open>_context_switch\<close> exchanges
  machine stacks; in the model it is the change of \<open>current\<close>, and the part of a call that
  runs after it is the continuation in \<open>kont\<close>. The screen output and the interactive
  debugger have no counterpart.
\<close>

section \<open>Operations\<close>

definition run_task :: "nat \<Rightarrow> kstate \<Rightarrow> kstate" where
  "run_task t s =
     (let s = upd_task t (\<lambda>x. x\<lparr>flags := tRUNNING, scount := u32 (scount x + 1)\<rparr>) (s\<lparr>current := t\<rparr>)
      in s\<lparr>tss_esp0 := esp0 (tasks s t)\<rparr>)"

definition swtch :: "kstate \<Rightarrow> kstate option" where
  "swtch s =
     (let cur = current s in
      if rqueue (rsrcs s (run_queue s)) = [] \<and> flags (tasks s cur) = tRUNNING then Some s
      else
        (let s1 = (if flags (tasks s cur) = tRUNNING \<and> cur \<noteq> idle_task s
                   then rsrc_enqueue (run_queue s) cur s else s);
             (t, s2) = rsrc_dequeue (run_queue s1) s1
         in if t = 0 \<and> live_tasks s2 = 0 then None
            else
              (let next = (if t = 0 then idle_task s2 else t) in
               if flags (tasks s2 next) = tDEAD then None
               else Some (run_task next s2))))"

text \<open>\<open>task == (task_t *) tDEAD\<close> compares the pointer with the flag's number.\<close>

definition preempt :: "nat \<Rightarrow> int \<Rightarrow> kstate \<Rightarrow> kstate option" where
  "preempt task st s =
     (let s1 = (if current s \<noteq> idle_task s then rsrc_enqueue (run_queue s) (current s) s else s)
      in if task = tDEAD then None
         else Some (run_task task (upd_task task (\<lambda>x. x\<lparr>status := st\<rparr>) (s1\<lparr>current := task\<rparr>))))"

definition set_kont :: "nat \<Rightarrow> kcont \<Rightarrow> kstate \<Rightarrow> kstate" where
  "set_kont t k s = s\<lparr>kont := (kont s)(t := Some k)\<rparr>"

text \<open>\<open>wait_on\<close> up to the context switch; \<open>return current->status\<close> and what follows in the
  caller is the continuation \<open>k\<close>.\<close>

definition wait_on :: "kcont \<Rightarrow> nat \<Rightarrow> kstate \<Rightarrow> (result \<times> kstate) option" where
  "wait_on k r s =
     (let task = current s;
          s = upd_task task (\<lambda>t. t\<lparr>status := 0\<rparr>) s;
          s = rsrc_enqueue r task s
      in do { s1 \<leftarrow> swtch (set_kont task k s); Some (Blocked, s1) })"

definition wake_the_reaper :: "kstate \<Rightarrow> kstate option" where
  "wake_the_reaper s =
     (let sem = rsrc_find RSRC_SEM (reaper_sem s) s in
      if sem = 0 then None
      else
        (let s1 = upd_sem sem (\<lambda>x. x\<lparr>sem_count := s32 (sem_count x + 1)\<rparr>) s;
             (task, s2) = rsrc_dequeue sem s1
         in Some (if task \<noteq> 0 then task_wake task ERR_NONE s2 else s2)))"

definition terminate :: "kstate \<Rightarrow> kstate option" where
  "terminate s =
     (let t = current s;
          s = s\<lparr>live_tasks := s32 (live_tasks s - 1)\<rparr>;
          s = rsrc_enqueue (reaper_queue s) t s;
          s = upd_task t (\<lambda>x. x\<lparr>flags := tDEAD\<rparr>) s
      in do {
        s1 \<leftarrow> wake_all t s;
        s2 \<leftarrow> wake_the_reaper s1;
        swtch (set_kont t K_terminated s2)
      })"

text \<open>Microseconds to 3 ms ticks, with C's truncating division.\<close>

definition sleep_ticks :: "int \<Rightarrow> int" where
  "sleep_ticks ticks = signed_divide (s32 (ticks + 2000)) 3000"

definition sleep :: "int \<Rightarrow> kstate \<Rightarrow> (result \<times> kstate) option" where
  "sleep ticks s =
     (let n = sleep_ticks ticks; t = current s;
          s1 = (if n \<noteq> 0
                then rsrc_enqueue_ordered (timer_queue s) t (u32_of_int (kernel_timer s + n)) s
                else s)
      in do { s2 \<leftarrow> swtch (set_kont t K_user s1); Some (Blocked, s2) })"

text \<open>The fault handlers for exceptions without and with an error code: \<open>user_debug\<close>
  returns at once. An NMI (number 2) only enters the debugger.\<close>

definition faultE :: "kstate \<Rightarrow> kstate option" where
  "faultE s = terminate (upd_task (current s) (\<lambda>x. x\<lparr>flags := tDEAD\<rparr>) s)"

definition fault :: "nat \<Rightarrow> kstate \<Rightarrow> kstate option" where
  "fault number s =
     (if number \<noteq> 2 then terminate (upd_task (current s) (\<lambda>x. x\<lparr>flags := tDEAD\<rparr>) s) else Some s)"

definition irq_dispatch :: "nat \<Rightarrow> kstate \<Rightarrow> kstate option" where
  "irq_dispatch number s =
     (let t = irq_task_map s number in
      if t \<noteq> 0 \<and> flags (tasks s t) = tSLEEP_IRQ
      then preempt t ERR_NONE (set_kont (current s) K_user s)
      else Some s)"

text \<open>\<open>task->wait_time <= kernel_timer\<close> is an unsigned comparison.\<close>

partial_function (option) timer_wake :: "nat \<Rightarrow> kstate \<Rightarrow> kstate option" where
  "timer_wake u s =
     (let task = rsrc_queue_peek u (timer_queue s) s in
      if task \<noteq> 0 \<and> wait_time (tasks s task) \<le> u32_of_int (kernel_timer s)
      then (let (t, s1) = rsrc_dequeue (timer_queue s) s
            in timer_wake u (rsrc_enqueue (run_queue s1) t s1))
      else Some s)"

definition timer_irq :: "nat \<Rightarrow> kstate \<Rightarrow> kstate option" where
  "timer_irq u s = do {
     s1 \<leftarrow> timer_wake u (s\<lparr>kernel_timer := s32 (kernel_timer s + 1)\<rparr>);
     swtch (set_kont (current s1) K_user s1)
   }"

end
