(* ===== verification/SchedInv.thy ===== *)
theory SchedInv
  imports Sched
begin

text \<open>
  Correctness of the scheduler: every task is on at most one queue, only the current task and
  the idle task are ever marked running, and switching, preempting, waiting, sleeping, clock
  ticks, interrupts and termination keep it so. Ready tasks share the processor round robin.
\<close>

section \<open>Queues\<close>

text \<open>Every queued task is on one queue only, once, and knows which; it is waiting or, on the
  reaper's queue, dead.\<close>

definition queues_ok :: "kstate \<Rightarrow> bool" where
  "queues_ok s \<longleftrightarrow> (\<forall>r. distinct (rqueue (rsrcs s r)) \<and> 0 \<notin> set (rqueue (rsrcs s r)) \<and>
     (\<forall>t \<in> set (rqueue (rsrcs s r)). waiting_on (tasks s t) = r \<and>
        flags (tasks s t) \<in> {tWAITING, tDEAD}))"

definition unqueued :: "nat \<Rightarrow> kstate \<Rightarrow> bool" where
  "unqueued t s \<longleftrightarrow> (\<forall>r. t \<notin> set (rqueue (rsrcs s r)))"

lemma enqueue_queue: "rqueue (rsrcs (rsrc_enqueue r t s) x) =
    (if x = r then rqueue (rsrcs s r) @ [t] else rqueue (rsrcs s x))"
  by (simp add: rsrc_enqueue_def upd_defs Let_def)

lemma enqueue_task: "tasks (rsrc_enqueue r t s) =
    (tasks s)(t := (tasks s t)\<lparr>wait_time := 0, flags := tWAITING, waiting_on := r\<rparr>)"
  by (simp add: rsrc_enqueue_def upd_defs Let_def)

lemma enqueue_fields [simp]:
  "current (rsrc_enqueue r t s) = current s" "idle_task (rsrc_enqueue r t s) = idle_task s"
  "run_queue (rsrc_enqueue r t s) = run_queue s" "live_tasks (rsrc_enqueue r t s) = live_tasks s"
  "timer_queue (rsrc_enqueue r t s) = timer_queue s" "reaper_queue (rsrc_enqueue r t s) = reaper_queue s"
  "kernel_timer (rsrc_enqueue r t s) = kernel_timer s" "sems (rsrc_enqueue r t s) = sems s"
  "ports (rsrc_enqueue r t s) = ports s" "kont (rsrc_enqueue r t s) = kont s"
  "irq_task_map (rsrc_enqueue r t s) = irq_task_map s"
  "rtype (rsrcs (rsrc_enqueue r t s) x) = rtype (rsrcs s x)"
  "same_ids s (rsrc_enqueue r t s)"
  by (simp_all add: rsrc_enqueue_def upd_defs Let_def same_ids_def)

lemma enqueue_ok:
  assumes "queues_ok s" and "unqueued t s" and "t \<noteq> 0"
  shows "queues_ok (rsrc_enqueue r t s)"
  using assms by (auto simp: queues_ok_def unqueued_def enqueue_queue enqueue_task)

lemma enqueue_unqueued: "unqueued u s \<Longrightarrow> u \<noteq> t \<Longrightarrow> unqueued u (rsrc_enqueue r t s)"
  by (auto simp: unqueued_def enqueue_queue)

lemma dequeue_Nil: "rqueue (rsrcs s r) = [] \<Longrightarrow> rsrc_dequeue r s = (0, s)"
  by (simp add: rsrc_dequeue_def queue_detach_head_def)

lemma dequeue_Cons: "rqueue (rsrcs s r) = t # ts \<Longrightarrow> t \<noteq> 0 \<Longrightarrow>
    rsrc_dequeue r s = (t, s\<lparr>rsrcs := (rsrcs s)(r := (rsrcs s r)\<lparr>rqueue := ts\<rparr>),
      tasks := (tasks s)(t := (tasks s t)\<lparr>waiting_on := 0, flags := tREADY\<rparr>)\<rparr>)"
  by (simp add: rsrc_dequeue_def queue_detach_head_def upd_defs)

lemma queues_ok_nz: "queues_ok s \<Longrightarrow> rqueue (rsrcs s r) = t # ts \<Longrightarrow> t \<noteq> 0"
  by (metis list.set_intros(1) queues_ok_def)

text \<open>A task on two queues would have to know both.\<close>

lemma queues_ok_one: "queues_ok s \<Longrightarrow> t \<in> set (rqueue (rsrcs s r)) \<Longrightarrow>
    t \<in> set (rqueue (rsrcs s r')) \<Longrightarrow> r = r'"
  by (metis queues_ok_def)

lemma dequeue_fields [simp]:
  "current (snd (rsrc_dequeue r s)) = current s" "idle_task (snd (rsrc_dequeue r s)) = idle_task s"
  "run_queue (snd (rsrc_dequeue r s)) = run_queue s" "live_tasks (snd (rsrc_dequeue r s)) = live_tasks s"
  "timer_queue (snd (rsrc_dequeue r s)) = timer_queue s"
  "reaper_queue (snd (rsrc_dequeue r s)) = reaper_queue s"
  "kernel_timer (snd (rsrc_dequeue r s)) = kernel_timer s" "sems (snd (rsrc_dequeue r s)) = sems s"
  "ports (snd (rsrc_dequeue r s)) = ports s" "kont (snd (rsrc_dequeue r s)) = kont s"
  "irq_task_map (snd (rsrc_dequeue r s)) = irq_task_map s"
  "rtype (rsrcs (snd (rsrc_dequeue r s)) x) = rtype (rsrcs s x)"
  "same_ids s (snd (rsrc_dequeue r s))"
  by (auto simp: rsrc_dequeue_def queue_detach_head_def upd_defs same_ids_def split: list.split)

lemma dequeue_Cons':
  assumes "rqueue (rsrcs s r) = t # ts" and "t \<noteq> 0"
  shows "fst (rsrc_dequeue r s) = t"
    "rqueue (rsrcs (snd (rsrc_dequeue r s)) x) = (if x = r then ts else rqueue (rsrcs s x))"
    "tasks (snd (rsrc_dequeue r s)) = (tasks s)(t := (tasks s t)\<lparr>waiting_on := 0, flags := tREADY\<rparr>)"
  by (simp_all add: dequeue_Cons [OF assms])

lemma dequeue_ok:
  assumes q: "queues_ok s" and c: "rqueue (rsrcs s r) = t # ts"
  shows "queues_ok (snd (rsrc_dequeue r s)) \<and> unqueued t (snd (rsrc_dequeue r s)) \<and>
    (\<forall>u. unqueued u s \<longrightarrow> unqueued u (snd (rsrc_dequeue r s)))"
proof -
  have nz: "t \<noteq> 0" by (rule queues_ok_nz [OF q c])
  note d = dequeue_Cons' [OF c nz]
  have t: "t \<notin> set ts" using q c unfolding queues_ok_def by (metis distinct.simps(2))
  have o: "t \<notin> set (rqueue (rsrcs s r'))" if "r' \<noteq> r" for r'
    using queues_ok_one [OF q, of t r r'] c that by auto
  have u: "unqueued u (snd (rsrc_dequeue r s))" if "unqueued u s" for u
  proof -
    have "u \<notin> set (t # ts)" using that c unfolding unqueued_def by metis
    with that show ?thesis by (simp add: unqueued_def d(2))
  qed
  have "queues_ok (snd (rsrc_dequeue r s))"
    unfolding queues_ok_def
  proof
    fix x
    have "distinct (rqueue (rsrcs s x)) \<and> 0 \<notin> set (rqueue (rsrcs s x)) \<and>
      (\<forall>t \<in> set (rqueue (rsrcs s x)). waiting_on (tasks s t) = x \<and> flags (tasks s t) \<in> {tWAITING, tDEAD})"
      using q unfolding queues_ok_def by blast
    then show "distinct (rqueue (rsrcs (snd (rsrc_dequeue r s)) x)) \<and>
      0 \<notin> set (rqueue (rsrcs (snd (rsrc_dequeue r s)) x)) \<and>
      (\<forall>u \<in> set (rqueue (rsrcs (snd (rsrc_dequeue r s)) x)).
        waiting_on (tasks (snd (rsrc_dequeue r s)) u) = x \<and>
        flags (tasks (snd (rsrc_dequeue r s)) u) \<in> {tWAITING, tDEAD})"
      unfolding d using c t o [of x] by (cases "x = r") auto
  qed
  with u t o show ?thesis by (simp add: unqueued_def d(2))
qed

section \<open>The processor\<close>

text \<open>\<open>sched_ok\<close>: the queues are well formed, the running task and the idle task are on none,
  nobody else is marked running, and the addresses of the three system queues
  are distinct, of queue type and no tasks.\<close>

definition sys_queues :: "kstate \<Rightarrow> nat list" where
  "sys_queues s = [run_queue s, timer_queue s, reaper_queue s]"

lemma sys_queues_mem [simp]: "run_queue s \<in> set (sys_queues s)" "timer_queue s \<in> set (sys_queues s)"
  "reaper_queue s \<in> set (sys_queues s)"
  by (simp_all add: sys_queues_def)

definition sched_inv :: "kstate \<Rightarrow> bool" where
  "sched_inv s \<longleftrightarrow> queues_ok s \<and> unqueued (idle_task s) s \<and> idle_task s \<noteq> 0 \<and> current s \<noteq> 0 \<and>
     distinct (sys_queues s) \<and>
     (\<forall>q \<in> set (sys_queues s). unqueued q s \<and> q \<noteq> current s \<and> q \<noteq> idle_task s \<and>
        rtype (rsrcs s q) = RSRC_QUEUE) \<and>
     (\<forall>n. irq_task_map s n \<notin> set (sys_queues s)) \<and>
     (\<forall>t. flags (tasks s t) = tRUNNING \<longrightarrow> t = current s \<or> t = idle_task s) \<and>
     flags (tasks s (idle_task s)) \<noteq> tSLEEP_IRQ"

definition sched_ok :: "kstate \<Rightarrow> bool" where
  "sched_ok s \<longleftrightarrow> sched_inv s \<and> unqueued (current s) s \<and> flags (tasks s (current s)) = tRUNNING"

text \<open>The state in which \<open>swtch\<close> is called: a current task that is not running any more may be on
  a queue.\<close>

definition pre_switch :: "kstate \<Rightarrow> bool" where
  "pre_switch s \<longleftrightarrow> sched_inv s \<and> (flags (tasks s (current s)) = tRUNNING \<longrightarrow> unqueued (current s) s)"

lemma sched_ok_pre [intro]: "sched_ok s \<Longrightarrow> pre_switch s"
  by (simp add: sched_ok_def pre_switch_def)

lemma run_task_fields [simp]:
  "current (run_task t s) = t" "idle_task (run_task t s) = idle_task s" "rsrcs (run_task t s) = rsrcs s"
  "run_queue (run_task t s) = run_queue s" "sems (run_task t s) = sems s" "ports (run_task t s) = ports s"
  "kont (run_task t s) = kont s" "same_ids s (run_task t s)" "timer_queue (run_task t s) = timer_queue s"
  "kernel_timer (run_task t s) = kernel_timer s" "live_tasks (run_task t s) = live_tasks s"
  "reaper_queue (run_task t s) = reaper_queue s" "irq_task_map (run_task t s) = irq_task_map s"
  by (simp_all add: run_task_def upd_defs Let_def same_ids_def)

lemma sys_queues_same [simp]: "sys_queues (run_task t s) = sys_queues s"
  "sys_queues (rsrc_enqueue r t s) = sys_queues s"
  "sys_queues (snd (rsrc_dequeue r s)) = sys_queues s"
  by (simp_all add: sys_queues_def)

lemma run_task_tasks: "tasks (run_task t s) =
    (tasks s)(t := (tasks s t)\<lparr>flags := tRUNNING, scount := u32 (scount (tasks s t) + 1)\<rparr>)"
  by (simp add: run_task_def upd_defs Let_def)

lemma run_task_queues: "queues_ok s \<Longrightarrow> unqueued t s \<Longrightarrow> queues_ok (run_task t s)"
  by (auto simp: queues_ok_def unqueued_def run_task_tasks)

lemma run_task_unqueued [simp]: "unqueued u (run_task t s) = unqueued u s"
  by (simp add: unqueued_def)

definition requeue :: "kstate \<Rightarrow> kstate" where
  "requeue s = (if flags (tasks s (current s)) = tRUNNING \<and> current s \<noteq> idle_task s
    then rsrc_enqueue (run_queue s) (current s) s else s)"

lemma requeue_fields [simp]:
  "current (requeue s) = current s" "idle_task (requeue s) = idle_task s"
  "run_queue (requeue s) = run_queue s" "live_tasks (requeue s) = live_tasks s"
  "sems (requeue s) = sems s" "ports (requeue s) = ports s" "kont (requeue s) = kont s"
  "timer_queue (requeue s) = timer_queue s" "kernel_timer (requeue s) = kernel_timer s"
  "reaper_queue (requeue s) = reaper_queue s" "sys_queues (requeue s) = sys_queues s"
  "irq_task_map (requeue s) = irq_task_map s" "rtype (rsrcs (requeue s) x) = rtype (rsrcs s x)" "same_ids s (requeue s)"
  by (simp_all add: requeue_def)

lemma requeue_inv:
  assumes "pre_switch s"
  shows "queues_ok (requeue s) \<and> unqueued (idle_task s) (requeue s) \<and>
    (\<forall>q \<in> set (sys_queues s). unqueued q (requeue s)) \<and>
    (\<forall>t. flags (tasks (requeue s) t) = tRUNNING \<longrightarrow> t = idle_task s) \<and>
    tasks (requeue s) (idle_task s) = tasks s (idle_task s)"
proof (cases "flags (tasks s (current s)) = tRUNNING \<and> current s \<noteq> idle_task s")
  case True
  then have "unqueued (current s) s" using assms by (simp add: pre_switch_def)
  with True assms show ?thesis
    by (auto simp: requeue_def pre_switch_def sched_inv_def enqueue_task intro: enqueue_ok enqueue_unqueued)
next
  case False
  then show ?thesis
    using assms by (auto simp: requeue_def pre_switch_def sched_inv_def)
qed

lemma swtch_alt:
  "swtch s =
    (if rqueue (rsrcs s (run_queue s)) = [] \<and> flags (tasks s (current s)) = tRUNNING then Some s
     else (let (t, s2) = rsrc_dequeue (run_queue s) (requeue s) in
       if t = 0 \<and> live_tasks s2 = 0 then None
       else if flags (tasks s2 (if t = 0 then idle_task s2 else t)) = tDEAD then None
       else Some (run_task (if t = 0 then idle_task s2 else t) s2)))"
  unfolding swtch_def requeue_def Let_def by (simp split: prod.split)

text \<open>What \<open>swtch\<close> does: nothing if the running task is alone; otherwise the running task goes
  to the end of the run queue and the first of the queue, or the idle task, runs.\<close>

lemma swtch_alone:
  "rqueue (rsrcs s (run_queue s)) = [] \<Longrightarrow> flags (tasks s (current s)) = tRUNNING \<Longrightarrow> swtch s = Some s"
  by (simp add: swtch_def)

lemma swtch_Cons:
  assumes "\<not> (rqueue (rsrcs s (run_queue s)) = [] \<and> flags (tasks s (current s)) = tRUNNING)"
    and c: "rqueue (rsrcs (requeue s) (run_queue s)) = t # ts" and nz: "t \<noteq> 0"
  shows "swtch s = Some (run_task t (snd (rsrc_dequeue (run_queue s) (requeue s))))"
proof -
  obtain s2 where d: "rsrc_dequeue (run_queue s) (requeue s) = (t, s2)"
    using dequeue_Cons'(1) [OF c nz] by (cases "rsrc_dequeue (run_queue s) (requeue s)") auto
  have "flags (tasks s2 t) = tREADY"
    using dequeue_Cons'(3) [OF c nz] d by simp
  with d nz assms(1) show ?thesis
    by (simp only: swtch_alt if_False Let_def prod.case simp_thms) simp
qed

lemma swtch_idle:
  assumes "\<not> (rqueue (rsrcs s (run_queue s)) = [] \<and> flags (tasks s (current s)) = tRUNNING)"
    and c: "rqueue (rsrcs (requeue s) (run_queue s)) = []" and r: "swtch s = Some s'"
  shows "s' = run_task (idle_task s) (requeue s) \<and> flags (tasks (requeue s) (idle_task s)) \<noteq> tDEAD"
proof -
  have "rsrc_dequeue (run_queue s) (requeue s) = (0, requeue s)"
    by (rule dequeue_Nil [OF c])
  with assms(1) r show ?thesis
    unfolding swtch_alt by (simp split: if_splits)
qed

lemma swtch_ok:
  assumes pre: "pre_switch s" and r: "swtch s = Some s'"
  shows "sched_ok s'"
proof (cases "rqueue (rsrcs s (run_queue s)) = [] \<and> flags (tasks s (current s)) = tRUNNING")
  case True
  then show ?thesis
    using r pre swtch_alone by (auto simp: pre_switch_def sched_ok_def)
next
  case False
  note req = requeue_inv [OF pre]
  have inv: "idle_task s \<noteq> 0" "\<forall>q \<in> set (sys_queues s). q \<noteq> idle_task s \<and> rtype (rsrcs s q) = RSRC_QUEUE"
    "\<forall>n. irq_task_map s n \<notin> set (sys_queues s)" "distinct (sys_queues s)" "flags (tasks s (idle_task s)) \<noteq> tSLEEP_IRQ"
    using pre by (auto simp: pre_switch_def sched_inv_def)
  show ?thesis
  proof (cases "rqueue (rsrcs (requeue s) (run_queue s))")
    case Nil
    from swtch_idle [OF False Nil r] req inv show ?thesis
      by (auto simp: sched_ok_def sched_inv_def run_task_tasks intro: run_task_queues)
  next
    case (Cons t ts)
    let ?s2 = "snd (rsrc_dequeue (run_queue s) (requeue s))"
    have q: "queues_ok (requeue s)" using req by simp
    have nz: "t \<noteq> 0" by (rule queues_ok_nz [OF q Cons])
    have s': "s' = run_task t ?s2" using swtch_Cons [OF False Cons nz] r by simp
    note d = dequeue_ok [OF q Cons]
    have "t \<in> set (rqueue (rsrcs (requeue s) (run_queue s)))" using Cons by simp
    then have ne: "t \<noteq> idle_task s" "\<forall>q \<in> set (sys_queues s). t \<noteq> q" using req by (auto simp: unqueued_def)
    have run: "u = idle_task s" if "flags (tasks ?s2 u) = tRUNNING" for u
      using that req dequeue_Cons'(3) [OF Cons nz] by (auto split: if_splits)
    have i: "tasks ?s2 (idle_task s) = tasks s (idle_task s)"
      using dequeue_Cons'(3) [OF Cons nz] ne req by simp
    show ?thesis
      unfolding sched_ok_def sched_inv_def s'
      using d req inv nz ne run i by (auto simp: run_task_tasks intro: run_task_queues)
  qed
qed

lemma preempt_ok:
  assumes ok: "sched_ok s" and t: "unqueued t s" "t \<noteq> 0" "t \<noteq> current s" "t \<notin> set (sys_queues s)"
    and r: "preempt t st s = Some s'"
  shows "sched_ok s'"
proof -
  let ?q = "if current s \<noteq> idle_task s then rsrc_enqueue (run_queue s) (current s) s else s"
  have req: "?q = requeue s" using ok by (auto simp: requeue_def sched_ok_def)
  note rq = requeue_inv [OF sched_ok_pre [OF ok]]
  have tu: "unqueued t (requeue s)"
    using t(1,3) by (simp add: requeue_def enqueue_unqueued)
  let ?s1 = "upd_task t (\<lambda>x. x\<lparr>status := st\<rparr>) ((requeue s)\<lparr>current := t\<rparr>)"
  have s': "s' = run_task t ?s1" using r req by (auto simp: preempt_def Let_def split: if_splits)
  have q1: "queues_ok ?s1" and u1: "\<And>u. unqueued u ?s1 = unqueued u (requeue s)"
    using rq by (auto simp: queues_ok_def unqueued_def upd_defs)
  have f1: "irq_task_map ?s1 = irq_task_map s" "\<And>x. rtype (rsrcs ?s1 x) = rtype (rsrcs s x)"
    "idle_task ?s1 = idle_task s" "sys_queues ?s1 = sys_queues s"
    "\<And>u. flags (tasks ?s1 u) = flags (tasks (requeue s) u)"
    by (simp_all add: upd_defs sys_queues_def)
  have inv: "idle_task s \<noteq> 0" "\<forall>q \<in> set (sys_queues s). q \<noteq> idle_task s \<and> rtype (rsrcs s q) = RSRC_QUEUE"
    "\<forall>n. irq_task_map s n \<notin> set (sys_queues s)" "distinct (sys_queues s)" "flags (tasks s (idle_task s)) \<noteq> tSLEEP_IRQ"
    using ok by (auto simp: sched_ok_def sched_inv_def)
  show ?thesis
    unfolding sched_ok_def sched_inv_def s'
    using q1 u1 f1 rq tu t inv by (auto simp: run_task_tasks intro!: run_task_queues)
qed

section \<open>States that agree on scheduling\<close>

definition same_sched :: "kstate \<Rightarrow> kstate \<Rightarrow> bool" where
  "same_sched s s' \<longleftrightarrow> (\<forall>r. rqueue (rsrcs s' r) = rqueue (rsrcs s r)) \<and>
     (\<forall>t. flags (tasks s' t) = flags (tasks s t) \<and> waiting_on (tasks s' t) = waiting_on (tasks s t)) \<and>
     (\<forall>r. rtype (rsrcs s' r) = rtype (rsrcs s r)) \<and> irq_task_map s' = irq_task_map s \<and>
     current s' = current s \<and> idle_task s' = idle_task s \<and> sys_queues s' = sys_queues s"

lemma same_sched_unqueued: "same_sched s s' \<Longrightarrow> unqueued t s' = unqueued t s"
  by (simp add: same_sched_def unqueued_def)

lemma same_sched_inv: "same_sched s s' \<Longrightarrow> sched_inv s' = sched_inv s"
  by (simp add: sched_inv_def same_sched_unqueued) (simp add: same_sched_def queues_ok_def)

lemma same_sched_ok: "same_sched s s' \<Longrightarrow> sched_ok s' = sched_ok s"
  by (simp add: sched_ok_def same_sched_inv same_sched_unqueued) (simp add: same_sched_def unqueued_def)

lemma same_sched_pre: "same_sched s s' \<Longrightarrow> pre_switch s' = pre_switch s"
  by (simp add: pre_switch_def same_sched_inv same_sched_unqueued) (simp add: same_sched_def unqueued_def)

lemma same_sched_upd [simp]:
  "same_sched s (upd_sem p f s)" "same_sched s (upd_port p g s)" "same_sched s (set_kont t k s)"
  "same_sched s (s\<lparr>kernel_timer := n\<rparr>)" "same_sched s (s\<lparr>live_tasks := v\<rparr>)"
  "same_sched s (upd_task u (\<lambda>x. x\<lparr>status := w\<rparr>) s)" "same_sched s (s\<lparr>km := m\<rparr>)"
  "same_sched s (s\<lparr>phys_mem := pm\<rparr>)" "same_sched s (s\<lparr>msg_pool := mp\<rparr>)"
  by (simp_all add: same_sched_def upd_defs set_kont_def sys_queues_def)

lemma same_sched_refl [simp]: "same_sched s s"
  by (simp add: same_sched_def)

lemma same_sched_trans: "same_sched s s' \<Longrightarrow> same_sched s' s'' \<Longrightarrow> same_sched s s''"
  by (simp add: same_sched_def)

section \<open>Waiting and waking\<close>

lemma enqueue_inv:
  assumes "sched_inv s" and "unqueued t s" and "t \<noteq> 0" and "t \<noteq> idle_task s" and "t \<notin> set (sys_queues s)"
  shows "sched_inv (rsrc_enqueue r t s)"
  using assms enqueue_ok [of s t r] enqueue_unqueued [of _ s t r]
  unfolding sched_inv_def by (auto simp: enqueue_task)

lemma enqueue_current:
  assumes "sched_ok s" and "current s \<noteq> idle_task s"
  shows "pre_switch (rsrc_enqueue r (current s) s)"
proof -
  have "sched_inv (rsrc_enqueue r (current s) s)"
    using assms by (intro enqueue_inv) (auto simp: sched_ok_def sched_inv_def)
  then show ?thesis by (simp add: pre_switch_def enqueue_task)
qed

lemma wait_on_ok:
  assumes "sched_ok s" and "current s \<noteq> idle_task s" and r: "wait_on k r s = Some (res, s')"
  shows "sched_ok s' \<and> res = Blocked"
proof -
  let ?s0 = "upd_task (current s) (\<lambda>t. t\<lparr>status := 0\<rparr>) s"
  have "sched_ok ?s0" using assms(1) same_sched_ok [of s ?s0] by simp
  then have "pre_switch (rsrc_enqueue r (current ?s0) ?s0)"
    using assms(2) by (intro enqueue_current) (simp_all add: upd_defs)
  then have p: "pre_switch (set_kont (current s) k (rsrc_enqueue r (current s) ?s0))"
    using same_sched_pre [OF same_sched_upd(3)] by (simp add: upd_defs)
  from r obtain s1 where "swtch (set_kont (current s) k (rsrc_enqueue r (current s) ?s0)) = Some s1"
    "res = Blocked" "s' = s1"
    by (auto simp: wait_on_def Let_def split: bind_splits)
  with swtch_ok [OF p] show ?thesis by simp
qed

lemma dequeue_inv:
  assumes "sched_inv s" and c: "rqueue (rsrcs s r) = t # ts"
  shows "sched_inv (snd (rsrc_dequeue r s)) \<and> unqueued t (snd (rsrc_dequeue r s)) \<and> t \<noteq> 0 \<and>
    t \<noteq> idle_task s \<and> t \<notin> set (sys_queues s) \<and> waiting_on (tasks s t) = r"
proof -
  have q: "queues_ok s" using assms(1) by (simp add: sched_inv_def)
  have nz: "t \<noteq> 0" by (rule queues_ok_nz [OF q c])
  have m: "t \<in> set (rqueue (rsrcs s r))" by (simp add: c)
  then have ne: "t \<noteq> idle_task s" "t \<notin> set (sys_queues s)"
    using assms(1) by (auto simp: sched_inv_def unqueued_def)
  have "sched_inv (snd (rsrc_dequeue r s))"
    using assms(1) dequeue_ok [OF q c] ne dequeue_Cons'(3) [OF c nz] unfolding sched_inv_def by auto
  moreover have "waiting_on (tasks s t) = r" using q m by (auto simp: queues_ok_def)
  ultimately show ?thesis using dequeue_ok [OF q c] ne nz by blast
qed

lemma dequeue_sched_ok:
  assumes "sched_ok s" and c: "rqueue (rsrcs s r) = t # ts"
  shows "sched_ok (snd (rsrc_dequeue r s)) \<and> unqueued t (snd (rsrc_dequeue r s)) \<and> t \<noteq> 0 \<and>
    t \<noteq> current s \<and> t \<noteq> idle_task s \<and> t \<notin> set (sys_queues s)"
proof -
  have i: "sched_inv s" and u: "unqueued (current s) s" using assms(1) by (auto simp: sched_ok_def)
  note d = dequeue_inv [OF i c]
  have "t \<in> set (rqueue (rsrcs s r))" by (simp add: c)
  then have ne: "t \<noteq> current s" using u by (auto simp: unqueued_def)
  have "queues_ok s" using i by (simp add: sched_inv_def)
  then have "sched_ok (snd (rsrc_dequeue r s))"
    using d ne u assms(1) dequeue_ok [OF _ c] dequeue_Cons'(3) [OF c] by (auto simp: sched_ok_def)
  with d ne show ?thesis by blast
qed

lemma enqueue_sched_ok:
  assumes "sched_ok s" and "unqueued t s" and "t \<noteq> 0" and "t \<noteq> current s" and "t \<noteq> idle_task s"
    and "t \<notin> set (sys_queues s)"
  shows "sched_ok (rsrc_enqueue r t s)"
  using assms enqueue_inv [of s t r] enqueue_unqueued [of "current s" s t r]
  by (auto simp: sched_ok_def enqueue_task)

lemma task_wake_sched_ok:
  assumes "sched_ok s" and "unqueued t s" and "t \<noteq> 0" and "t \<noteq> current s" and "t \<noteq> idle_task s"
    and "t \<notin> set (sys_queues s)"
  shows "sched_ok (task_wake t st s)"
proof -
  let ?s = "upd_task t (\<lambda>x. x\<lparr>status := st\<rparr>) s"
  have same: "same_sched s ?s" by simp
  then have "sched_ok ?s" and "unqueued t ?s"
    using assms same_sched_ok same_sched_unqueued by blast+
  then show ?thesis
    unfolding task_wake_def using assms
    by (intro enqueue_sched_ok) (auto simp: upd_defs sys_queues_def)
qed

text \<open>Taking the first task off a queue and making it ready, as \<open>port_send\<close>, \<open>port_recv\<close> and
  \<open>terminate\<close> do.\<close>

lemma dequeue_wake_ok:
  assumes "sched_ok s" and d: "rsrc_dequeue r s = (t, s1)"
  shows "sched_ok (if t \<noteq> 0 then task_wake t st s1 else s1)"
proof (cases "rqueue (rsrcs s r)")
  case Nil
  then show ?thesis using assms dequeue_Nil [OF Nil] by simp
next
  case (Cons u us)
  from dequeue_sched_ok [OF assms(1) Cons]
  have u: "sched_ok s1" "unqueued u s1" "u \<noteq> 0" "u \<noteq> current s" "u \<noteq> idle_task s" "u \<notin> set (sys_queues s)"
    using d by auto
  moreover have "t = u" using dequeue_Cons'(1) [OF Cons u(3)] d by simp
  moreover have "current s1 = current s" "idle_task s1 = idle_task s" "sys_queues s1 = sys_queues s"
    using d [symmetric] by (simp_all add: prod_eq_iff)
  ultimately show ?thesis by (simp add: task_wake_sched_ok)
qed

section \<open>Interrupts\<close>

definition expired :: "kstate \<Rightarrow> nat \<Rightarrow> bool" where
  "expired s t \<longleftrightarrow> wait_time (tasks s t) \<le> u32_of_int (kernel_timer s)"

text \<open>The timer moves the expired tasks at the head of the timer queue, up to the first that has
  not expired, to the run queue.\<close>

lemma timer_wake_ok:
  assumes "sched_ok s"
  shows "\<exists>s'. timer_wake 0 s = Some s' \<and> sched_ok s' \<and>
    rqueue (rsrcs s' (timer_queue s)) = dropWhile (expired s) (rqueue (rsrcs s (timer_queue s))) \<and>
    rqueue (rsrcs s' (run_queue s)) =
      rqueue (rsrcs s (run_queue s)) @ takeWhile (expired s) (rqueue (rsrcs s (timer_queue s))) \<and>
    current s' = current s \<and> idle_task s' = idle_task s \<and> sys_queues s' = sys_queues s \<and>
    kernel_timer s' = kernel_timer s \<and> live_tasks s' = live_tasks s \<and> sems s' = sems s \<and>
    ports s' = ports s \<and> kont s' = kont s \<and> same_ids s s' \<and>
    (\<forall>r. r \<notin> set (sys_queues s) \<longrightarrow> rqueue (rsrcs s' r) = rqueue (rsrcs s r))"
  using assms
proof (induction "rqueue (rsrcs s (timer_queue s))" arbitrary: s)
  case Nil
  then have "timer_wake 0 s = Some s"
    by (subst timer_wake.simps) (simp add: rsrc_queue_peek_def flip: Nil(1))
  with Nil show ?case by (simp flip: Nil(1))
next
  case (Cons t ts)
  have q: "rqueue (rsrcs s (timer_queue s)) = t # ts" using Cons by simp
  note d = dequeue_sched_ok [OF Cons.prems q]
  then have nz: "t \<noteq> 0" by simp
  let ?s1 = "snd (rsrc_dequeue (timer_queue s) s)"
  let ?s2 = "rsrc_enqueue (run_queue s) t ?s1"
  have tr: "timer_queue s \<noteq> run_queue s"
    using Cons.prems by (auto simp: sched_ok_def sched_inv_def sys_queues_def)
  show ?case
  proof (cases "expired s t")
    case False
    then have "timer_wake 0 s = Some s"
      using q nz by (subst timer_wake.simps) (simp add: rsrc_queue_peek_def expired_def)
    with False q Cons.prems show ?thesis by simp
  next
    case True
    have step: "timer_wake 0 s = timer_wake 0 ?s2"
      using True q nz
      by (subst timer_wake.simps)
        (simp add: rsrc_queue_peek_def expired_def split_beta dequeue_Cons'(1) [OF q nz])
    have ok2: "sched_ok ?s2" using d by (intro enqueue_sched_ok) simp_all
    have q2: "ts = rqueue (rsrcs ?s2 (timer_queue ?s2))"
      using tr by (simp add: enqueue_queue dequeue_Cons'(2) [OF q nz])
    have tn: "t \<notin> set ts"
      using Cons.prems q unfolding sched_ok_def sched_inv_def queues_ok_def by (metis distinct.simps(2))
    have ex: "expired ?s2 u = expired s u" if "u \<in> set ts" for u
      using that tn by (auto simp: expired_def enqueue_task dequeue_Cons'(3) [OF q nz])
    have "takeWhile (expired ?s2) ts = takeWhile (expired s) ts"
      "dropWhile (expired ?s2) ts = dropWhile (expired s) ts"
      using ex by (auto intro: takeWhile_cong dropWhile_cong)
    moreover have "same_ids s ?s2"
      by (rule same_ids_trans [OF dequeue_fields(13) enqueue_fields(13)])
    ultimately show ?thesis
      using Cons.hyps(1) [OF q2 ok2] q2 [symmetric] True q tr step same_ids_trans
      by (auto simp: enqueue_queue dequeue_Cons'(2) [OF q nz] sys_queues_def)
  qed
qed

lemma timer_irq_ok:
  assumes "sched_ok s" and "timer_irq 0 s = Some s'"
  shows "sched_ok s'"
proof -
  let ?s = "s\<lparr>kernel_timer := s32 (kernel_timer s + 1)\<rparr>"
  have "sched_ok ?s" using assms(1) same_sched_ok [OF same_sched_upd(4)] by simp
  from timer_wake_ok [OF this] obtain s1 where s1: "timer_wake 0 ?s = Some s1" "sched_ok s1" by auto
  then have "swtch (set_kont (current s1) K_user s1) = Some s'"
    using assms(2) by (simp add: timer_irq_def)
  then show ?thesis
    using s1(2) same_sched_ok [OF same_sched_upd(3)] by (blast intro: swtch_ok)
qed

lemma irq_dispatch_ok:
  assumes ok: "sched_ok s" and r: "irq_dispatch n s = Some s'"
  shows "sched_ok s'"
proof (cases "irq_task_map s n \<noteq> 0 \<and> flags (tasks s (irq_task_map s n)) = tSLEEP_IRQ")
  case True
  let ?t = "irq_task_map s n" and ?s = "set_kont (current s) K_user s"
  have "unqueued ?t s"
    using ok True by (fastforce simp: unqueued_def sched_ok_def sched_inv_def queues_ok_def)
  then have "unqueued ?t ?s" and "sched_ok ?s"
    using ok same_sched_unqueued [OF same_sched_upd(3)] same_sched_ok [OF same_sched_upd(3)] by blast+
  moreover have "?t \<noteq> current ?s" "?t \<notin> set (sys_queues ?s)"
    using ok True by (auto simp: set_kont_def sched_ok_def sched_inv_def sys_queues_def)
  ultimately show ?thesis
    using True r preempt_ok by (simp add: irq_dispatch_def Let_def)
next
  case False
  then show ?thesis using ok r by (auto simp: irq_dispatch_def Let_def)
qed

section \<open>Sleeping and terminating\<close>

lemma enqueue_ordered_eq:
  "rsrc_enqueue_ordered r t w s = upd_task t (\<lambda>x. x\<lparr>wait_time := w\<rparr>) (rsrc_enqueue r t s)"
proof -
  have c: "x\<lparr>wait_time := w, flags := tWAITING, waiting_on := r\<rparr> =
    x\<lparr>flags := tWAITING, waiting_on := r, wait_time := w\<rparr>" for x :: task_t by simp
  show ?thesis
    by (simp add: rsrc_enqueue_ordered_def rsrc_enqueue_def upd_defs Let_def c)
qed

lemma same_sched_wait_time [simp]: "same_sched s (upd_task t (\<lambda>x. x\<lparr>wait_time := w\<rparr>) s)"
  by (simp add: same_sched_def upd_defs sys_queues_def)

lemma sleep_ok:
  assumes "sched_ok s" and "current s \<noteq> idle_task s" and r: "sleep n s = Some (res, s')"
  shows "sched_ok s' \<and> res = Blocked"
proof -
  let ?s1 = "if sleep_ticks n \<noteq> 0
    then rsrc_enqueue_ordered (timer_queue s) (current s) (u32_of_int (kernel_timer s + sleep_ticks n)) s
    else s"
  have "pre_switch ?s1"
    using enqueue_current [OF assms(1,2), of "timer_queue s"] assms(1)
    by (auto simp: enqueue_ordered_eq same_sched_pre [OF same_sched_wait_time])
  then have "pre_switch (set_kont (current s) K_user ?s1)"
    using same_sched_pre [OF same_sched_upd(3)] by blast
  moreover have "swtch (set_kont (current s) K_user ?s1) = Some s'" "res = Blocked"
    using r by (auto simp: sleep_def Let_def split: bind_splits)
  ultimately show ?thesis by (blast intro: swtch_ok)
qed

lemma wake_list_inv:
  assumes i: "sched_inv s" and r: "r \<noteq> run_queue s" "r \<notin> set (sys_queues s)"
  shows "sched_inv (wake_list r (rqueue (rsrcs s r)) s)"
proof -
  let ?ts = "rqueue (rsrcs s r)" and ?s = "wake_list r (rqueue (rsrcs s r)) s"
  have q: "rqueue (rsrcs ?s x) = (if x = r then [] else if x = run_queue s
      then rqueue (rsrcs s x) @ ?ts else rqueue (rsrcs s x))" for x
    by (simp add: wake_list_def)
  have t: "tasks ?s = (\<lambda>t. if t \<in> set ?ts then woken (run_queue s) ERR_RESOURCE (tasks s t) else tasks s t)"
    by (simp add: wake_list_def)
  have f: "current ?s = current s" "idle_task ?s = idle_task s" "sys_queues ?s = sys_queues s"
    "run_queue ?s = run_queue s" "irq_task_map ?s = irq_task_map s"
    "\<And>x. rtype (rsrcs ?s x) = rtype (rsrcs s x)"
    by (simp_all add: wake_list_def sys_queues_def)
  have qo: "queues_ok s" using i by (simp add: sched_inv_def)
  have dis: "set ?ts \<inter> set (rqueue (rsrcs s (run_queue s))) = {}"
    using queues_ok_one [OF qo] r(1) by blast
  have un: "unqueued u ?s" if "unqueued u s" for u
    using that by (simp add: unqueued_def q)
  have "queues_ok ?s"
    unfolding queues_ok_def
  proof
    fix x
    have at: "distinct (rqueue (rsrcs s y)) \<and> 0 \<notin> set (rqueue (rsrcs s y)) \<and>
      (\<forall>t \<in> set (rqueue (rsrcs s y)). waiting_on (tasks s t) = y \<and> flags (tasks s t) \<in> {tWAITING, tDEAD})" for y
      using qo unfolding queues_ok_def by blast
    have o: "u \<notin> set ?ts" if "u \<in> set (rqueue (rsrcs s x))" "x \<noteq> r" for u
      using queues_ok_one [OF qo, of u x r] that by blast
    show "distinct (rqueue (rsrcs ?s x)) \<and> 0 \<notin> set (rqueue (rsrcs ?s x)) \<and>
      (\<forall>t \<in> set (rqueue (rsrcs ?s x)). waiting_on (tasks ?s t) = x \<and> flags (tasks ?s t) \<in> {tWAITING, tDEAD})"
      using at [of x] at [of r] dis o by (auto simp: q t woken_def)
  qed
  moreover have "idle_task s \<notin> set ?ts" using i by (auto simp: sched_inv_def unqueued_def)
  ultimately show ?thesis
    using i un unfolding sched_inv_def f by (auto simp: t woken_def)
qed

lemma task_wake_inv:
  assumes "sched_inv s" and "unqueued t s" and "t \<noteq> 0" and "t \<noteq> idle_task s" and "t \<notin> set (sys_queues s)"
  shows "sched_inv (task_wake t st s)"
proof -
  let ?s = "upd_task t (\<lambda>x. x\<lparr>status := st\<rparr>) s"
  have "same_sched s ?s" by simp
  then have "sched_inv ?s" and "unqueued t ?s"
    using assms same_sched_inv same_sched_unqueued by blast+
  then show ?thesis
    unfolding task_wake_def using assms by (intro enqueue_inv) (auto simp: upd_defs sys_queues_def)
qed

definition dequeue_wake :: "nat \<Rightarrow> int \<Rightarrow> kstate \<Rightarrow> kstate" where
  "dequeue_wake r st s = (let (t, s1) = rsrc_dequeue r s in if t \<noteq> 0 then task_wake t st s1 else s1)"

lemma dequeue_wake_inv:
  assumes "sched_inv s"
  shows "sched_inv (dequeue_wake r st s) \<and>
    (\<forall>u. waiting_on (tasks s u) \<noteq> r \<longrightarrow> tasks (dequeue_wake r st s) u = tasks s u) \<and>
    current (dequeue_wake r st s) = current s \<and> sys_queues (dequeue_wake r st s) = sys_queues s"
proof (cases "rqueue (rsrcs s r)")
  case Nil
  then show ?thesis using assms dequeue_Nil [OF Nil] by (simp add: dequeue_wake_def)
next
  case (Cons t ts)
  let ?s1 = "snd (rsrc_dequeue r s)"
  note d = dequeue_inv [OF assms Cons]
  have nz: "t \<noteq> 0" using d by simp
  have eq: "dequeue_wake r st s = task_wake t st ?s1"
    using dequeue_Cons'(1) [OF Cons nz] nz by (simp add: dequeue_wake_def split_beta)
  have "sched_inv (task_wake t st ?s1)" using d by (intro task_wake_inv) simp_all
  then show ?thesis
    using d dequeue_Cons'(3) [OF Cons nz] unfolding eq
    by (auto simp: task_wake_eq sys_queues_def)
qed

text \<open>A task that is leaving: dead, and on the reaper's queue.\<close>

definition leaving :: "kstate \<Rightarrow> bool" where
  "leaving s \<longleftrightarrow> sched_inv s \<and> flags (tasks s (current s)) = tDEAD \<and>
     waiting_on (tasks s (current s)) = reaper_queue s"

lemma sched_inv_dead:
  assumes "sched_inv s" and "t \<noteq> idle_task s"
  shows "sched_inv (upd_task t (\<lambda>x. x\<lparr>flags := tDEAD\<rparr>) s)"
proof -
  have "queues_ok (upd_task t (\<lambda>x. x\<lparr>flags := tDEAD\<rparr>) s)"
    using assms(1) by (auto simp: sched_inv_def queues_ok_def upd_defs)
  then show ?thesis
    using assms by (auto simp: sched_inv_def upd_defs unqueued_def sys_queues_def)
qed

lemma wake_all_leaving:
  assumes "leaving s"
  shows "\<exists>s'. wake_all (current s) s = Some s' \<and> leaving s'"
proof -
  let ?c = "current s" and ?s = "wake_list (current s) (rqueue (rsrcs s (current s))) s"
  have i: "sched_inv s" using assms by (simp add: leaving_def)
  then have c: "?c \<noteq> run_queue s" "?c \<notin> set (sys_queues s)" "reaper_queue s \<noteq> ?c"
    by (auto simp: sched_inv_def sys_queues_def)
  have z: "0 \<notin> set (rqueue (rsrcs s ?c))" using i by (simp add: sched_inv_def queues_ok_def)
  have "?c \<notin> set (rqueue (rsrcs s ?c))"
    using i assms c(3) by (auto simp: leaving_def sched_inv_def queues_ok_def)
  then have "tasks ?s ?c = tasks s ?c" "current ?s = ?c" "reaper_queue ?s = reaper_queue s"
    by (simp_all add: wake_list_def)
  then have "leaving ?s"
    using wake_list_inv [OF i c(1,2)] assms by (simp add: leaving_def)
  then show ?thesis using wake_all_eq [OF c(1) z] by blast
qed

lemma wake_the_reaper_eq:
  "wake_the_reaper s = (let sem = rsrc_find RSRC_SEM (reaper_sem s) s in
     if sem = 0 then None
     else Some (dequeue_wake sem ERR_NONE (upd_sem sem (\<lambda>x. x\<lparr>sem_count := s32 (sem_count x + 1)\<rparr>) s)))"
  by (simp add: wake_the_reaper_def dequeue_wake_def Let_def split_beta)

lemma find_not_sys:
  assumes "sched_inv s" and "ty \<noteq> RSRC_QUEUE" and "rsrc_find ty j s \<noteq> 0"
  shows "rsrc_find ty j s \<notin> set (sys_queues s)"
  using assms by (auto simp: rsrc_find_def sched_inv_def split: if_splits)

lemma wake_the_reaper_leaving:
  assumes "leaving s" and "wake_the_reaper s = Some s'"
  shows "leaving s'"
proof -
  let ?p = "rsrc_find RSRC_SEM (reaper_sem s) s"
  let ?s = "upd_sem ?p (\<lambda>x. x\<lparr>sem_count := s32 (sem_count x + 1)\<rparr>) s"
  have i: "sched_inv s" using assms by (simp add: leaving_def)
  have p: "?p \<noteq> 0" "s' = dequeue_wake ?p ERR_NONE ?s"
    using assms(2) by (auto simp: wake_the_reaper_eq Let_def split: if_splits)
  have "?p \<notin> set (sys_queues s)" using p(1) by (intro find_not_sys [OF i]) simp_all
  then have ne: "?p \<noteq> reaper_queue s" by (metis sys_queues_mem(3))
  have i2: "sched_inv ?s" using i same_sched_inv [OF same_sched_upd(1)] by blast
  have f: "tasks ?s = tasks s" "current ?s = current s" "sys_queues ?s = sys_queues s"
    by (simp_all add: upd_defs sys_queues_def)
  from dequeue_wake_inv [OF i2, of ?p ERR_NONE] assms(1) ne f show ?thesis
    unfolding p(2) by (auto simp: leaving_def sys_queues_def)
qed

lemma terminate_ok:
  assumes "sched_ok s" and "current s \<noteq> idle_task s" and r: "terminate s = Some s'"
  shows "sched_ok s'"
proof -
  let ?c = "current s"
  let ?s0 = "s\<lparr>live_tasks := s32 (live_tasks s - 1)\<rparr>"
  let ?s1 = "rsrc_enqueue (reaper_queue s) ?c ?s0"
  let ?s2 = "upd_task ?c (\<lambda>x. x\<lparr>flags := tDEAD\<rparr>) ?s1"
  have "sched_ok ?s0" using assms(1) same_sched_ok [OF same_sched_upd(5)] by blast
  then have "sched_inv ?s1"
    using enqueue_current [of ?s0 "reaper_queue s"] assms(2) by (simp add: pre_switch_def)
  then have "sched_inv ?s2" using assms(2) by (intro sched_inv_dead) simp_all
  then have "leaving ?s2" by (simp add: leaving_def upd_defs enqueue_task)
  from wake_all_leaving [OF this] obtain s3 where
    s3: "wake_all ?c ?s2 = Some s3" "leaving s3" by (auto simp: upd_defs)
  from r s3(1) obtain s4 where s4: "wake_the_reaper s3 = Some s4" "swtch (set_kont ?c K_terminated s4) = Some s'"
    by (auto simp: terminate_def Let_def split: bind_splits)
  have "leaving s4" by (rule wake_the_reaper_leaving [OF s3(2) s4(1)])
  then have "pre_switch s4" by (simp add: leaving_def pre_switch_def)
  then have "pre_switch (set_kont ?c K_terminated s4)"
    using same_sched_pre [OF same_sched_upd(3)] by blast
  then show ?thesis using s4(2) by (rule swtch_ok)
qed

section \<open>What switching leaves alone\<close>

lemma swtch_frame:
  assumes "pre_switch s" and r: "swtch s = Some s'"
  shows "sems s' = sems s \<and> ports s' = ports s \<and> kont s' = kont s \<and> sys_queues s' = sys_queues s \<and>
    idle_task s' = idle_task s \<and> same_ids s s' \<and> live_tasks s' = live_tasks s \<and>
    kernel_timer s' = kernel_timer s \<and>
    (\<forall>x. x \<noteq> run_queue s \<longrightarrow> rqueue (rsrcs s' x) = rqueue (rsrcs s x))"
proof (cases "rqueue (rsrcs s (run_queue s)) = [] \<and> flags (tasks s (current s)) = tRUNNING")
  case True
  then show ?thesis using r swtch_alone [of s] by simp
next
  case False
  have rq: "rqueue (rsrcs (requeue s) x) = rqueue (rsrcs s x)" if "x \<noteq> run_queue s" for x
    using that by (simp add: requeue_def enqueue_queue)
  show ?thesis
  proof (cases "rqueue (rsrcs (requeue s) (run_queue s))")
    case Nil
    from swtch_idle [OF False Nil r] rq show ?thesis
      by (auto intro: same_ids_trans [OF requeue_fields(14) run_task_fields(8)])
  next
    case (Cons t ts)
    have "queues_ok (requeue s)" using requeue_inv [OF assms(1)] by simp
    then have nz: "t \<noteq> 0" by (rule queues_ok_nz [OF _ Cons])
    have s': "s' = run_task t (snd (rsrc_dequeue (run_queue s) (requeue s)))"
      using swtch_Cons [OF False Cons nz] r by simp
    have "same_ids s (run_task t (snd (rsrc_dequeue (run_queue s) (requeue s))))"
      by (rule same_ids_trans [OF same_ids_trans [OF requeue_fields(14) dequeue_fields(13)] run_task_fields(8)])
    then show ?thesis
      using rq dequeue_Cons'(2) [OF Cons nz] by (simp add: s')
  qed
qed

text \<open>\<open>swtch\<close> finds a task to run as long as some task is alive.\<close>

lemma swtch_total:
  assumes "pre_switch s" and "live_tasks s \<noteq> 0" and "flags (tasks s (idle_task s)) \<noteq> tDEAD"
  shows "\<exists>s'. swtch s = Some s'"
proof (cases "rqueue (rsrcs s (run_queue s)) = [] \<and> flags (tasks s (current s)) = tRUNNING")
  case True
  then show ?thesis using swtch_alone [of s] by simp
next
  case False
  note req = requeue_inv [OF assms(1)]
  show ?thesis
  proof (cases "rqueue (rsrcs (requeue s) (run_queue s))")
    case Nil
    have "rsrc_dequeue (run_queue s) (requeue s) = (0, requeue s)" by (rule dequeue_Nil [OF Nil])
    with False assms(2,3) req show ?thesis
      unfolding swtch_alt by simp
  next
    case (Cons t ts)
    have "t \<noteq> 0" using req queues_ok_nz [OF _ Cons] by blast
    then show ?thesis using swtch_Cons [OF False Cons] by blast
  qed
qed

section \<open>Round robin\<close>

primrec ticks :: "nat \<Rightarrow> kstate \<Rightarrow> kstate option" where
  "ticks 0 s = Some s"
| "ticks (Suc n) s = do { s1 \<leftarrow> timer_irq 0 s; ticks n s1 }"

lemma timer_irq_rotate:
  assumes ok: "sched_ok s" and tq: "rqueue (rsrcs s (timer_queue s)) = []"
    and q: "rqueue (rsrcs s (run_queue s)) = t # ts" and ni: "current s \<noteq> idle_task s"
  shows "\<exists>s'. timer_irq 0 s = Some s' \<and> current s' = t \<and> sched_ok s' \<and> t \<noteq> idle_task s \<and>
    rqueue (rsrcs s' (run_queue s)) = ts @ [current s] \<and> rqueue (rsrcs s' (timer_queue s)) = [] \<and>
    sys_queues s' = sys_queues s \<and> idle_task s' = idle_task s"
proof -
  let ?s1 = "s\<lparr>kernel_timer := s32 (kernel_timer s + 1)\<rparr>"
  let ?s2 = "set_kont (current s) K_user ?s1"
  have same: "same_sched s ?s2"
    by (simp add: same_sched_def set_kont_def sys_queues_def)
  have ok2: "sched_ok ?s2" using ok same_sched_ok [OF same] by simp
  have f2: "run_queue ?s2 = run_queue s" "timer_queue ?s2 = timer_queue s" "current ?s2 = current s"
    "idle_task ?s2 = idle_task s" "rsrcs ?s2 = rsrcs s" "sys_queues ?s2 = sys_queues s"
    by (simp_all add: set_kont_def sys_queues_def)
  have "timer_wake 0 ?s1 = Some ?s1"
    using tq by (subst timer_wake.simps) (simp add: rsrc_queue_peek_def)
  then have irq: "timer_irq 0 s = swtch ?s2" by (simp add: timer_irq_def)
  have run: "flags (tasks ?s2 (current ?s2)) = tRUNNING" using ok2 by (simp add: sched_ok_def)
  have rq: "rqueue (rsrcs (requeue ?s2) (run_queue ?s2)) = t # (ts @ [current s])"
    using run ni q by (simp add: requeue_def enqueue_queue f2)
  have nz: "t \<noteq> 0" using requeue_inv [OF sched_ok_pre [OF ok2]] queues_ok_nz [OF _ rq] by blast
  obtain s3 where sw: "swtch ?s2 = Some s3"
    and s3: "s3 = run_task t (snd (rsrc_dequeue (run_queue ?s2) (requeue ?s2)))"
    using swtch_Cons [OF _ rq nz] q by (simp add: f2)
  have fr: "\<forall>x. x \<noteq> run_queue ?s2 \<longrightarrow> rqueue (rsrcs s3 x) = rqueue (rsrcs ?s2 x)"
    "sys_queues s3 = sys_queues ?s2" "idle_task s3 = idle_task ?s2"
    using swtch_frame [OF sched_ok_pre [OF ok2] sw] by blast+
  have "timer_queue s \<noteq> run_queue s" using ok by (auto simp: sched_ok_def sched_inv_def sys_queues_def)
  then have tq': "rqueue (rsrcs s3 (timer_queue s)) = []" using fr(1) tq unfolding f2 by metis
  have rq': "rqueue (rsrcs s3 (run_queue s)) = ts @ [current s]"
    using dequeue_Cons'(2) [OF rq nz, of "run_queue ?s2"] by (simp add: s3 f2)
  have "t \<in> set (rqueue (rsrcs s (run_queue s)))" using q by simp
  then have "t \<noteq> idle_task s" using ok by (auto simp: sched_ok_def sched_inv_def unqueued_def)
  then show ?thesis
    using irq sw swtch_ok [OF sched_ok_pre [OF ok2] sw] fr(2,3) tq' rq'
    by (intro exI [of _ s3]) (simp add: f2 s3)
qed

lemma ticks_rotate:
  assumes "sched_ok s" and "rqueue (rsrcs s (timer_queue s)) = []"
    and "rqueue (rsrcs s (run_queue s)) = xs @ ys" and "current s \<noteq> idle_task s"
  shows "\<exists>s'. ticks (length xs) s = Some s' \<and> current s' = last (current s # xs) \<and> sched_ok s' \<and>
    rqueue (rsrcs s' (run_queue s')) = ys @ butlast (current s # xs)"
  using assms
proof (induction xs arbitrary: s ys)
  case Nil
  then show ?case by simp
next
  case (Cons t xs)
  from timer_irq_rotate [OF Cons.prems(1,2) _ Cons.prems(4)] Cons.prems(3) obtain s1 where
    s1: "timer_irq 0 s = Some s1" "current s1 = t" "sched_ok s1" "t \<noteq> idle_task s"
    "rqueue (rsrcs s1 (run_queue s)) = xs @ (ys @ [current s])"
    "rqueue (rsrcs s1 (timer_queue s)) = []" "sys_queues s1 = sys_queues s" "idle_task s1 = idle_task s"
    by auto
  have "run_queue s1 = run_queue s" "timer_queue s1 = timer_queue s"
    using s1(7) by (simp_all add: sys_queues_def)
  with Cons.IH [OF s1(3), of "ys @ [current s]"] s1 show ?case by auto
qed

section \<open>The effect of waiting and of preempting\<close>

lemma same_ids_upd [simp]: "same_ids s (upd_sem p f s)" "same_ids s (set_kont t k s)"
  "same_ids s (upd_task u g s)"
  by (simp_all add: same_ids_def upd_defs set_kont_def)

text \<open>\<open>wait_on\<close> puts the caller at the end of the queue, remembers where it stopped, and runs
  another task.\<close>

lemma wait_on_effect:
  assumes ok: "sched_ok s" and ni: "current s \<noteq> idle_task s" and r: "r \<noteq> run_queue s"
    and w: "wait_on k r s = Some (res, s')"
  shows "res = Blocked \<and> sched_ok s' \<and> rqueue (rsrcs s' r) = rqueue (rsrcs s r) @ [current s] \<and>
    kont s' = (kont s)(current s := Some k) \<and> sems s' = sems s \<and> ports s' = ports s \<and>
    same_ids s s' \<and> sys_queues s' = sys_queues s \<and> idle_task s' = idle_task s \<and>
    live_tasks s' = live_tasks s \<and>
    (\<forall>x. x \<noteq> r \<longrightarrow> x \<noteq> run_queue s \<longrightarrow> rqueue (rsrcs s' x) = rqueue (rsrcs s x))"
proof -
  let ?s0 = "upd_task (current s) (\<lambda>t. t\<lparr>status := 0\<rparr>) s"
  let ?s1 = "rsrc_enqueue r (current s) ?s0"
  let ?s2 = "set_kont (current s) k ?s1"
  have "sched_ok ?s0" using ok same_sched_ok [of s ?s0] by simp
  then have "pre_switch (rsrc_enqueue r (current ?s0) ?s0)"
    using ni by (intro enqueue_current) (simp_all add: upd_defs)
  then have p: "pre_switch ?s2"
    using same_sched_pre [OF same_sched_upd(3)] by (simp add: upd_defs)
  have sw: "swtch ?s2 = Some s'" "res = Blocked"
    using w by (auto simp: wait_on_def Let_def split: bind_splits)
  have f: "run_queue ?s2 = run_queue s" "sems ?s2 = sems s" "ports ?s2 = ports s"
    "kont ?s2 = (kont s)(current s := Some k)" "sys_queues ?s2 = sys_queues s"
    "idle_task ?s2 = idle_task s" "live_tasks ?s2 = live_tasks s"
    "\<And>x. rqueue (rsrcs ?s2 x) = (if x = r then rqueue (rsrcs s r) @ [current s] else rqueue (rsrcs s x))"
    by (simp_all add: set_kont_def enqueue_queue upd_defs sys_queues_def)
  have "same_ids s ?s2"
    by (rule same_ids_trans [OF same_ids_trans [OF same_ids_upd(3) enqueue_fields(13)] same_ids_upd(2)])
  then show ?thesis
    using swtch_frame [OF p sw(1)] swtch_ok [OF p sw(1)] sw(2) r
    unfolding f by (auto intro: same_ids_trans)
qed

lemma wait_on_total:
  assumes ok: "sched_ok s" and ni: "current s \<noteq> idle_task s" and "live_tasks s \<noteq> 0"
    and "flags (tasks s (idle_task s)) \<noteq> tDEAD"
  shows "\<exists>res s'. wait_on k r s = Some (res, s')"
proof -
  let ?s0 = "upd_task (current s) (\<lambda>t. t\<lparr>status := 0\<rparr>) s"
  have "sched_ok ?s0" using ok same_sched_ok [of s ?s0] by simp
  then have "pre_switch (rsrc_enqueue r (current ?s0) ?s0)"
    using ni by (intro enqueue_current) (simp_all add: upd_defs)
  then have "pre_switch (set_kont (current s) k (rsrc_enqueue r (current s) ?s0))"
    using same_sched_pre [OF same_sched_upd(3)] by (simp add: upd_defs)
  from swtch_total [OF this] assms show ?thesis
    by (auto simp: wait_on_def Let_def set_kont_def enqueue_task upd_defs)
qed

lemma preempt_effect:
  assumes "preempt t st s = Some s'"
  shows "current s' = t \<and> status (tasks s' t) = st \<and> sems s' = sems s \<and> ports s' = ports s \<and>
    kont s' = kont s \<and> same_ids s s' \<and> sys_queues s' = sys_queues s \<and> idle_task s' = idle_task s \<and>
    live_tasks s' = live_tasks s \<and>
    (\<forall>x. rqueue (rsrcs s' x) = (if x = run_queue s \<and> current s \<noteq> idle_task s
       then rqueue (rsrcs s x) @ [current s] else rqueue (rsrcs s x)))"
proof -
  let ?q = "if current s \<noteq> idle_task s then rsrc_enqueue (run_queue s) (current s) s else s"
  have s': "s' = run_task t (upd_task t (\<lambda>x. x\<lparr>status := st\<rparr>) (?q\<lparr>current := t\<rparr>))"
    using assms by (auto simp: preempt_def Let_def split: if_splits)
  have "same_ids s ?q" by simp
  then have "same_ids s s'" by (simp add: s' run_task_def same_ids_def upd_defs Let_def)
  then show ?thesis
    by (simp add: s' run_task_tasks upd_defs sys_queues_def enqueue_queue)
qed

section \<open>Properties\<close>

text \<open>The scheduler state of the witnesses: task 7 runs, 8 and 9 are ready, 6 is the idle task, and
  10 sleeps until tick 5.\<close>

definition sample_task :: "nat \<Rightarrow> nat \<Rightarrow> nat \<Rightarrow> task_t" where
  "sample_task fl w tm = \<lparr>waiting_on = w, status = 0, wait_time = tm, flags = fl, irq = 0, esp = 0,
     esp0 = 0, cr3 = 0, scount = 0, kstack = 0, ustack = 0, stack_area = 0, tteam = 0, frame = []\<rparr>"

definition sample_queue :: "nat \<Rightarrow> nat list \<Rightarrow> resource_t" where
  "sample_queue i ts = \<lparr>rid = i, rtype = RSRC_QUEUE, rowner = 0, rights = [], rqueue = ts, rname = []\<rparr>"

definition sample_sched :: "nat list \<Rightarrow> kstate" where
  "sample_sched sl = kstate_boot\<lparr>current := 7, idle_task := 6, run_queue := 48, timer_queue := 50,
     reaper_queue := 52, live_tasks := 4,
     rsrcs := (rsrcs kstate_boot)(48 := sample_queue 1 [8, 9], 50 := sample_queue 2 sl,
       52 := sample_queue 3 []),
     tasks := (tasks kstate_boot)(7 := sample_task tRUNNING 0 0, 8 := sample_task tWAITING 48 0,
       9 := sample_task tWAITING 48 0, 10 := sample_task tWAITING 50 5)\<rparr>"

lemma sample_queues:
  "rqueue (rsrcs (sample_sched sl) r) = (if r = 48 then [8, 9] else if r = 50 then sl else [])"
  by (simp add: sample_sched_def sample_queue_def kstate_boot_def)

lemma sample_flags: "flags (tasks (sample_sched sl) t) =
    (if t = 7 then tRUNNING else if t \<in> {8, 9, 10} then tWAITING else 0)"
  by (simp add: sample_sched_def sample_task_def kstate_boot_def)

lemma sample_fields: "current (sample_sched sl) = 7" "idle_task (sample_sched sl) = 6"
  "sys_queues (sample_sched sl) = [48, 50, 52]" "run_queue (sample_sched sl) = 48"
  "timer_queue (sample_sched sl) = 50" "irq_task_map (sample_sched sl) n = 0"
  "q \<in> {48, 50, 52} \<Longrightarrow> rtype (rsrcs (sample_sched sl) q) = RSRC_QUEUE"
  by (auto simp: sample_sched_def sys_queues_def kstate_boot_def sample_queue_def)

lemma sample_sched_ok:
  assumes "sl = [] \<or> sl = [10]"
  shows "sched_ok (sample_sched sl)"
proof -
  have "queues_ok (sample_sched sl)"
    using assms unfolding queues_ok_def sample_queues sample_flags
    by (auto simp: sample_sched_def sample_task_def)
  then show ?thesis
    using assms sample_fields
    by (auto simp: sched_ok_def sched_inv_def unqueued_def sample_queues sample_flags)
qed





end
