(* ===== verification/Aspace.thy ===== *)
theory Aspace
  imports SchedInv
begin

text \<open>
  Address spaces, areas and page groups of \<^verbatim>\<open>kernel/aspace.c\<close>. A page table has 1024
  entries; a write past its end corrupts other kernel memory and is \<open>None\<close>. The TLB
  flushes have no counterpart. The \<open>void **addr\<close> argument of \<open>area_create\<close> and \<open>area_clone\<close> is
  an input value and, on success, a result.
\<close>

section \<open>Page tables\<close>

definition aspace_create :: "kstate \<Rightarrow> (nat \<times> kstate) option" where
  "aspace_create s = do {
     (a, s) \<leftarrow> kmalloc sizeof_aspace s;
     (raw0, phys0, m) \<leftarrow> kgetpage (km s);
     (raw1, phys1, m) \<leftarrow> kgetpage m;
     let s = upd_aspace a (\<lambda>_. \<lparr>areas = [], pdir_page = raw0, ptab_page = raw1,
                pdir = (\<lambda>_. 0)(0 := phys1 OR 7, 512 := u32 (kcr3 s + 2 * 4096) OR 3),
                ptab = (\<lambda>_. 0), pdirphys = phys0\<rparr>) (s\<lparr>km := m\<rparr>);
     s \<leftarrow> rsrc_bind a RSRC_ASPACE (kernel_team s) s;
     Some (a, s)
   }"

definition set_pte :: "nat \<Rightarrow> nat \<Rightarrow> nat \<Rightarrow> kstate \<Rightarrow> kstate option" where
  "set_pte a i v s =
     (if i < 1024 then Some (upd_aspace a (\<lambda>x. x\<lparr>ptab := (ptab x)(i := v)\<rparr>) s) else None)"

definition aspace_protect :: "nat \<Rightarrow> nat \<Rightarrow> nat \<Rightarrow> kstate \<Rightarrow> kstate option" where
  "aspace_protect a virt flgs s =
     set_pte a virt ((ptab (aspaces s a) virt AND 0xFFFFF000) OR (flgs AND 0xFFF)) s"

definition pte :: "nat \<Rightarrow> nat \<Rightarrow> nat" where
  "pte page flgs = (page * 4096 AND 0xFFFFF000) OR (flgs AND 0xFFF)"

primrec aspace_map :: "nat \<Rightarrow> nat \<Rightarrow> nat \<Rightarrow> nat \<Rightarrow> nat \<Rightarrow> kstate \<Rightarrow> kstate option" where
  "aspace_map 0 a phys virt flgs s = Some s"
| "aspace_map (Suc len) a phys virt flgs s = do {
     s1 \<leftarrow> set_pte a virt (pte phys flgs) s;
     aspace_map len a (phys + 1) (virt + 1) flgs s1
   }"

primrec aspace_clr :: "nat \<Rightarrow> nat \<Rightarrow> nat \<Rightarrow> kstate \<Rightarrow> kstate option" where
  "aspace_clr 0 a virt s = Some s"
| "aspace_clr (Suc len) a virt s = do { s1 \<leftarrow> set_pte a virt 0 s; aspace_clr len a (virt + 1) s1 }"

function locate_loop :: "(nat \<Rightarrow> nat) \<Rightarrow> nat \<Rightarrow> nat \<Rightarrow> nat \<Rightarrow> nat \<Rightarrow> nat" where
  "locate_loop tab start len found foundat =
     (if found < len \<and> start < 1024
      then if tab start \<noteq> 0 then locate_loop tab (start + 1) len 0 0
           else locate_loop tab (start + 1) len (found + 1) (if found = 0 then start else foundat)
      else foundat)"
  by auto
termination by (relation "measure (\<lambda>(tab, start, len, found, foundat). 1024 - start)") auto

declare locate_loop.simps [simp del]

definition locate_span :: "nat \<Rightarrow> nat \<Rightarrow> nat \<Rightarrow> kstate \<Rightarrow> nat" where
  "locate_span a start len s =
     locate_loop (ptab (aspaces s a)) (if start < 1 \<or> start > 1023 then 512 else start) len 0 0"

section \<open>Areas\<close>

abbreviation (input) AREA_PHYSMAP :: nat where "AREA_PHYSMAP \<equiv> 1"

definition pages_of :: "nat \<Rightarrow> nat" where
  "pages_of sz = (let n = (if sz AND 0xFFF \<noteq> 0 then sz div 0x1000 + 1 else sz div 0x1000)
                  in if n < 1 then 1 else n)"

text \<open>\<open>for(i=0;i<size;i+=6)\<close>: one \<open>phys_page_t\<close> per six pages, each put in front.\<close>

primrec alloc_phys_pages :: "nat \<Rightarrow> nat list \<Rightarrow> kstate \<Rightarrow> (nat list \<times> kstate) option" where
  "alloc_phys_pages 0 ps s = Some (ps, s)"
| "alloc_phys_pages (Suc n) ps s = do {
     (pp, s1) \<leftarrow> kmalloc sizeof_phys_page s;
     alloc_phys_pages n (pp # ps) s1
   }"

text \<open>Six page numbers go into each \<open>addr\<close> array in turn, the last one padded with zeros.\<close>

primrec fill_phys_pages :: "nat list \<Rightarrow> nat list \<Rightarrow> (nat \<times> nat list) list" where
  "fill_phys_pages [] pages = []"
| "fill_phys_pages (pp # pps) pages =
     (pp, take 6 (pages @ replicate 6 0)) # fill_phys_pages pps (drop 6 pages)"

definition new_pagegroup :: "nat \<Rightarrow> nat \<Rightarrow> kstate \<Rightarrow> (nat \<times> nat list \<times> kstate) option" where
  "new_pagegroup n flgs s = do {
     (pg, s) \<leftarrow> kmalloc sizeof_pagegroup s;
     let s = upd_pgroup pg (\<lambda>_. \<lparr>pg_size = n, pg_refcount = 1, pg_flags = flgs, pg_areas = [],
                pg_pages = []\<rparr>) s;
     (pps, s) \<leftarrow> alloc_phys_pages ((n + 5) div 6) [] s;
     Some (pg, pps, s)
   }"

definition new_area :: "nat \<Rightarrow> nat \<Rightarrow> nat \<Rightarrow> nat \<Rightarrow> kstate \<Rightarrow> (nat \<times> kstate) option" where
  "new_area pg at len maxlen s = do {
     (ar, s) \<leftarrow> kmalloc sizeof_area s;
     Some (ar, upd_area ar (\<lambda>_. \<lparr>pgroup = pg, virt_addr = at, alength = len, maxlength = maxlen\<rparr>) s)
   }"

definition link_pgroup :: "nat \<Rightarrow> nat \<Rightarrow> kstate \<Rightarrow> kstate option" where
  "link_pgroup pg ar s = do {
     (l, m) \<leftarrow> kl_add_tail ar (pg_areas (pgroups s pg)) (km s);
     Some (upd_pgroup pg (\<lambda>x. x\<lparr>pg_areas := l\<rparr>) (s\<lparr>km := m\<rparr>))
   }"

definition link_aspace :: "nat \<Rightarrow> nat \<Rightarrow> kstate \<Rightarrow> kstate option" where
  "link_aspace a ar s = do {
     (l, m) \<leftarrow> kl_add_tail ar (areas (aspaces s a)) (km s);
     Some (upd_aspace a (\<lambda>x. x\<lparr>areas := l\<rparr>) (s\<lparr>km := m\<rparr>))
   }"

text \<open>The page loop of \<open>area_create\<close>; the result lists the pages in the order they are
  stored.\<close>

primrec area_pages :: "nat \<Rightarrow> nat \<Rightarrow> nat \<Rightarrow> nat \<Rightarrow> nat \<Rightarrow> kstate \<Rightarrow> (nat list \<times> kstate) option" where
  "area_pages 0 a p at flgs s = Some ([], s)"
| "area_pages (Suc n) a p at flgs s = do {
     (p, s) \<leftarrow> (if flgs AND AREA_PHYSMAP \<noteq> 0 then Some (p, s)
                else do { (q, m) \<leftarrow> getpage (km s); Some (q, s\<lparr>km := m\<rparr>) });
     s \<leftarrow> aspace_map 1 a p at 7 s;
     (ps, s) \<leftarrow> area_pages n a (p + 1) (at + 1) flgs s;
     Some (p # ps, s)
   }"

definition area_create ::
  "nat \<Rightarrow> nat \<Rightarrow> nat \<Rightarrow> nat \<Rightarrow> nat \<Rightarrow> kstate \<Rightarrow> (int \<times> nat \<times> kstate) option" where
  "area_create a sz virt addr flgs s =
     (let n = pages_of sz;
          p = (if flgs AND AREA_PHYSMAP \<noteq> 0 then addr div 0x1000 else 0);
          at = locate_span a (virt div 0x1000) n s
      in if at = 0 then Some (ERR_MEMORY, addr, s)
         else do {
           (pg, pps, s) \<leftarrow> new_pagegroup n flgs s;
           (ar, s) \<leftarrow> new_area pg at n n s;
           s \<leftarrow> link_pgroup pg ar s;
           s \<leftarrow> link_aspace a ar s;
           (pages, s) \<leftarrow> area_pages n a p at flgs s;
           let s = upd_pgroup pg (\<lambda>x. x\<lparr>pg_pages := fill_phys_pages pps pages\<rparr>) s;
           s \<leftarrow> rsrc_bind ar RSRC_AREA (rowner (rsrcs s (current s))) s;
           Some (int (rid (rsrcs s ar)), at * 0x1000, s)
         })"

definition area_create_uber :: "nat \<Rightarrow> nat \<Rightarrow> kstate \<Rightarrow> (int \<times> kstate) option" where
  "area_create_uber sz addr s =
     (let n = pages_of sz; p = addr div 0x1000 in do {
        (pg, pps, s) \<leftarrow> new_pagegroup n AREA_PHYSMAP s;
        (ar, s) \<leftarrow> new_area pg 0 n n s;
        s \<leftarrow> link_pgroup pg ar s;
        let s = upd_pgroup pg (\<lambda>x. x\<lparr>pg_pages := fill_phys_pages pps [p..<p + n]\<rparr>) s;
        s \<leftarrow> rsrc_bind ar RSRC_AREA (kernel_team s) s;
        Some (int (rid (rsrcs s ar)), s)
      })"

text \<open>\<open>pp->addr[ppo]\<close> while walking the chain six at a time is the flat sequence of the
  arrays; walking off its end is a null dereference.\<close>

definition group_pages :: "pagegroup_t \<Rightarrow> nat list" where
  "group_pages g = concat (map snd (pg_pages g))"

primrec map_pages :: "nat \<Rightarrow> nat list \<Rightarrow> nat \<Rightarrow> nat \<Rightarrow> kstate \<Rightarrow> kstate option" where
  "map_pages 0 pages a at s = Some s"
| "map_pages (Suc n) pages a at s =
     (case pages of
        [] \<Rightarrow> None
      | p # ps \<Rightarrow> do { s1 \<leftarrow> aspace_map 1 a p at 7 s; map_pages n ps a (at + 1) s1 })"

definition area_clone :: "nat \<Rightarrow> int \<Rightarrow> nat \<Rightarrow> nat \<Rightarrow> kstate \<Rightarrow> (int \<times> nat \<times> kstate) option" where
  "area_clone a area_id virt addr s =
     (let area0 = rsrc_find RSRC_AREA area_id s in
      if area0 = 0 then Some (ERR_RESOURCE, addr, s)
      else
        (let at = locate_span a (virt div 0x1000) (alength (area_st s area0)) s in
         if at = 0 then Some (ERR_MEMORY, addr, s)
         else
           (let pg = pgroup (area_st s area0) in do {
              (area1, s) \<leftarrow> new_area pg at (alength (area_st s area0)) (maxlength (area_st s area0)) s;
              let s = upd_pgroup pg (\<lambda>x. x\<lparr>pg_refcount := u32 (pg_refcount x + 1)\<rparr>) s;
              s \<leftarrow> link_pgroup pg area1 s;
              s \<leftarrow> link_aspace a area1 s;
              s \<leftarrow> map_pages (alength (area_st s area1)) (group_pages (pgroups s pg)) a at s;
              s \<leftarrow> rsrc_bind area1 RSRC_AREA (rowner (rsrcs s (current s))) s;
              Some (int (rid (rsrcs s area1)), at * 0x1000, s)
            })))"

text \<open>The teardown of a page group: per \<open>phys_page_t\<close> up to six of the remaining \<open>size\<close> pages
  are released, unless they are mapped hardware, and the \<open>phys_page_t\<close> is freed.\<close>

fun release_pages :: "bool \<Rightarrow> nat \<Rightarrow> (nat \<times> nat list) list \<Rightarrow> kstate \<Rightarrow> kstate option" where
  "release_pages rel sz [] s = Some s"
| "release_pages rel sz ((pp, addrs) # pps) s =
     (let s1 = (if rel then s\<lparr>km := fold putpage (take (min sz 6) addrs) (km s)\<rparr> else s) in do {
        s2 \<leftarrow> kfree sizeof_phys_page pp s1;
        release_pages rel (if rel then sz - 6 else sz) pps s2
      })"

definition area_destroy :: "nat \<Rightarrow> int \<Rightarrow> kstate \<Rightarrow> (int \<times> kstate) option" where
  "area_destroy a area_id s =
     (let ar = rsrc_find RSRC_AREA area_id s in
      if ar = 0 then Some (ERR_RESOURCE, s)
      else do {
        (e, l, m) \<leftarrow> kl_remove ar (areas (aspaces s a)) (km s);
        if e \<noteq> 0 then Some (ERR_RESOURCE, s)
        else do {
          let s = upd_aspace a (\<lambda>x. x\<lparr>areas := l\<rparr>) (s\<lparr>km := m\<rparr>);
          s \<leftarrow> aspace_clr (alength (area_st s ar)) a (virt_addr (area_st s ar)) s;
          let pg = pgroup (area_st s ar);
          (e, l, m) \<leftarrow> kl_remove ar (pg_areas (pgroups s pg)) (km s);
          let s = upd_pgroup pg (\<lambda>x. x\<lparr>pg_areas := l, pg_refcount := u32_sub (pg_refcount x) 1\<rparr>)
                    (s\<lparr>km := m\<rparr>);
          s \<leftarrow> (if pg_refcount (pgroups s pg) = 0
                then do {
                  s \<leftarrow> release_pages (pg_flags (pgroups s pg) AND AREA_PHYSMAP = 0)
                         (pg_size (pgroups s pg)) (pg_pages (pgroups s pg)) s;
                  kfree sizeof_pagegroup pg s
                } else Some s);
          s \<leftarrow> rsrc_release ar s;
          s \<leftarrow> kfree sizeof_area ar s;
          Some (ERR_NONE, s)
        }
      })"

text \<open>The growth loop of \<open>area_resize\<close>: a new \<open>phys_page_t\<close> is chained behind the last one
  whenever the last is full.\<close>

primrec grow_pages :: "nat \<Rightarrow> nat \<Rightarrow> nat \<Rightarrow> nat \<Rightarrow> nat \<Rightarrow> kstate \<Rightarrow> kstate option" where
  "grow_pages 0 a pg ppo at s = Some s"
| "grow_pages (Suc n) a pg ppo at s = do {
     s \<leftarrow> (if ppo = 0 then do {
              (pp0, s) \<leftarrow> kmalloc sizeof_phys_page s;
              Some (upd_pgroup pg (\<lambda>x. x\<lparr>pg_pages := pg_pages x @ [(pp0, replicate 6 0)]\<rparr>) s)
            } else Some s);
     (p, m) \<leftarrow> getpage (km s);
     s \<leftarrow> aspace_map 1 a p at 7 (s\<lparr>km := m\<rparr>);
     let s = upd_pgroup pg (\<lambda>x. x\<lparr>pg_pages := butlast (pg_pages x) @
               [(fst (last (pg_pages x)), (snd (last (pg_pages x)))[ppo := p])]\<rparr>) s;
     grow_pages n a pg (if ppo + 1 = 6 then 0 else ppo + 1) (at + 1) s
   }"

definition area_resize :: "nat \<Rightarrow> int \<Rightarrow> nat \<Rightarrow> kstate \<Rightarrow> (int \<times> kstate) option" where
  "area_resize a area_id sz s =
     (let ar = rsrc_find RSRC_AREA area_id s in
      if ar = 0 then Some (ERR_RESOURCE, s)
      else
        (let pg = pgroup (area_st s ar); psize = pg_size (pgroups s pg) in
         if sz \<le> u32 (psize * 0x1000) then Some (0, s)
         else
           (let n = u32_sub (sz div 0x1000) psize;
                want = u32 (virt_addr (area_st s ar) + psize);
                at = locate_span a want n s
            in if at \<noteq> want then Some (ERR_MEMORY, s)
               else if pg_pages (pgroups s pg) = [] then None
               else
                 (let s = upd_pgroup pg (\<lambda>x. x\<lparr>pg_size := u32 (psize + n)\<rparr>) s;
                      s = upd_area ar (\<lambda>x. x\<lparr>alength := u32 (alength x + n),
                            maxlength := u32 (maxlength x + n)\<rparr>) s
                  in do { s \<leftarrow> grow_pages n a pg (psize mod 6) at s; Some (0, s) }))))"

text \<open>\<open>aspace_destroy\<close> destroys the first area until none is left; it does not end if
  \<open>area_destroy\<close> keeps failing.\<close>

partial_function (option) destroy_areas :: "nat \<Rightarrow> kstate \<Rightarrow> kstate option" where
  "destroy_areas a s =
     (let ar = kl_peek_head (areas (aspaces s a)) in
      if ar = 0 then Some s
      else do { (e, s1) \<leftarrow> area_destroy a (int (rid (rsrcs s ar))) s; destroy_areas a s1 })"

definition kfree_page :: "nat \<Rightarrow> kstate \<Rightarrow> kstate option" where
  "kfree_page v s = do { m \<leftarrow> kfreepage v (km s); Some (s\<lparr>km := m\<rparr>) }"

definition aspace_destroy :: "nat \<Rightarrow> kstate \<Rightarrow> kstate option" where
  "aspace_destroy a s = do {
     s \<leftarrow> destroy_areas a s;
     s \<leftarrow> rsrc_release a s;
     s \<leftarrow> kfree_page (pdir_page (aspaces s a)) s;
     s \<leftarrow> kfree_page (ptab_page (aspaces s a)) s;
     kfree sizeof_aspace a s
   }"

end
