(* ===== verification/KHeap.thy ===== *)
theory KHeap
  imports Aspace
begin

text \<open>
  The kernel heap and its lists as the clients of the allocators see them: which blocks, list
  nodes and page frames are in use, and what the operations on areas do to them, step by step.
\<close>

section \<open>The kernel heap as its clients see it\<close>

text \<open>
  \<open>L c\<close> are the blocks of size class \<open>c\<close> in use, and the free page frames lie within \<open>A\<close>.
\<close>

definition kheap :: "(nat \<Rightarrow> nat set) \<Rightarrow> nat set \<Rightarrow> kmem \<Rightarrow> bool" where
  "kheap L A m \<longleftrightarrow> (\<exists>own. kmem_inv own L m) \<and> (\<exists>F. free_pages m F \<and> set F \<subseteq> A) \<and> 0x80000000 \<le> nextmem m"

definition blocks :: "(nat \<Rightarrow> nat set) \<Rightarrow> nat set" where
  "blocks L = (\<Union>c \<in> {..<KMMAX}. L c)"

lemma getpage_free:
  assumes "free_pages m F" and "getpage m = Some (p, m')"
  shows "\<exists>G. F = p # G \<and> p \<notin> set G \<and> p \<noteq> 0 \<and> free_pages m' G"
  using pg.take_fresh [OF assms] pg.free_ok [OF assms(1)] by auto

lemma kgetpage_frames:
  assumes g: "kgetpage m = Some (v, ph, m')" and f: "free_pages m F" and n: "nextmem m < 4294967296"
    and k: "length (km_map m) = KMMAX"
  shows "\<exists>G. set G \<subseteq> set F \<and> free_pages m' G \<and> (0x80000000 \<le> nextmem m \<longrightarrow> 0x80000000 \<le> nextmem m')"
proof -
  obtain pg m1 where p: "getpage m = Some (pg, m1)"
    using g by (cases "getpage m") (auto simp: kgetpage_def)
  obtain G where G: "F = pg # G" "free_pages m1 G" using getpage_free [OF f p] by blast
  note fr = getpage_frame [OF p]
  show ?thesis
  proof (cases "freevpagelist m1")
    case Nil
    then have "free_pages m' G" "nextmem m' = nextmem m - 4096" "0x80050000 \<le> nextmem m"
      using g p fr n G by (auto simp: kgetpage_def Let_def free_pages_def split: if_splits)
    then show ?thesis using G by auto
  next
    case (Cons q rest)
    obtain n page where q: "q = (n, page)" by (cases q)
    obtain m2 where m2: "kfreeB sizeof_node n (m1\<lparr>freevpagelist := rest\<rparr>) = Some m2"
      "m' = aspace_maphi pg (page div 4096) 1 3 m2"
      using g p Cons q by (auto simp: kgetpage_def split: if_splits bind_splits)
    then have fp: "kfreeP KM16 n (m1\<lparr>freevpagelist := rest\<rparr>) = Some m2"
      using size_map_node by (simp add: kfreeB_def sizeof_node_def)
    have "nextmem m2 = nextmem m1" using fp by (auto simp: kfreeP_def Let_def split: if_splits)
    moreover have "free_pages m' G"
      using kfreeP_frame(4,5) [OF fp] G by (simp add: m2 free_pages_def)
    ultimately show ?thesis using G fr m2 by (intro exI [of _ G]) (auto simp: fr)
  qed
qed

lemma kmallocP_frames:
  assumes a: "kmallocP i m = Some (a, m')" and f: "free_pages m F" and n: "nextmem m < 4294967296"
    and k: "length (km_map m) = KMMAX"
  shows "\<exists>G. set G \<subseteq> set F \<and> free_pages m' G \<and> (0x80000000 \<le> nextmem m \<longrightarrow> 0x80000000 \<le> nextmem m')"
proof (cases "\<exists>x. m' = m\<lparr>km_map := x\<rparr>")
  case True
  then show ?thesis using f by (intro exI [of _ F]) (auto simp: free_pages_def)
next
  case False
  then obtain x y v m1 where g: "kgetpages 1 (m\<lparr>km_map := x\<rparr>) = Some (v, m1)" "m' = m1\<lparr>km_map := y\<rparr>" "length x = KMMAX"
    using a k by (auto simp: kmallocP_def Let_def split: if_splits list.splits bind_splits)
  then obtain ph where "kgetpage (m\<lparr>km_map := x\<rparr>) = Some (v, ph, m1)"
    by (cases "kgetpage (m\<lparr>km_map := x\<rparr>)") (auto simp: kgetpages_def)
  from kgetpage_frames [OF this, of F] f n g(2,3) show ?thesis by (simp add: free_pages_def)
qed

lemma kheap_alloc:
  assumes h: "kheap L A m" and al: "kmallocB sz m = Some (a, m')"
  shows "a \<notin> blocks L \<and> 1 < a \<and> kheap (L(size_map ! sz := insert a (L (size_map ! sz)))) A m'"
proof -
  let ?i = "size_map ! sz"
  obtain own F where inv: "kmem_inv own L m" and F: "free_pages m F" "set F \<subseteq> A" and nm: "0x80000000 \<le> nextmem m"
    using h by (auto simp: kheap_def)
  have sz: "sz < 256" and al': "kmallocP ?i m = Some (a, m')"
    using al by (simp_all add: kmallocB_def split: if_splits)
  have i: "?i < KMMAX" by (rule size_map_less [OF sz])
  from kmallocP_inv [OF inv i al'] obtain own' where
    na: "a \<notin> live L m ?i" and le: "own \<subseteq>\<^sub>m own'" and ba: "block_ok own' ?i a"
    and inv': "kmem_inv own' (L(?i := insert a (L ?i))) m'" by blast
  have al4: "\<forall>P \<in> dom own'. 4096 dvd P \<and> nextmem m' \<le> P"
    using inv' by (simp add: kmem_invx_def pages_ok_def)
  have "a \<notin> L k" if k: "k < KMMAX" for k
  proof
    assume b: "a \<in> L k"
    have "pool_ok own (live L m k) k (km_map m ! k)" using inv k by (simp add: kmem_invx_def)
    then have bk: "block_ok own' k a" using b block_ok_mono [OF _ le] by (simp add: pool_ok_def live_def)
    have "?i \<noteq> k" using na b by (auto simp: live_def)
    then have "{a ..< a + psz ?i} \<inter> {a ..< a + psz k} = {}"
      using blocks_disjoint [OF _ ba bk i k] al4 by blast
    moreover have "a \<in> {a ..< a + psz ?i} \<inter> {a ..< a + psz k}"
      using psz_pos [OF i] psz_pos [OF k] by simp
    ultimately show False by blast
  qed
  then have nb: "a \<notin> blocks L" by (simp add: blocks_def)
  have nl: "nextmem m < 4294967296" "length (km_map m) = KMMAX" using inv by (simp_all add: kmem_invx_def pages_ok_def)
  obtain G where G: "set G \<subseteq> set F" "free_pages m' G" "0x80000000 \<le> nextmem m'"
    using kmallocP_frames [OF al' F(1) nl] nm by blast
  have "nextmem m' \<le> a" using ba al4 by (auto simp: block_ok_def intro: trans_le_add1)
  then have "1 < a" using G(3) by simp
  moreover have "kheap (L(?i := insert a (L ?i))) A m'"
    using inv' G F(2) unfolding kheap_def by blast
  ultimately show ?thesis using nb by simp
qed

lemma kheap_free:
  assumes h: "kheap L A m" and a: "a \<in> L (size_map ! sz)" and f: "kfreeB sz a m = Some m'"
  shows "kheap (L(size_map ! sz := L (size_map ! sz) - {a})) A m'"
proof -
  let ?i = "size_map ! sz"
  have sz: "sz < 256" and f': "kfreeP ?i a m = Some m'" using f by (simp_all add: kfreeB_def split: if_splits)
  obtain own F where inv: "kmem_inv own L m" and F: "free_pages m F" "set F \<subseteq> A" and nm: "0x80000000 \<le> nextmem m"
    using h by (auto simp: kheap_def)
  from kfreeP_inv [OF inv size_map_less [OF sz] a] f' have "kmem_inv own (L(?i := L ?i - {a})) m'" "nextmem m' = nextmem m"
    by auto
  moreover have "free_pages m' F" using F(1) kfreeP_frame(4,5) [OF f'] by (simp add: free_pages_def)
  ultimately show ?thesis using F(2) nm unfolding kheap_def by auto
qed

lemma kheap_getpage:
  assumes h: "kheap L A m" and g: "getpage m = Some (p, m')"
  shows "p \<in> A \<and> p \<noteq> 0 \<and> kheap L (A - {p}) m'"
proof -
  obtain own F where inv: "kmem_inv own L m" and F: "free_pages m F" "set F \<subseteq> A" and nm: "0x80000000 \<le> nextmem m"
    using h by (auto simp: kheap_def)
  obtain G where G: "F = p # G" "p \<notin> set G" "p \<noteq> 0" "free_pages m' G" using getpage_free [OF F(1) g] by blast
  have "kmem_inv own L m'" using inv kmem_invx_cong [OF getpage_frame(1-3) [OF g], of "{}" own L] by simp
  moreover have "set G \<subseteq> A - {p}" using G F(2) by auto
  ultimately show ?thesis using G F(2) nm getpage_frame(2) [OF g] unfolding kheap_def by auto
qed

lemma kheap_putpage:
  assumes h: "kheap L A m" and p: "p \<notin> A" "p \<noteq> 0"
  shows "kheap L (insert p A) (putpage p m)"
proof -
  obtain own F where inv: "kmem_inv own L m" and F: "free_pages m F" "set F \<subseteq> A" and nm: "0x80000000 \<le> nextmem m"
    using h by (auto simp: kheap_def)
  have "free_pages (putpage p m) (p # F)" using pg.give_free [OF F(1)] F(2) p by blast
  moreover have "kmem_inv own L (putpage p m)"
    using inv kmem_invx_cong [of "putpage p m" m "{}" own L] by (simp add: putpage_def)
  moreover have "nextmem (putpage p m) = nextmem m" by (simp add: putpage_def)
  moreover have "set (p # F) \<subseteq> insert p A" using F(2) by auto
  ultimately show ?thesis using nm unfolding kheap_def by metis
qed

lemma kheap_kgetpage:
  assumes h: "kheap L A m" and g: "kgetpage m = Some (v, ph, m')"
  shows "kheap L A m'"
proof -
  obtain own F where inv: "kmem_inv own L m" and F: "free_pages m F" "set F \<subseteq> A" and nm: "0x80000000 \<le> nextmem m"
    using h by (auto simp: kheap_def)
  have nl: "nextmem m < 4294967296" "length (km_map m) = KMMAX" using inv by (simp_all add: kmem_invx_def pages_ok_def)
  obtain G where "set G \<subseteq> set F" "free_pages m' G" "0x80000000 \<le> nextmem m'"
    using kgetpage_frames [OF g F(1) nl] nm by blast
  moreover have "kmem_inv (own(v \<mapsto> Whole)) L m'" using kgetpage_inv [OF inv g] by blast
  ultimately show ?thesis using F(2) unfolding kheap_def by blast
qed

lemma kheap_frames: "kheap L A m \<Longrightarrow> A \<subseteq> B \<Longrightarrow> kheap L B m"
  unfolding kheap_def by blast

section \<open>List nodes\<close>

text \<open>The lists of the kernel that address-space operations touch, and what is known of their nodes:
  no node is on two lists or twice on one, and every node is a block in use.\<close>

datatype lid = AreasOf nat | GroupOf nat | TeamOf nat | AllRes

primrec klists :: "kstate \<Rightarrow> lid \<Rightarrow> klist" where
  "klists s (AreasOf a) = areas (aspaces s a)"
| "klists s (GroupOf g) = pg_areas (pgroups s g)"
| "klists s (TeamOf t) = resources (teams s t)"
| "klists s AllRes = resource_list s"

definition nodes_ok :: "nat set \<Rightarrow> (lid \<Rightarrow> klist) \<Rightarrow> bool" where
  "nodes_ok N K \<longleftrightarrow> (\<forall>l. distinct (map fst (K l)) \<and> fst ` set (K l) \<subseteq> N) \<and>
     (\<forall>l l'. l \<noteq> l' \<longrightarrow> fst ` set (K l) \<inter> fst ` set (K l') = {})"

lemma nodes_ok_mono: "nodes_ok N K \<Longrightarrow> N \<subseteq> N' \<Longrightarrow> nodes_ok N' K"
  unfolding nodes_ok_def by blast

lemma nodes_ok_nodes: "nodes_ok N K \<Longrightarrow> fst ` set (K l) \<subseteq> N"
  by (simp add: nodes_ok_def)

lemma nodes_ok_add:
  assumes "nodes_ok N K" and "n \<notin> N"
  shows "nodes_ok (insert n N) (K(l := K l @ [(n, d)]))"
proof -
  let ?K = "K(l := K l @ [(n, d)])"
  have n: "n \<notin> fst ` set (K l')" for l' using assms unfolding nodes_ok_def by blast
  have i: "fst ` set (?K l') = (if l' = l then insert n (fst ` set (K l)) else fst ` set (K l'))" for l' by simp
  have s: "fst ` set (K l') \<subseteq> N" "distinct (map fst (K l'))" for l' using assms(1) by (simp_all add: nodes_ok_def)
  have "distinct (map fst (?K l'))" for l' using s(2) n by simp
  moreover have "fst ` set (?K l') \<subseteq> insert n N" for l' unfolding i using s(1) by (metis insert_mono subset_insertI2)
  moreover have "fst ` set (?K l1) \<inter> fst ` set (?K l2) = {}" if "l1 \<noteq> l2" for l1 l2
    unfolding i using assms(1) that n by (auto simp: nodes_ok_def simp del: image_iff)
  ultimately show ?thesis unfolding nodes_ok_def by blast
qed

lemma nodes_ok_remove:
  assumes ok: "nodes_ok N K" and m: "(n, d) \<in> set (K l)"
  shows "nodes_ok (N - {n}) (K(l := remove1 (n, d) (K l)))"
proof -
  have d: "distinct (map fst (K l))" using ok by (simp add: nodes_ok_def)
  have r: "set (remove1 (n, d) (K l)) = set (K l) - {(n, d)}"
    using d by (simp add: distinct_map)
  have n: "n \<in> fst ` set (K l)" using m by force
  have inj: "inj_on fst (set (K l))" using d by (simp add: distinct_map)
  have i: "fst ` set (remove1 (n, d) (K l)) = fst ` set (K l) - {n}"
    unfolding r using inj_on_image_set_diff [OF inj, of "set (K l)" "{(n, d)}"] m by simp
  have s: "fst ` set (K l') \<subseteq> N" "distinct (map fst (K l'))" for l' using ok by (simp_all add: nodes_ok_def)
  have dis: "fst ` set (K l1) \<inter> fst ` set (K l2) = {}" if "l1 \<noteq> l2" for l1 l2
    using ok that by (simp add: nodes_ok_def)
  have o: "fst ` set (K l') \<subseteq> N - {n}" if "l' \<noteq> l" for l' using s(1) [of l'] dis [OF that] n by blast
  let ?K = "K(l := remove1 (n, d) (K l))"
  have j: "fst ` set (?K l') = (if l' = l then fst ` set (K l) - {n} else fst ` set (K l'))" for l' using i by simp
  have sub: "fst ` set (?K l') \<subseteq> fst ` set (K l')" for l' unfolding j by (cases "l' = l") auto
  have "inj_on fst (set (remove1 (n, d) (K l)))" using inj r by (auto intro: inj_on_subset)
  then have "distinct (map fst (?K l'))" for l' using s(2) [of l'] d by (simp add: distinct_map)
  moreover have "fst ` set (?K l') \<subseteq> N - {n}" for l' unfolding j using s(1) [of l] o [of l'] by auto
  moreover have "fst ` set (?K l1) \<inter> fst ` set (?K l2) = {}" if "l1 \<noteq> l2" for l1 l2
    by (rule subset_empty [THEN iffD1], rule subset_trans [OF Int_mono [OF sub sub]], simp only: dis [OF that] subset_refl)
  ultimately show ?thesis unfolding nodes_ok_def by blast
qed

lemma nodes_ok_clear: "nodes_ok N K \<Longrightarrow> nodes_ok N (K(l := []))"
  unfolding nodes_ok_def by auto

lemma klists_upd [simp]:
  "klists (s\<lparr>km := m\<rparr>) = klists s"
  "klists (upd_area p f' s) = klists s"
  "klists (upd_rsrc p g' s) = klists s"
  "klists (s\<lparr>resource_list := l\<rparr>) = (klists s)(AllRes := l)"
  "klists (s\<lparr>teams := (teams s)(t := (teams s t)\<lparr>resources := l\<rparr>)\<rparr>) = (klists s)(TeamOf t := l)"
  by (rule ext, case_tac x, simp_all add: upd_defs)+

lemma upd_km [simp]:
  "km (upd_area p f s) = km s" "km (upd_rsrc p f1 s) = km s" "km (upd_pgroup p f2 s) = km s"
  "km (upd_aspace p f3 s) = km s" "km (upd_team p f4 s) = km s"
  by (simp_all add: upd_defs)

lemma klists_group: "klists (upd_pgroup g f s) = (klists s)(GroupOf g := pg_areas (f (pgroups s g)))"
  by (rule ext, case_tac x) (simp_all add: upd_defs)

lemma klists_space: "klists (upd_aspace a f s) = (klists s)(AreasOf a := areas (f (aspaces s a)))"
  by (rule ext, case_tac x) (simp_all add: upd_defs)

section \<open>The invariant of the memory the operations handle\<close>

definition mem_ok :: "(nat \<Rightarrow> nat set) \<Rightarrow> nat set \<Rightarrow> kstate \<Rightarrow> bool" where
  "mem_ok L A s \<longleftrightarrow> kheap L A (km s) \<and> nodes_ok (L KM16) (klists s)"

text \<open>\<open>nodes_only L L'\<close>: apart from list nodes the same blocks are in use.\<close>

definition nodes_only :: "(nat \<Rightarrow> nat set) \<Rightarrow> (nat \<Rightarrow> nat set) \<Rightarrow> bool" where
  "nodes_only L L' \<longleftrightarrow> (\<forall>c. c \<noteq> KM16 \<longrightarrow> L' c = L c)"

lemma nodes_only_refl [simp]: "nodes_only L L" by (simp add: nodes_only_def)

lemma nodes_only_trans: "nodes_only L L' \<Longrightarrow> nodes_only L' L'' \<Longrightarrow> nodes_only L L''"
  by (simp add: nodes_only_def)

lemma nodes_only_upd [simp]: "nodes_only L (L(0 := N))"
  by (simp add: nodes_only_def)

lemma nodes_only_nth: "nodes_only L L' \<Longrightarrow> c \<noteq> KM16 \<Longrightarrow> L' c = L c"
  by (simp add: nodes_only_def)

lemma kl_add_tail_ok:
  assumes h: "kheap L A m" and k: "nodes_ok (L KM16) K" and a: "kl_add_tail d (K l) m = Some (xs, m')"
  shows "\<exists>n L'. xs = K l @ [(n, d)] \<and> kheap L' A m' \<and> nodes_ok (L' KM16) (K(l := xs)) \<and> nodes_only L L' \<and>
    n \<notin> blocks L \<and> L' KM16 = insert n (L KM16)"
proof -
  obtain n where n: "kmallocB sizeof_node m = Some (n, m')" "xs = K l @ [(n, d)]"
    using a by (auto simp: kl_add_tail_def split: bind_splits)
  from kheap_alloc [OF h n(1)] have al: "n \<notin> blocks L" "kheap (L(0 := insert n (L 0))) A m'" by simp_all
  then have "n \<notin> L 0" by (auto simp: blocks_def)
  with k have "nodes_ok (insert n (L 0)) (K(l := xs))" unfolding n(2) by (intro nodes_ok_add)
  with al n show ?thesis by (intro exI [of _ n] exI [of _ "L(0 := insert n (L 0))"]) simp
qed

lemma find_node: "find (\<lambda>(n, d'). d' = d) xs = Some (n, e) \<Longrightarrow> e = d \<and> (n, d) \<in> set xs"
  by (auto simp: find_Some_iff) (metis nth_mem)

lemma kl_remove_ok:
  assumes h: "kheap L A m" and k: "nodes_ok (L KM16) K" and r: "kl_remove d (K l) m = Some (e, xs, m')"
  shows "\<exists>L'. kheap L' A m' \<and> nodes_ok (L' KM16) (K(l := xs)) \<and> nodes_only L L' \<and> L' KM16 \<subseteq> L KM16 \<and>
    (e = 0 \<longrightarrow> d \<in> snd ` set (K l) \<and> map snd xs = remove1 d (map snd (K l))) \<and>
    (d \<in> snd ` set (K l) \<longrightarrow> e = 0) \<and> (e \<noteq> 0 \<longrightarrow> xs = K l \<and> m' = m)"
proof (cases "find (\<lambda>(n, d'). d' = d) (K l)")
  case None
  then have "d \<notin> snd ` set (K l)" by (auto simp: find_None_iff)
  moreover have "e = -1" "xs = K l" "m' = m" using None r by (auto simp: kl_remove_def)
  ultimately show ?thesis using h k by (intro exI [of _ L]) simp
next
  case (Some q)
  then obtain n where q: "q = (n, d)" "(n, d) \<in> set (K l)" by (cases q) (use find_node [of d "K l"] in auto)
  then have f: "kfreeB sizeof_node n m = Some m'" and xs: "xs = remove1 (n, d) (K l)" and e: "e = 0"
    using r Some by (auto simp: kl_remove_def split: bind_splits)
  have n: "n \<in> L (size_map ! sizeof_node)" 
    using subsetD [OF nodes_ok_nodes [OF k] imageI [OF q(2), of fst]] by simp
  let ?L = "L(0 := L 0 - {n})"
  have "kheap ?L A m'" using kheap_free [OF h n f] by simp
  moreover have "nodes_ok (?L 0) (K(l := xs))" unfolding xs using nodes_ok_remove [OF k q(2)] by simp
  moreover have "map snd xs = remove1 d (map snd (K l))"
  proof -
    have "find (\<lambda>(n, d'). d' = d) ys = Some (n, d) \<Longrightarrow> map snd (remove1 (n, d) ys) = remove1 d (map snd ys)" for ys
      by (induction ys) (auto split: if_splits)
    then show ?thesis using Some q xs by blast
  qed
  moreover have "d \<in> snd ` set (K l)" using q(2) by force
  ultimately show ?thesis using e by (intro exI [of _ ?L]) auto
qed

section \<open>A heap of blocks\<close>

text \<open>
  The contract of the kernel heap: \<open>alloc\<close> returns a block that no one holds, \<open>free\<close> takes back one
  that is held, and \<open>holds L s\<close> says that the blocks \<open>L c\<close> of each size class \<open>c\<close> are held in state
  \<open>s\<close>.
\<close>

locale block_heap =
  fixes alloc :: "nat \<Rightarrow> 's \<Rightarrow> (nat \<times> 's) option"
    and free :: "nat \<Rightarrow> nat \<Rightarrow> 's \<Rightarrow> 's option"
    and holds :: "(nat \<Rightarrow> nat set) \<Rightarrow> 's \<Rightarrow> bool"
    and cls :: "nat \<Rightarrow> nat"
    and held :: "(nat \<Rightarrow> nat set) \<Rightarrow> nat set"
  assumes alloc_fresh: "holds L s \<Longrightarrow> alloc sz s = Some (a, s') \<Longrightarrow>
      a \<notin> held L \<and> a \<noteq> 0 \<and> cls sz < KMMAX \<and> holds (L(cls sz := insert a (L (cls sz)))) s'"
    and free_held: "holds L s \<Longrightarrow> a \<in> L (cls sz) \<Longrightarrow> free sz a s = Some s' \<Longrightarrow>
      holds (L(cls sz := L (cls sz) - {a})) s'"
    and held_insert: "c < KMMAX \<Longrightarrow> held (L(c := insert a (L c))) = insert a (held L)"
begin

primrec alloc_list :: "nat \<Rightarrow> nat \<Rightarrow> nat list \<Rightarrow> 's \<Rightarrow> (nat list \<times> 's) option" where
  "alloc_list sz 0 ps s = Some (ps, s)"
| "alloc_list sz (Suc n) ps s = do { (p, s1) \<leftarrow> alloc sz s; alloc_list sz n (p # ps) s1 }"

primrec free_all :: "nat \<Rightarrow> nat list \<Rightarrow> 's \<Rightarrow> 's option" where
  "free_all sz [] s = Some s"
| "free_all sz (p # ps) s = do { s1 \<leftarrow> free sz p s; free_all sz ps s1 }"

text \<open>Blocks allocated one after the other are distinct and were not held.\<close>

lemma alloc_list_fresh:
  assumes "holds L s" and "alloc_list sz n ps s = Some (qs, s')"
  shows "\<exists>new. qs = new @ ps \<and> length new = n \<and> distinct new \<and> set new \<inter> held L = {} \<and> 0 \<notin> set new \<and>
    holds (L(cls sz := set new \<union> L (cls sz))) s'"
  using assms
proof (induction n arbitrary: L ps s)
  case 0
  then show ?case by (simp del: fun_upd_apply)
next
  case (Suc n)
  then obtain p s1 where p: "alloc sz s = Some (p, s1)" "alloc_list sz n (p # ps) s1 = Some (qs, s')"
    by (auto split: bind_splits)
  let ?L = "L(cls sz := insert p (L (cls sz)))"
  from alloc_fresh [OF Suc.prems(1) p(1)] have f: "p \<notin> held L" "p \<noteq> 0" "cls sz < KMMAX" "holds ?L s1" by simp_all
  from Suc.IH [OF f(4) p(2)] obtain new where new: "qs = new @ p # ps" "length new = n" "distinct new"
    "set new \<inter> held ?L = {}" "0 \<notin> set new" "holds (?L(cls sz := set new \<union> ?L (cls sz))) s'" by blast
  then have "p \<notin> set new" "set new \<inter> held L = {}" using held_insert [OF f(3), of L p] by auto
  moreover have "?L(cls sz := set new \<union> ?L (cls sz)) = L(cls sz := set (new @ [p]) \<union> L (cls sz))" by simp
  ultimately show ?case using new f by (intro exI [of _ "new @ [p]"]) (simp del: fun_upd_apply)
qed

lemma free_all_held:
  assumes "holds L s" and "distinct ps" and "set ps \<subseteq> L (cls sz)" and "free_all sz ps s = Some s'"
  shows "holds (L(cls sz := L (cls sz) - set ps)) s'"
  using assms
proof (induction ps arbitrary: L s)
  case Nil
  then show ?case by (simp del: fun_upd_apply)
next
  case (Cons p ps)
  then obtain s1 where s1: "free sz p s = Some s1" "free_all sz ps s1 = Some s'" by (auto split: bind_splits)
  let ?L = "L(cls sz := L (cls sz) - {p})"
  have "holds ?L s1" using free_held [OF Cons.prems(1) _ s1(1)] Cons.prems(3) by simp
  moreover have "distinct ps" "set ps \<subseteq> ?L (cls sz)" using Cons.prems(2,3) by auto
  ultimately have "holds (?L(cls sz := ?L (cls sz) - set ps)) s'" using Cons.IH s1(2) by blast
  moreover have "?L(cls sz := ?L (cls sz) - set ps) = L(cls sz := L (cls sz) - set (p # ps))" by (simp add: set_diff_eq conj_ac)
  ultimately show ?case by (simp only:)
qed

end

interpretation kh: block_heap kmalloc kfree "\<lambda>L s. kheap L A (km s)" "\<lambda>sz. size_map ! sz" blocks for A
proof (unfold_locales, goal_cases)
  case (1 L s sz a s')
  then obtain m where m: "kmallocB sz (km s) = Some (a, m)" "s' = s\<lparr>km := m\<rparr>"
    by (auto simp: kmalloc_def split: bind_splits)
  then have "size_map ! sz < KMMAX" by (simp add: kmallocB_def size_map_less split: if_splits)
  with kheap_alloc [OF 1(1) m(1)] m(2) show ?case by simp
next
  case (2 L s a sz s')
  then obtain m where m: "kfreeB sz a (km s) = Some m" "s' = s\<lparr>km := m\<rparr>"
    by (auto simp: kfree_def split: bind_splits)
  with kheap_free [OF 2(1,2) m(1)] show ?case by simp
next
  case (3 c L a)
  then show ?case by (auto simp: blocks_def split: if_splits)
qed

lemma alloc_phys_pages_list: "alloc_phys_pages n ps s = kh.alloc_list sizeof_phys_page n ps s"
  by (induction n arbitrary: ps s) simp_all

lemma size_map_objects [simp]:
  "size_map ! 28 = KM32" "size_map ! 32 = KM32" "size_map ! 84 = KM96" "size_map ! 100 = KM128"
  by (simp_all add: size_map_nth)

section \<open>What the operations do to the heap\<close>

lemma mem_ok_km [simp]: "mem_ok L A (s\<lparr>km := m\<rparr>) \<longleftrightarrow> kheap L A m \<and> nodes_ok (L KM16) (klists s)"
  by (simp add: mem_ok_def)

lemma kmalloc_mem:
  assumes "mem_ok L A s" and "kmalloc sz s = Some (a, s')"
  shows "\<exists>m. s' = s\<lparr>km := m\<rparr> \<and> a \<notin> blocks L \<and> 1 < a \<and> mem_ok (L(size_map ! sz := insert a (L (size_map ! sz)))) A s'"
proof -
  obtain m where m: "kmallocB sz (km s) = Some (a, m)" "s' = s\<lparr>km := m\<rparr>"
    using assms(2) by (auto simp: kmalloc_def split: bind_splits)
  with kheap_alloc [OF _ m(1)] assms(1) show ?thesis
    by (auto simp: mem_ok_def intro: nodes_ok_mono)
qed

lemma kfree_mem:
  assumes "mem_ok L A s" and "a \<in> L (size_map ! sz)" and "size_map ! sz \<noteq> KM16" and "kfree sz a s = Some s'"
  shows "\<exists>m. s' = s\<lparr>km := m\<rparr> \<and> mem_ok (L(size_map ! sz := L (size_map ! sz) - {a})) A s'"
proof -
  obtain m where m: "kfreeB sz a (km s) = Some m" "s' = s\<lparr>km := m\<rparr>"
    using assms(4) by (auto simp: kfree_def split: bind_splits)
  have "kheap L A (km s)" using assms(1) by (simp add: mem_ok_def)
  from kheap_free [OF this assms(2) m(1)] m(2) assms(1,3) show ?thesis by (intro exI [of _ m]) (simp add: mem_ok_def)
qed

text \<open>Adding to and removing from one of the kernel's lists.\<close>

lemma mem_ok_add:
  assumes "mem_ok L A s" and "kl_add_tail d (klists s l) (km s) = Some (xs, m)"
    and "km s' = m" and "klists s' = (klists s)(l := xs)"
  shows "\<exists>n L'. xs = klists s l @ [(n, d)] \<and> mem_ok L' A s' \<and> nodes_only L L'"
  using kl_add_tail_ok [of L A "km s" "klists s" d l xs m] assms unfolding mem_ok_def by auto

lemma mem_ok_remove:
  assumes "mem_ok L A s" and "kl_remove d (klists s l) (km s) = Some (e, xs, m)"
    and "km s' = m" and "klists s' = (klists s)(l := xs)"
  shows "\<exists>L'. mem_ok L' A s' \<and> nodes_only L L'"
  using kl_remove_ok [of L A "km s" "klists s" d l e xs m] assms unfolding mem_ok_def by auto

lemma link_pgroup_mem:
  assumes "mem_ok L A s" and "link_pgroup pg ar s = Some s'"
  shows "\<exists>n m L'. s' = upd_pgroup pg (\<lambda>x. x\<lparr>pg_areas := pg_areas x @ [(n, ar)]\<rparr>) (s\<lparr>km := m\<rparr>) \<and>
    mem_ok L' A s' \<and> nodes_only L L'"
proof -
  obtain l m where l: "kl_add_tail ar (klists s (GroupOf pg)) (km s) = Some (l, m)"
    "s' = upd_pgroup pg (\<lambda>x. x\<lparr>pg_areas := l\<rparr>) (s\<lparr>km := m\<rparr>)"
    using assms(2) by (auto simp: link_pgroup_def split: bind_splits)
  have "km s' = m" "klists s' = (klists s)(GroupOf pg := l)" by (simp_all add: l(2) klists_group)
  from mem_ok_add [OF assms(1) l(1) this] l(2) show ?thesis by (auto simp: upd_defs)
qed

lemma link_aspace_mem:
  assumes "mem_ok L A s" and "link_aspace a ar s = Some s'"
  shows "\<exists>n m L'. s' = upd_aspace a (\<lambda>x. x\<lparr>areas := areas x @ [(n, ar)]\<rparr>) (s\<lparr>km := m\<rparr>) \<and>
    mem_ok L' A s' \<and> nodes_only L L'"
proof -
  obtain l m where l: "kl_add_tail ar (klists s (AreasOf a)) (km s) = Some (l, m)"
    "s' = upd_aspace a (\<lambda>x. x\<lparr>areas := l\<rparr>) (s\<lparr>km := m\<rparr>)"
    using assms(2) by (auto simp: link_aspace_def split: bind_splits)
  have "km s' = m" "klists s' = (klists s)(AreasOf a := l)" by (simp_all add: l(2) klists_space)
  from mem_ok_add [OF assms(1) l(1) this] l(2) show ?thesis by (auto simp: upd_defs)
qed

text \<open>The parts of the state that describe address spaces.\<close>

definition same_vm :: "kstate \<Rightarrow> kstate \<Rightarrow> bool" where
  "same_vm s s' \<longleftrightarrow> pgroups s' = pgroups s \<and> area_st s' = area_st s \<and> aspaces s' = aspaces s"

lemma same_vm_refl [simp]: "same_vm s s" by (simp add: same_vm_def)

lemma wake_all_frame:
  assumes "wake_all r s = Some s'"
  shows "same_vm s s' \<and> km s' = km s \<and> teams s' = teams s \<and> resource_list s' = resource_list s \<and>
    (\<forall>x. rtype (rsrcs s' x) = rtype (rsrcs s x))" (is "?P r s s'")
proof (rule wake_all.raw_induct [where P = ?P, rotated])
  show "wake_all r s = Some s'" by (rule assms)
next
  fix f r s s'
  assume IH: "\<And>r s s'. f r s = Some s' \<Longrightarrow> ?P r s s'"
    and w: "(let (t, s1) = queue_detach_head r s in if t = 0 then Some s1 else f r (task_wake t ERR_RESOURCE s1)) = Some s'"
  obtain t s1 where q: "queue_detach_head r s = (t, s1)" by (cases "queue_detach_head r s")
  have f: "?P r s s1"
    using q by (auto simp: queue_detach_head_def same_vm_def upd_rsrc_def split: list.splits)
  show "?P r s s'"
  proof (cases "t = 0")
    case True
    with w q f show ?thesis by simp
  next
    case False
    with w q have "?P r (task_wake t ERR_RESOURCE s1) s'" by (intro IH) simp
    moreover have "?P r s1 (task_wake t ERR_RESOURCE s1)" by (simp add: task_wake_eq same_vm_def)
    ultimately show ?thesis using f by (simp add: same_vm_def)
  qed
qed

lemma klists_cong:
  "aspaces s' = aspaces s \<Longrightarrow> pgroups s' = pgroups s \<Longrightarrow> teams s' = teams s \<Longrightarrow>
   resource_list s' = resource_list s \<Longrightarrow> klists s' = klists s"
  by (rule ext, case_tac x) simp_all

lemma klists_team:
  "aspaces s' = aspaces s \<Longrightarrow> pgroups s' = pgroups s \<Longrightarrow>
   teams s' = (teams s)(t := (teams s t)\<lparr>resources := l\<rparr>) \<Longrightarrow>
   resource_list s' = resource_list s \<Longrightarrow> klists s' = (klists s)(TeamOf t := l)"
  by (rule ext, case_tac x) simp_all

lemma mem_ok_cong: "mem_ok L A s \<Longrightarrow> km s' = km s \<Longrightarrow> klists s' = klists s \<Longrightarrow> mem_ok L A s'"
  by (simp add: mem_ok_def)

lemma bind_eqE:
  assumes "Option.bind m f = Some y"
  obtains x where "m = Some x" and "f x = Some y"
  using assms by (cases m) auto

lemma rsrc_bind_mem:
  assumes h: "mem_ok L A s" and b: "rsrc_bind r ty ow s = Some s'"
  shows "same_vm s s' \<and> (\<exists>L'. mem_ok L' A s' \<and> nodes_only L L') \<and>
    (\<forall>x. rtype (rsrcs s' x) = (if x = r then ty else rtype (rsrcs s x)))"
proof -
  obtain i s0 where i: "take_id s = Some (i, s0)" using b by (auto simp: rsrc_bind_def split: bind_splits)
  define s1 where "s1 = upd_rsrc r (\<lambda>x. x\<lparr>rid := i, rtype := ty, rowner := ow, rname := [],
    rqueue := [], rights := []\<rparr>) (s0\<lparr>rmap_resource := (rmap_resource s0)(i := r)\<rparr>)"
  have s0: "s0 = s\<lparr>rfree := rmap_next s (rfree s)\<rparr>" using i by (auto simp: take_id_def split: if_splits)
  have f1: "same_vm s s1" "km s1 = km s" "teams s1 = teams s" "resource_list s1 = resource_list s"
    "\<forall>x. rtype (rsrcs s1 x) = (if x = r then ty else rtype (rsrcs s x))"
    by (simp_all add: s1_def s0 same_vm_def upd_rsrc_def)
  have h1: "mem_ok L A s1" by (rule mem_ok_cong [OF h f1(2) klists_cong]) (use f1 in \<open>simp_all add: same_vm_def\<close>)
  obtain s2 where s2: "(if ow \<noteq> 0 then do {
             (l, m) \<leftarrow> kl_add_tail r (resources (teams s1 ow)) (km s1);
             Some (upd_team ow (\<lambda>t. t\<lparr>resources := l\<rparr>) (s1\<lparr>km := m\<rparr>)) } else Some s1) = Some s2"
    and s': "do { (l, m) \<leftarrow> kl_add_tail r (resource_list s2) (km s2); Some (s2\<lparr>resource_list := l, km := m\<rparr>) } = Some s'"
    using b unfolding rsrc_bind_def Let_def i bind.bind_lunit prod.case s1_def [symmetric]
    by (erule bind_eqE)
  have "same_vm s1 s2 \<and> rsrcs s2 = rsrcs s1 \<and> (\<exists>L1. mem_ok L1 A s2 \<and> nodes_only L L1)"
  proof (cases "ow = 0")
    case True
    then show ?thesis using s2 h1 by auto
  next
    case False
    then obtain l m where l: "kl_add_tail r (klists s1 (TeamOf ow)) (km s1) = Some (l, m)"
      "s2 = upd_team ow (\<lambda>t. t\<lparr>resources := l\<rparr>) (s1\<lparr>km := m\<rparr>)" using s2 by (auto split: bind_splits)
    then have "km s2 = m" "klists s2 = (klists s1)(TeamOf ow := l)"
      by (simp add: upd_team_def) (rule klists_team, simp_all add: l(2) upd_team_def)
    from mem_ok_add [OF h1 l(1) this] show ?thesis by (auto simp: l(2) upd_team_def same_vm_def)
  qed
  then obtain L1 where L1: "same_vm s1 s2" "rsrcs s2 = rsrcs s1" "mem_ok L1 A s2" "nodes_only L L1" by blast
  obtain l m where l: "kl_add_tail r (klists s2 AllRes) (km s2) = Some (l, m)" "s' = s2\<lparr>resource_list := l, km := m\<rparr>"
    using s' by (auto split: bind_splits)
  have "km s' = m" "klists s' = (klists s2)(AllRes := l)" by (simp_all add: l(2))
  from mem_ok_add [OF L1(3) l(1) this] obtain L' where "mem_ok L' A s'" "nodes_only L1 L'" by blast
  then show ?thesis using L1 f1 nodes_only_trans [OF L1(4)] by (auto simp: l(2) same_vm_def)
qed


lemma rsrc_release_mem:
  assumes h: "mem_ok L A s" and b: "rsrc_release r s = Some s'"
  shows "same_vm s s' \<and> (\<exists>L'. mem_ok L' A s' \<and> nodes_only L L') \<and>
    (\<forall>x. rtype (rsrcs s' x) = (if x = r then RSRC_NONE else rtype (rsrcs s x)))"
proof -
  define ow where "ow = rowner (rsrcs s r)"
  obtain s1 where s1: "(if ow \<noteq> 0 then do {
             (e, l, m) \<leftarrow> kl_remove r (resources (teams s ow)) (km s);
             Some (upd_team ow (\<lambda>t. t\<lparr>resources := l\<rparr>) (s\<lparr>km := m\<rparr>)) } else Some s) = Some s1"
    and r: "do { (e, l, m) \<leftarrow> kl_remove r (resource_list s1) (km s1); s2 \<leftarrow> wake_all r (s1\<lparr>resource_list := l, km := m\<rparr>);
      Some (give_id (rid (rsrcs s r)) (upd_rsrc r (\<lambda>x. x\<lparr>rtype := RSRC_NONE, rid := 0\<rparr>) s2)) } = Some s'"
    using b unfolding rsrc_release_def Let_def ow_def [symmetric] by (erule bind_eqE)
  have "same_vm s s1 \<and> rsrcs s1 = rsrcs s \<and> (\<exists>L1. mem_ok L1 A s1 \<and> nodes_only L L1)"
  proof (cases "ow = 0")
    case True
    then show ?thesis using s1 h by auto
  next
    case False
    then obtain e l m where l: "kl_remove r (klists s (TeamOf ow)) (km s) = Some (e, l, m)"
      "s1 = upd_team ow (\<lambda>t. t\<lparr>resources := l\<rparr>) (s\<lparr>km := m\<rparr>)" using s1 by (auto split: bind_splits)
    then have "km s1 = m" "klists s1 = (klists s)(TeamOf ow := l)"
      by (simp add: upd_team_def) (rule klists_team, simp_all add: l(2) upd_team_def)
    from mem_ok_remove [OF h l(1) this] show ?thesis by (auto simp: l(2) upd_team_def same_vm_def)
  qed
  then obtain L1 where L1: "same_vm s s1" "rsrcs s1 = rsrcs s" "mem_ok L1 A s1" "nodes_only L L1" by blast
  obtain e l m s2 where l: "kl_remove r (klists s1 AllRes) (km s1) = Some (e, l, m)"
    and w: "wake_all r (s1\<lparr>resource_list := l, km := m\<rparr>) = Some s2"
    and s': "s' = give_id (rid (rsrcs s r)) (upd_rsrc r (\<lambda>x. x\<lparr>rtype := RSRC_NONE, rid := 0\<rparr>) s2)"
    using r by (auto split: bind_splits)
  have "km (s1\<lparr>resource_list := l, km := m\<rparr>) = m" "klists (s1\<lparr>resource_list := l, km := m\<rparr>) = (klists s1)(AllRes := l)"
    by simp_all
  from mem_ok_remove [OF L1(3) l this] obtain L' where L': "mem_ok L' A (s1\<lparr>resource_list := l, km := m\<rparr>)" "nodes_only L1 L'"
    by blast
  note f = wake_all_frame [OF w]
  have "mem_ok L' A s'"
    by (rule mem_ok_cong [OF L'(1) _ klists_cong]) (use f in \<open>simp_all add: s' give_id_def upd_rsrc_def same_vm_def\<close>)
  then show ?thesis using L1 L'(2) f nodes_only_trans [OF L1(4)]
    by (auto simp: s' give_id_def upd_rsrc_def same_vm_def)
qed

section \<open>Page tables\<close>

text \<open>\<open>map_range t at ps\<close>: the table \<open>t\<close> with the pages \<open>ps\<close> mapped from entry \<open>at\<close> on.\<close>

definition map_range :: "(nat \<Rightarrow> nat) \<Rightarrow> nat \<Rightarrow> nat list \<Rightarrow> nat \<Rightarrow> nat" where
  "map_range t at ps i = (if at \<le> i \<and> i < at + length ps then pte (ps ! (i - at)) 7 else t i)"

definition clear_range :: "(nat \<Rightarrow> nat) \<Rightarrow> nat \<Rightarrow> nat \<Rightarrow> nat \<Rightarrow> nat" where
  "clear_range t at n i = (if at \<le> i \<and> i < at + n then 0 else t i)"

lemma map_range_Nil [simp]: "map_range t at [] = t"
  by (rule ext) (simp add: map_range_def)

lemma map_range_Cons: "map_range (t(at := pte p 7)) (Suc at) ps = map_range t at (p # ps)"
  by (rule ext) (auto simp: map_range_def nth_Cons' Suc_le_eq)

lemma clear_range_0 [simp]: "clear_range t at 0 = t"
  by (rule ext) (simp add: clear_range_def)

lemma clear_range_Suc: "clear_range (t(at := 0)) (Suc at) n = clear_range t at (Suc n)"
  by (rule ext) (auto simp: clear_range_def Suc_le_eq)

definition set_ptab :: "nat \<Rightarrow> (nat \<Rightarrow> nat) \<Rightarrow> kstate \<Rightarrow> kstate" where
  "set_ptab a t s = upd_aspace a (\<lambda>x. x\<lparr>ptab := t\<rparr>) s"

lemma set_ptab_fields [simp]:
  "ptab (aspaces (set_ptab a t s) a) = t" "set_ptab a t' (set_ptab a t s) = set_ptab a t' s"
  "set_ptab a (ptab (aspaces s a)) s = s" "km (set_ptab a t s) = km s"
  "(set_ptab a t s)\<lparr>km := m\<rparr> = set_ptab a t (s\<lparr>km := m\<rparr>)"
  "set_ptab a (ptab (aspaces s a)) (s\<lparr>km := m\<rparr>) = s\<lparr>km := m\<rparr>"
  by (simp_all add: set_ptab_def upd_aspace_def)

lemma klists_set_ptab [simp]: "klists (set_ptab a t s) = klists s"
  by (rule ext, case_tac x) (simp_all add: set_ptab_def upd_aspace_def)

lemma mem_ok_set_ptab [simp]: "mem_ok L A (set_ptab a t s) = mem_ok L A s"
  by (simp add: mem_ok_def)

lemma aspace_map_one: "aspace_map (Suc 0) a p at 7 s = Some s' \<longleftrightarrow>
    at < 1024 \<and> s' = set_ptab a ((ptab (aspaces s a))(at := pte p 7)) s"
  by (auto simp: set_pte_def set_ptab_def upd_aspace_def)

declare aspace_map.simps [simp del]

lemma area_pages_phys:
  assumes "area_pages n a p at flgs s = Some (ps, s')" and "flgs AND AREA_PHYSMAP \<noteq> 0"
  shows "length ps = n \<and> (0 < n \<longrightarrow> at + n \<le> 1024) \<and> s' = set_ptab a (map_range (ptab (aspaces s a)) at ps) s"
  using assms
proof (induction n arbitrary: p at s ps)
  case 0
  then show ?case by simp
next
  case (Suc n)
  from Suc.prems obtain s1 qs where m: "aspace_map (Suc 0) a p at 7 s = Some s1"
    "area_pages n a (p + 1) (at + 1) flgs s1 = Some (qs, s')" "ps = p # qs"
    by (auto split: bind_splits)
  from Suc.IH [OF m(2) Suc.prems(2)] m(1,3) show ?case
    by (auto simp: aspace_map_one map_range_Cons [symmetric] simp del: fun_upd_apply)
qed

lemma area_pages_fresh:
  assumes "area_pages n a p at flgs s = Some (ps, s')" and "flgs AND AREA_PHYSMAP = 0" and "mem_ok L A s"
  shows "length ps = n \<and> (0 < n \<longrightarrow> at + n \<le> 1024) \<and> distinct ps \<and> set ps \<subseteq> A \<and> 0 \<notin> set ps \<and>
    mem_ok L (A - set ps) s' \<and> (\<exists>m. s' = set_ptab a (map_range (ptab (aspaces s a)) at ps) (s\<lparr>km := m\<rparr>))"
  using assms
proof (induction n arbitrary: p at s ps A)
  case 0
  then show ?case by (auto intro: exI [of _ "km s"])
next
  case (Suc n)
  from Suc.prems(1,2) obtain q m s1 qs where q: "getpage (km s) = Some (q, m)"
    "aspace_map (Suc 0) a q at 7 (s\<lparr>km := m\<rparr>) = Some s1"
    "area_pages n a (q + 1) (at + 1) flgs s1 = Some (qs, s')" "ps = q # qs"
    by (auto split: bind_splits)
  have s1: "at < 1024" "s1 = set_ptab a ((ptab (aspaces s a))(at := pte q 7)) (s\<lparr>km := m\<rparr>)"
    using q(2) by (simp_all add: aspace_map_one)
  from kheap_getpage [OF _ q(1)] Suc.prems(3) have g: "q \<in> A" "q \<noteq> 0" "kheap L (A - {q}) m"
    by (auto simp: mem_ok_def)
  have "mem_ok L (A - {q}) s1" using g(3) Suc.prems(3) by (simp add: s1(2) mem_ok_def)
  note IH = Suc.IH [OF q(3) Suc.prems(2) this]
  then obtain m' where "s' = set_ptab a (map_range (ptab (aspaces s1 a)) (at + 1) qs) (s1\<lparr>km := m'\<rparr>)" by blast
  then have "s' = set_ptab a (map_range (ptab (aspaces s a)) at ps) (s\<lparr>km := m'\<rparr>)"
    by (simp add: s1(2) map_range_Cons [symmetric] q(4) del: fun_upd_apply)
  moreover have "A - {q} - set qs = A - set ps" by (auto simp: q(4))
  moreover have "0 < Suc n \<longrightarrow> at + Suc n \<le> 1024" using IH s1(1) by (cases n) auto
  ultimately show ?case using IH g q(4) by auto
qed

lemma map_pages_ok:
  "map_pages n ps a at s = Some s' \<Longrightarrow> n \<le> length ps \<and> (0 < n \<longrightarrow> at + n \<le> 1024) \<and>
    s' = set_ptab a (map_range (ptab (aspaces s a)) at (take n ps)) s"
proof (induction n arbitrary: ps at s)
  case 0
  then show ?case by simp
next
  case (Suc n)
  then obtain p qs s1 where q: "ps = p # qs" "aspace_map (Suc 0) a p at 7 s = Some s1" "map_pages n qs a (at + 1) s1 = Some s'"
    by (auto split: bind_splits list.splits)
  from Suc.IH [OF q(3)] q(1,2) show ?case
    by (auto simp: aspace_map_one map_range_Cons [symmetric] simp del: fun_upd_apply)
qed

lemma aspace_clr_ok:
  "aspace_clr n a v s = Some s' \<Longrightarrow> s' = set_ptab a (clear_range (ptab (aspaces s a)) v n) s"
proof (induction n arbitrary: v s)
  case 0
  then show ?case by simp
next
  case (Suc n)
  then obtain s1 where q: "s1 = set_ptab a ((ptab (aspaces s a))(v := 0)) s" "aspace_clr n a (v + 1) s1 = Some s'"
    by (auto simp: set_pte_def set_ptab_def upd_aspace_def split: bind_splits if_splits)
  from Suc.IH [OF q(2)] q(1) show ?case by (simp add: clear_range_Suc [symmetric] del: fun_upd_apply)
qed

lemma locate_loop_free:
  assumes "if found = 0 then foundat = 0 else foundat + found = start \<and> (\<forall>i. foundat \<le> i \<longrightarrow> i < start \<longrightarrow> tab i = 0)"
    and "found \<le> len" and "r = locate_loop tab start len found foundat" and "r \<noteq> 0"
    and "r \<le> i" and "i < r + len" and "i < 1024"
  shows "tab i = 0"
  using assms
proof (induction tab start len found foundat rule: locate_loop.induct)
  case (1 tab start len found foundat)
  show ?case
  proof (cases "found < len \<and> start < 1024")
    case True
    show ?thesis
    proof (cases "tab start = 0")
      case False
      with True 1(1) [OF True False] "1.prems" show ?thesis by (simp add: locate_loop.simps [of tab start])
    next
      case z: True
      have r: "r = locate_loop tab (start + 1) len (found + 1) (if found = 0 then start else foundat)"
        using True z "1.prems"(3) by (simp add: locate_loop.simps [of tab start])
      show ?thesis
      proof (rule 1(2) [OF True _ _ _ r "1.prems"(4-7)])
        show "\<not> tab start \<noteq> 0" using z by simp
        show "found + 1 \<le> len" using True by simp
        show "if found + 1 = 0 then (if found = 0 then start else foundat) = 0
          else (if found = 0 then start else foundat) + (found + 1) = start + 1 \<and>
            (\<forall>i. (if found = 0 then start else foundat) \<le> i \<longrightarrow> i < start + 1 \<longrightarrow> tab i = 0)"
          using "1.prems"(1) z by (auto simp: less_Suc_eq split: if_splits)
      qed
    qed
  next
    case False
    then have "locate_loop tab start len found foundat = foundat" by (subst locate_loop.simps) (simp only: if_False)
    then have "r = foundat" using "1.prems"(3) by simp
    with False "1.prems" show ?thesis by (auto split: if_splits)
  qed
qed

lemma locate_span_free:
  assumes "at = locate_span a v n s" and "at \<noteq> 0" and "at \<le> i" and "i < at + n" and "i < 1024"
  shows "ptab (aspaces s a) i = 0"
  using locate_loop_free [of 0 0 "if v < 1 \<or> v > 1023 then 512 else v" "ptab (aspaces s a)" n at i] assms
  by (auto simp: locate_span_def)

lemma fold_putpage:
  assumes "kheap L A m" and "distinct ps" and "set ps \<inter> A = {}" and "0 \<notin> set ps"
  shows "kheap L (A \<union> set ps) (fold putpage ps m)"
  using assms
proof (induction ps arbitrary: A m)
  case Nil
  then show ?case by simp
next
  case (Cons p ps)
  then have "kheap L (insert p A) (putpage p m)" by (intro kheap_putpage) auto
  from Cons.IH [OF this] Cons.prems show ?case by auto
qed

lemma take_6: "length as = 6 \<Longrightarrow> take sz (as @ bs) = take (min sz 6) as @ take (sz - 6) bs"
  by (simp add: min_def)

lemma release_pages_ok:
  assumes "release_pages rel sz pps s = Some s'" and "mem_ok L A s"
    and "distinct (map fst pps)" and "fst ` set pps \<subseteq> L KM32" and "\<forall>q \<in> set pps. length (snd q) = 6"
    and "rel \<Longrightarrow> distinct (take sz (concat (map snd pps))) \<and> set (take sz (concat (map snd pps))) \<inter> A = {} \<and>
      0 \<notin> set (take sz (concat (map snd pps)))"
  shows "\<exists>m. s' = s\<lparr>km := m\<rparr> \<and> mem_ok (L(KM32 := L KM32 - fst ` set pps))
    (if rel then A \<union> set (take sz (concat (map snd pps))) else A) s'"
  using assms
proof (induction rel sz pps s arbitrary: L A rule: release_pages.induct)
  case (1 rel sz s)
  then show ?case by (simp del: fun_upd_apply) (intro exI [of _ "km s"], simp)
next
  case (2 rel sz pp addrs pps s)
  let ?t = "take (min sz 6) addrs" and ?s1 = "if rel then s\<lparr>km := fold putpage (take (min sz 6) addrs) (km s)\<rparr> else s"
  let ?A = "if rel then A \<union> set ?t else A" and ?L = "L(KM32 := L KM32 - {pp})"
  let ?sz = "if rel then sz - 6 else sz" and ?c = "concat (map snd pps)"
  have l6: "length addrs = 6" using "2.prems"(5) by simp
  obtain s2 where s2: "kfree sizeof_phys_page pp ?s1 = Some s2" "release_pages rel ?sz pps s2 = Some s'"
    using "2.prems"(1) by (auto simp: Let_def split: bind_split_asm)
  have tk: "take sz (concat (map snd ((pp, addrs) # pps))) = ?t @ take (sz - 6) ?c"
    by (simp only: list.map snd_conv concat.simps take_6 [OF l6])
  have sp: "rel \<Longrightarrow> distinct (?t @ take (sz - 6) ?c) \<and> set (?t @ take (sz - 6) ?c) \<inter> A = {} \<and> 0 \<notin> set (?t @ take (sz - 6) ?c)"
    by (rule "2.prems"(6) [unfolded tk])
  have "mem_ok L ?A ?s1"
    using "2.prems"(2) fold_putpage [of L A "km s" ?t] sp by (auto simp: mem_ok_def)
  from kfree_mem [OF this _ _ s2(1)] "2.prems"(4) obtain m2 where m2: "s2 = ?s1\<lparr>km := m2\<rparr>" "mem_ok ?L ?A s2" by auto
  have "\<exists>m. s' = s2\<lparr>km := m\<rparr> \<and> mem_ok (?L(KM32 := ?L KM32 - fst ` set pps)) (if rel then ?A \<union> set (take ?sz ?c) else ?A) s'"
  proof (rule "2.IH" [OF refl s2(1,2) m2(2)])
    show "distinct (map fst pps)" "\<forall>q \<in> set pps. length (snd q) = 6" using "2.prems"(3,5) by simp_all
    show "fst ` set pps \<subseteq> ?L KM32" using "2.prems"(3,4) by auto
    show "distinct (take ?sz ?c) \<and> set (take ?sz ?c) \<inter> ?A = {} \<and> 0 \<notin> set (take ?sz ?c)" if rel
      using sp [OF that] that by auto
  qed
  then obtain m where m: "s' = s2\<lparr>km := m\<rparr>" "mem_ok (?L(KM32 := ?L KM32 - fst ` set pps)) (if rel then ?A \<union> set (take ?sz ?c) else ?A) s'"
    by blast
  have "?L(KM32 := ?L KM32 - fst ` set pps) = L(KM32 := L KM32 - fst ` set ((pp, addrs) # pps))" by (simp add: set_diff_eq conj_ac)
  moreover have "(if rel then ?A \<union> set (take ?sz ?c) else ?A) = (if rel then A \<union> set (take sz (concat (map snd ((pp, addrs) # pps)))) else A)"
    unfolding tk by (simp add: Un_assoc)
  moreover have "s' = s\<lparr>km := m\<rparr>" using m(1) m2(1) by simp
  ultimately show ?case using m(2) by (intro exI [of _ m]) (simp del: fun_upd_apply)
qed

end
