(* ===== verification/VmGroup.thy ===== *)
theory VmGroup
  imports KHeap
begin

text \<open>
  Page groups, areas and page tables as plain data: who owns which frame, which area is mapped
  where, and how this changes when an area is added or removed.
\<close>

section \<open>Page groups, areas and tables\<close>

lemma pte_flags: "7 AND (0xFFF :: nat) = 7"
  by simp

lemma pte_nz: "pte p 7 \<noteq> 0"
proof
  assume "pte p 7 = 0"
  moreover have "bit (x OR 7 :: nat) 0" for x by (simp add: bit_or_iff)
  ultimately have "bit (0 :: nat) 0" unfolding pte_def pte_flags by metis
  then show False by simp
qed

lemma pte_frame:
  assumes p: "p < 0x100000"
  shows "pte p 7 div 4096 = p"
proof -
  have "push_bit 12 (mask 20 :: nat) = 0xFFFFF000" by (simp add: push_bit_eq_mult mask_eq_exp_minus_1)
  moreover have "p * 4096 = push_bit 12 p" by (simp add: push_bit_eq_mult)
  ultimately have "p * 4096 AND 0xFFFFF000 = push_bit 12 (p AND mask 20)" by (metis push_bit_and)
  also have "p AND mask 20 = take_bit 20 p" by (simp only: take_bit_eq_mask)
  also have "\<dots> = p" using p by (simp add: take_bit_nat_eq_self_iff)
  finally have "pte p 7 = push_bit 12 p OR 7" by (simp only: pte_def pte_flags)
  moreover have dp: "drop_bit 12 (push_bit 12 p) = p" by (simp add: drop_bit_eq_div push_bit_eq_mult)
  ultimately have "drop_bit 12 (pte p 7) = p OR drop_bit 12 7" by (simp only: drop_bit_or dp)
  moreover have "drop_bit 12 (7 :: nat) = 0" by (simp add: drop_bit_eq_div)
  ultimately show ?thesis by (simp add: drop_bit_eq_div)
qed

text \<open>A private group holds frames of the allocator; the pages of the others are mapped hardware.\<close>

definition owns_frames :: "pagegroup_t \<Rightarrow> bool" where
  "owns_frames x \<longleftrightarrow> pg_flags x AND AREA_PHYSMAP = 0"

definition frames :: "pagegroup_t \<Rightarrow> nat list" where
  "frames x = (if owns_frames x then take (pg_size x) (group_pages x) else [])"

definition gblocks :: "nat \<Rightarrow> pagegroup_t \<Rightarrow> nat list" where
  "gblocks g x = g # map fst (pg_pages x)"

definition group_ok :: "nat set \<Rightarrow> nat \<Rightarrow> pagegroup_t \<Rightarrow> bool" where
  "group_ok N g x \<longleftrightarrow> distinct (gblocks g x) \<and> set (gblocks g x) \<subseteq> N \<and> distinct (frames x) \<and>
     set (frames x) \<subseteq> {0<..<0x100000} \<and> (\<forall>q \<in> set (pg_pages x). length (snd q) = 6) \<and>
     length (pg_pages x) = (pg_size x + 5) div 6"

lemma concat_6: "\<forall>q \<in> set P. length (snd q) = 6 \<Longrightarrow> length (concat (map snd P)) = 6 * length P"
  by (induction P) auto

lemma group_ok_size: "group_ok N g x \<Longrightarrow> pg_size x \<le> length (group_pages x)"
  using concat_6 [of "pg_pages x"] by (simp add: group_ok_def group_pages_def)

definition groups_ok :: "nat set \<Rightarrow> (nat \<Rightarrow> pagegroup_t) \<Rightarrow> bool" where
  "groups_ok N G \<longleftrightarrow> (\<forall>g. pg_refcount (G g) \<noteq> 0 \<longrightarrow> group_ok N g (G g)) \<and>
     (\<forall>g h. g \<noteq> h \<longrightarrow> pg_refcount (G g) \<noteq> 0 \<longrightarrow> pg_refcount (G h) \<noteq> 0 \<longrightarrow>
        set (gblocks g (G g)) \<inter> set (gblocks h (G h)) = {} \<and> set (frames (G g)) \<inter> set (frames (G h)) = {})"

definition in_use :: "(nat \<Rightarrow> pagegroup_t) \<Rightarrow> nat set" where
  "in_use G = (\<Union>g \<in> {g. pg_refcount (G g) \<noteq> 0}. set (frames (G g)))"

lemma in_use_iff: "p \<in> in_use G \<longleftrightarrow> (\<exists>g. pg_refcount (G g) \<noteq> 0 \<and> p \<in> set (frames (G g)))"
  by (auto simp: in_use_def)

lemma group_ok_mono: "group_ok N g x \<Longrightarrow> N \<subseteq> N' \<Longrightarrow> group_ok N' g x"
  by (auto simp: group_ok_def)

lemma groups_ok_live: "groups_ok N G \<Longrightarrow> pg_refcount (G g) \<noteq> 0 \<Longrightarrow> group_ok N g (G g)"
  by (simp add: groups_ok_def)

lemma groups_ok_new:
  assumes ok: "groups_ok N G" and x: "group_ok N' g x" and N: "N \<subseteq> N'" and b: "set (gblocks g x) \<inter> N = {}"
    and f: "set (frames x) \<inter> in_use G = {}"
  shows "groups_ok N' (G(g := x)) \<and> pg_refcount (G g) = 0"
proof -
  have dead: "pg_refcount (G g) = 0"
    using groups_ok_live [OF ok, of g] b by (auto simp: group_ok_def gblocks_def)
  have 1: "group_ok N' h (G h)" if "pg_refcount (G h) \<noteq> 0" for h
    using groups_ok_live [OF ok that] N by (rule group_ok_mono)
  have 2: "set (gblocks g x) \<inter> set (gblocks h (G h)) = {} \<and> set (frames x) \<inter> set (frames (G h)) = {}"
    if "pg_refcount (G h) \<noteq> 0" for h
  proof
    have "set (gblocks h (G h)) \<subseteq> N" using groups_ok_live [OF ok that] by (simp add: group_ok_def)
    then show "set (gblocks g x) \<inter> set (gblocks h (G h)) = {}" using b by blast
    have "set (frames (G h)) \<subseteq> in_use G" using that by (auto simp: in_use_def)
    then show "set (frames x) \<inter> set (frames (G h)) = {}" using f by blast
  qed
  have 3: "set (gblocks h (G h)) \<inter> set (gblocks k (G k)) = {} \<and> set (frames (G h)) \<inter> set (frames (G k)) = {}"
    if "h \<noteq> k" "pg_refcount (G h) \<noteq> 0" "pg_refcount (G k) \<noteq> 0" for h k
    using ok that by (simp add: groups_ok_def)
  show ?thesis unfolding groups_ok_def
  proof (intro conjI allI impI dead)
    show "group_ok N' h ((G(g := x)) h)" if "pg_refcount ((G(g := x)) h) \<noteq> 0" for h
      using that x 1 by (cases "h = g") simp_all
    fix h k assume hk: "h \<noteq> k" "pg_refcount ((G(g := x)) h) \<noteq> 0" "pg_refcount ((G(g := x)) k) \<noteq> 0"
    show "set (gblocks h ((G(g := x)) h)) \<inter> set (gblocks k ((G(g := x)) k)) = {}"
      using hk 2 [of h] 2 [of k] 3 [of h k] by (cases "h = g"; cases "k = g") (simp_all add: Int_commute)
    show "set (frames ((G(g := x)) h)) \<inter> set (frames ((G(g := x)) k)) = {}"
      using hk 2 [of h] 2 [of k] 3 [of h k] by (cases "h = g"; cases "k = g") (simp_all add: Int_commute)
  qed
qed

lemma in_use_upd: "in_use (G(g := x)) = (if pg_refcount x \<noteq> 0 then set (frames x) else {}) \<union>
    (\<Union>h \<in> {h. pg_refcount (G h) \<noteq> 0} - {g}. set (frames (G h)))"
proof -
  have "{h. pg_refcount ((G(g := x)) h) \<noteq> 0} =
      (if pg_refcount x \<noteq> 0 then {g} else {}) \<union> ({h. pg_refcount (G h) \<noteq> 0} - {g})" by (auto split: if_splits)
  then have "in_use (G(g := x)) = (\<Union>h \<in> (if pg_refcount x \<noteq> 0 then {g} else {}). set (frames ((G(g := x)) h))) \<union>
      (\<Union>h \<in> {h. pg_refcount (G h) \<noteq> 0} - {g}. set (frames ((G(g := x)) h)))"
    unfolding in_use_def by (simp only: UN_Un)
  then show ?thesis by simp
qed

lemma in_use_new: "pg_refcount (G g) = 0 \<Longrightarrow> pg_refcount x \<noteq> 0 \<Longrightarrow> in_use (G(g := x)) = in_use G \<union> set (frames x)"
  unfolding in_use_upd by (auto simp: in_use_def)

lemma same_pages:
  assumes "pg_pages x = pg_pages y" "pg_size x = pg_size y" "pg_flags x = pg_flags y"
  shows "gblocks g x = gblocks g y" "frames x = frames y" "group_ok N g x = group_ok N g y"
  using assms by (auto simp: gblocks_def frames_def owns_frames_def group_pages_def group_ok_def)

text \<open>A change of the areas of a live group.\<close>

lemma groups_ok_ref:
  assumes ok: "groups_ok N G" and l: "pg_refcount (G g) \<noteq> 0"
    and x: "pg_pages x = pg_pages (G g)" "pg_size x = pg_size (G g)" "pg_flags x = pg_flags (G g)"
  shows "groups_ok N (G(g := x))" "pg_refcount x \<noteq> 0 \<Longrightarrow> in_use (G(g := x)) = in_use G"
proof -
  have e: "gblocks h ((G(g := x)) h) = gblocks h (G h)" "frames ((G(g := x)) h) = frames (G h)"
    "group_ok N h ((G(g := x)) h) = group_ok N h (G h)" for h
    using same_pages [OF x] by simp_all
  have r: "pg_refcount ((G(g := x)) h) \<noteq> 0 \<Longrightarrow> pg_refcount (G h) \<noteq> 0" for h using l by (cases "h = g") auto
  show "groups_ok N (G(g := x))"
    unfolding groups_ok_def e using ok r unfolding groups_ok_def by blast
  show "in_use (G(g := x)) = in_use G" if "pg_refcount x \<noteq> 0"
  proof -
    have "{h. pg_refcount ((G(g := x)) h) \<noteq> 0} = {h. pg_refcount (G h) \<noteq> 0}" using that l by (auto split: if_splits)
    then show ?thesis unfolding in_use_def e by simp
  qed
qed

lemma groups_ok_drop:
  assumes ok: "groups_ok N G" and l: "pg_refcount (G g) \<noteq> 0" and x: "pg_refcount x = 0"
  shows "groups_ok (N - set (gblocks g (G g))) (G(g := x))" "in_use (G(g := x)) = in_use G - set (frames (G g))"
proof -
  have r: "pg_refcount ((G(g := x)) h) \<noteq> 0 \<Longrightarrow> h \<noteq> g \<and> pg_refcount (G h) \<noteq> 0" for h using x by (cases "h = g") auto
  have d: "set (gblocks h (G h)) \<inter> set (gblocks k (G k)) = {} \<and> set (frames (G h)) \<inter> set (frames (G k)) = {}"
    if "h \<noteq> k" "pg_refcount (G h) \<noteq> 0" "pg_refcount (G k) \<noteq> 0" for h k
    using ok that by (simp add: groups_ok_def)
  have 1: "group_ok (N - set (gblocks g (G g))) h (G h)" if "h \<noteq> g" "pg_refcount (G h) \<noteq> 0" for h
    using groups_ok_live [OF ok that(2)] d [OF that(1,2) l] by (auto simp: group_ok_def)
  show "groups_ok (N - set (gblocks g (G g))) (G(g := x))"
    unfolding groups_ok_def
  proof (intro conjI allI impI)
    show "group_ok (N - set (gblocks g (G g))) h ((G(g := x)) h)" if "pg_refcount ((G(g := x)) h) \<noteq> 0" for h
      using r [OF that] 1 by simp
    fix h k assume hk: "h \<noteq> k" "pg_refcount ((G(g := x)) h) \<noteq> 0" "pg_refcount ((G(g := x)) k) \<noteq> 0"
    show "set (gblocks h ((G(g := x)) h)) \<inter> set (gblocks k ((G(g := x)) k)) = {}"
      "set (frames ((G(g := x)) h)) \<inter> set (frames ((G(g := x)) k)) = {}"
      using r [OF hk(2)] r [OF hk(3)] d [OF hk(1)] by simp_all
  qed
  have "p \<notin> set (frames (G g))" if "h \<noteq> g" "pg_refcount (G h) \<noteq> 0" "p \<in> set (frames (G h))" for p h
    using d [OF that(1,2) l] that(3) by blast
  then show "in_use (G(g := x)) = in_use G - set (frames (G g))"
    unfolding in_use_upd using x by (auto simp: in_use_def)
qed

text \<open>The areas of a group: \<open>T\<close> tells which areas exist, \<open>R\<close> what they are, \<open>N\<close> are the blocks of
  areas in use.\<close>

definition areas_ok :: "nat set \<Rightarrow> (nat \<Rightarrow> bool) \<Rightarrow> (nat \<Rightarrow> area_t) \<Rightarrow> (nat \<Rightarrow> pagegroup_t) \<Rightarrow> bool" where
  "areas_ok N T R G \<longleftrightarrow>
     (\<forall>r. T r \<longrightarrow> r \<in> N \<and> r \<in> set (map snd (pg_areas (G (pgroup (R r)))))) \<and>
     (\<forall>g. distinct (map snd (pg_areas (G g))) \<and> pg_refcount (G g) = length (pg_areas (G g)) \<and>
        (\<forall>r \<in> set (map snd (pg_areas (G g))). T r \<and> pgroup (R r) = g \<and> 0 < alength (R r) \<and> alength (R r) \<le> pg_size (G g)))"

lemma areas_ok_live: "areas_ok N T R G \<Longrightarrow> T r \<Longrightarrow> pg_refcount (G (pgroup (R r))) \<noteq> 0 \<and>
    0 < alength (R r) \<and> alength (R r) \<le> pg_size (G (pgroup (R r))) \<and> r \<in> N"
  by (auto simp: areas_ok_def)

lemma areas_ok_dead: "areas_ok N T R G \<Longrightarrow> pg_refcount (G g) = 0 \<Longrightarrow> pg_areas (G g) = []"
  by (simp add: areas_ok_def)

lemma areas_ok_add:
  assumes ok: "areas_ok N T R G" and r: "\<not> T r" and N: "N \<subseteq> N'" "r \<in> N'"
    and x: "pg_areas x = pg_areas (G g) @ [(n, r)]" "pg_refcount x = pg_refcount (G g) + 1"
    and sz: "pg_areas (G g) \<noteq> [] \<Longrightarrow> pg_size x = pg_size (G g)"
    and y: "pgroup y = g" "0 < alength y" "alength y \<le> pg_size x"
  shows "areas_ok N' (T(r := True)) (R(r := y)) (G(g := x))"
proof -
  have nr: "r \<notin> set (map snd (pg_areas (G h)))" for h using ok r unfolding areas_ok_def by blast
  have mem: "q \<in> set (map snd (pg_areas (G h))) \<Longrightarrow> T q \<and> pgroup (R q) = h \<and> 0 < alength (R q) \<and> alength (R q) \<le> pg_size (G h)" for q h
    using ok unfolding areas_ok_def by blast
  have T: "T q \<Longrightarrow> q \<in> N \<and> q \<in> set (map snd (pg_areas (G (pgroup (R q)))))" for q
    using ok unfolding areas_ok_def by blast
  have cnt: "distinct (map snd (pg_areas (G h)))" "pg_refcount (G h) = length (pg_areas (G h))" for h
    using ok unfolding areas_ok_def by blast+
  have sub: "set (map snd (pg_areas (G h))) \<subseteq> set (map snd (pg_areas ((G(g := x)) h)))" for h by (auto simp: x)
  show ?thesis unfolding areas_ok_def
  proof (intro conjI allI impI ballI)
    fix q assume q: "(T(r := True)) q"
    show "q \<in> N'" using q N T by (cases "q = r") auto
    show "q \<in> set (map snd (pg_areas ((G(g := x)) (pgroup ((R(r := y)) q)))))"
    proof (cases "q = r")
      case True
      then show ?thesis by (simp add: y x)
    next
      case False
      then have "q \<in> set (map snd (pg_areas (G (pgroup (R q)))))" using q T [of q] by simp
      from subsetD [OF sub this] False show ?thesis by simp
    qed
  next
    fix h
    show "distinct (map snd (pg_areas ((G(g := x)) h)))" using cnt nr [of g] by (simp add: x)
    show "pg_refcount ((G(g := x)) h) = length (pg_areas ((G(g := x)) h))" using cnt by (simp add: x)
    fix q assume q: "q \<in> set (map snd (pg_areas ((G(g := x)) h)))"
    have "q = r \<and> h = g \<or> q \<noteq> r \<and> q \<in> set (map snd (pg_areas (G h)))"
      using q nr [of h] by (cases "h = g") (auto simp: x)
    moreover have "pg_size x = pg_size (G g)" if "q \<in> set (map snd (pg_areas (G g)))" by (rule sz) (use that in auto)
    moreover note mem [of q h]
    ultimately show "(T(r := True)) q" "pgroup ((R(r := y)) q) = h" "0 < alength ((R(r := y)) q)"
      "alength ((R(r := y)) q) \<le> pg_size ((G(g := x)) h)"
      using y by (simp_all del: set_map split: if_splits) (auto simp del: set_map)
  qed
qed

lemma areas_ok_remove:
  assumes ok: "areas_ok N T R G" and r: "r \<in> set (map snd (pg_areas (G g)))"
    and x: "map snd (pg_areas x) = remove1 r (map snd (pg_areas (G g)))" "pg_refcount x = pg_refcount (G g) - 1"
      "pg_size x = pg_size (G g)"
  shows "areas_ok (N - {r}) (T(r := False)) R (G(g := x))"
proof -
  have mem: "q \<in> set (map snd (pg_areas (G h))) \<Longrightarrow> T q \<and> pgroup (R q) = h \<and> 0 < alength (R q) \<and> alength (R q) \<le> pg_size (G h)" for q h
    using ok unfolding areas_ok_def by blast
  have T: "T q \<Longrightarrow> q \<in> N \<and> q \<in> set (map snd (pg_areas (G (pgroup (R q)))))" for q
    using ok unfolding areas_ok_def by blast
  have cnt: "distinct (map snd (pg_areas (G h)))" "pg_refcount (G h) = length (pg_areas (G h))" for h
    using ok unfolding areas_ok_def by blast+
  have s: "set (map snd (pg_areas x)) = set (map snd (pg_areas (G g))) - {r}"
    unfolding x(1) using cnt(1) by (rule set_remove1_eq)
  have "length (pg_areas x) = length (remove1 r (map snd (pg_areas (G g))))" using x(1) by (metis length_map)
  then have l: "pg_refcount x = length (pg_areas x)" using r cnt(2) [of g] x(2) by (simp only: length_remove1 if_True length_map)
  show ?thesis unfolding areas_ok_def
  proof (intro conjI allI impI ballI)
    fix q assume q: "(T(r := False)) q"
    then have "q \<noteq> r" "T q" by (auto split: if_splits)
    then show "q \<in> N - {r}" using T by blast
    show "q \<in> set (map snd (pg_areas ((G(g := x)) (pgroup (R q)))))"
      using \<open>q \<noteq> r\<close> T [OF \<open>T q\<close>] s by (cases "pgroup (R q) = g") auto
  next
    fix h
    show "distinct (map snd (pg_areas ((G(g := x)) h)))" using cnt(1) [of h] cnt(1) [of g] x(1) by (cases "h = g") simp_all
    show "pg_refcount ((G(g := x)) h) = length (pg_areas ((G(g := x)) h))" using cnt(2) l by simp
    fix q assume q: "q \<in> set (map snd (pg_areas ((G(g := x)) h)))"
    have "q \<in> set (map snd (pg_areas (G h))) \<and> q \<noteq> r"
    proof (cases "h = g")
      case True
      then show ?thesis using q s by auto
    next
      case False
      then have "q \<in> set (map snd (pg_areas (G h)))" using q by simp
      then show ?thesis using mem [of q h] mem [OF r] False by auto
    qed
    then show "(T(r := False)) q" "pgroup (R q) = h" "0 < alength (R q)" "alength (R q) \<le> pg_size ((G(g := x)) h)"
      using mem [of q h] x(3) by auto
  qed
qed

text \<open>The page tables: \<open>D a\<close> are the areas of address space \<open>a\<close>, \<open>PT a\<close> is its table, and \<open>P r\<close> the
  pages of the group of area \<open>r\<close>. Every area is mapped where it says, areas do not overlap, an area is
  in one address space only, and nothing else is mapped.\<close>

definition span :: "area_t \<Rightarrow> nat set" where
  "span y = {virt_addr y ..< virt_addr y + alength y}"

definition table_ok :: "(nat \<Rightarrow> bool) \<Rightarrow> (nat \<Rightarrow> area_t) \<Rightarrow> (nat \<Rightarrow> nat list) \<Rightarrow> nat list \<Rightarrow> (nat \<Rightarrow> nat) \<Rightarrow> bool" where
  "table_ok T R P d t \<longleftrightarrow> distinct d \<and>
     (\<forall>r \<in> set d. T r \<and> 0 < virt_addr (R r) \<and> virt_addr (R r) + alength (R r) \<le> 1024 \<and>
        (\<forall>i < alength (R r). t (virt_addr (R r) + i) = pte (P r ! i) 7)) \<and>
     (\<forall>r \<in> set d. \<forall>q \<in> set d. r \<noteq> q \<longrightarrow> span (R r) \<inter> span (R q) = {}) \<and>
     (\<forall>i. t i \<noteq> 0 \<longrightarrow> (\<exists>r \<in> set d. i \<in> span (R r)))"

definition tables_ok ::
  "(nat \<Rightarrow> bool) \<Rightarrow> (nat \<Rightarrow> area_t) \<Rightarrow> (nat \<Rightarrow> nat list) \<Rightarrow> (nat \<Rightarrow> nat list) \<Rightarrow> (nat \<Rightarrow> nat \<Rightarrow> nat) \<Rightarrow> bool" where
  "tables_ok T R P D PT \<longleftrightarrow> (\<forall>a. table_ok T R P (D a) (PT a)) \<and> (\<forall>a b. a \<noteq> b \<longrightarrow> set (D a) \<inter> set (D b) = {})"

lemma table_ok_cong:
  assumes "table_ok T R P d t" and "\<And>r. r \<in> set d \<Longrightarrow> T' r \<and> R' r = R r \<and> (\<forall>i < alength (R r). P' r ! i = P r ! i)"
  shows "table_ok T' R' P' d t"
  using assms unfolding table_ok_def by (auto simp del: Int_iff)

lemma table_ok_area: "table_ok T R P d t \<Longrightarrow> r \<in> set d \<Longrightarrow> i \<in> span (R r) \<Longrightarrow> t i \<noteq> 0"
proof -
  assume ok: "table_ok T R P d t" and r: "r \<in> set d" and i: "i \<in> span (R r)"
  then have "t (virt_addr (R r) + (i - virt_addr (R r))) = pte (P r ! (i - virt_addr (R r))) 7"
    unfolding table_ok_def span_def by (metis atLeastLessThan_iff less_diff_conv2 add.commute)
  then show ?thesis using i pte_nz by (simp add: span_def)
qed

lemma table_ok_add:
  assumes ok: "table_ok T R P d t" and r: "r \<notin> set d"
    and y: "0 < virt_addr (R r)" "virt_addr (R r) + alength (R r) \<le> 1024" "T r" "alength (R r) \<le> length (P r)"
    and free: "\<And>i. i \<in> span (R r) \<Longrightarrow> t i = 0"
  shows "table_ok T R P (d @ [r]) (map_range t (virt_addr (R r)) (take (alength (R r)) (P r)))"
proof -
  let ?t = "map_range t (virt_addr (R r)) (take (alength (R r)) (P r))"
  have t: "?t i = (if i \<in> span (R r) then pte (P r ! (i - virt_addr (R r))) 7 else t i)" for i
    using y(4) by (auto simp: map_range_def span_def min_def)
  have dis: "span (R q) \<inter> span (R r) = {}" if "q \<in> set d" for q
    using table_ok_area [OF ok that] free by blast
  have old: "?t (virt_addr (R q) + i) = t (virt_addr (R q) + i)" if "q \<in> set d" "i < alength (R q)" for q i
  proof -
    have "virt_addr (R q) + i \<in> span (R q)" using that(2) by (simp add: span_def)
    then show ?thesis unfolding t using dis [OF that(1)] by auto
  qed
  have new: "?t (virt_addr (R r) + i) = pte (P r ! i) 7" if "i < alength (R r)" for i
    unfolding t using that by (simp add: span_def)
  have cov: "\<exists>q \<in> set (d @ [r]). i \<in> span (R q)" if "?t i \<noteq> 0" for i
  proof (cases "i \<in> span (R r)")
    case False
    then have "t i \<noteq> 0" using that by (simp add: t)
    then show ?thesis using ok unfolding table_ok_def by auto
  qed simp
  show ?thesis unfolding table_ok_def
  proof (intro conjI)
    show "distinct (d @ [r])" using ok r by (simp add: table_ok_def)
    show "\<forall>q \<in> set (d @ [r]). T q \<and> 0 < virt_addr (R q) \<and> virt_addr (R q) + alength (R q) \<le> 1024 \<and>
        (\<forall>i < alength (R q). ?t (virt_addr (R q) + i) = pte (P q ! i) 7)"
      using ok y old new by (simp add: table_ok_def)
    show "\<forall>q \<in> set (d @ [r]). \<forall>q' \<in> set (d @ [r]). q \<noteq> q' \<longrightarrow> span (R q) \<inter> span (R q') = {}"
      using ok dis by (simp add: table_ok_def Int_commute)
    show "\<forall>i. ?t i \<noteq> 0 \<longrightarrow> (\<exists>q \<in> set (d @ [r]). i \<in> span (R q))" using cov by blast
  qed
qed

lemma table_ok_remove:
  assumes ok: "table_ok T R P d t" and r: "r \<in> set d"
  shows "table_ok T R P (remove1 r d) (clear_range t (virt_addr (R r)) (alength (R r)))"
proof -
  let ?t = "clear_range t (virt_addr (R r)) (alength (R r))"
  have t: "?t i = (if i \<in> span (R r) then 0 else t i)" for i by (simp add: clear_range_def span_def)
  have d: "distinct d" using ok by (simp add: table_ok_def)
  have s: "set (remove1 r d) = set d - {r}" using d by (rule set_remove1_eq)
  have dis: "span (R q) \<inter> span (R r) = {}" if "q \<in> set d - {r}" for q
    using ok that r unfolding table_ok_def by blast
  have old: "?t (virt_addr (R q) + i) = t (virt_addr (R q) + i)" if "q \<in> set d - {r}" "i < alength (R q)" for q i
  proof -
    have "virt_addr (R q) + i \<in> span (R q)" using that(2) by (simp add: span_def)
    then show ?thesis unfolding t using dis [OF that(1)] by auto
  qed
  have cov: "\<exists>q \<in> set d - {r}. i \<in> span (R q)" if "?t i \<noteq> 0" for i
  proof -
    have "i \<notin> span (R r)" "t i \<noteq> 0" using that by (auto simp: t split: if_splits)
    then obtain q where "q \<in> set d" "i \<in> span (R q)" using ok unfolding table_ok_def by blast
    then show ?thesis using \<open>i \<notin> span (R r)\<close> by blast
  qed
  show ?thesis unfolding table_ok_def s
  proof (intro conjI)
    show "distinct (remove1 r d)" using d by simp
    show "\<forall>q \<in> set d - {r}. T q \<and> 0 < virt_addr (R q) \<and> virt_addr (R q) + alength (R q) \<le> 1024 \<and>
        (\<forall>i < alength (R q). ?t (virt_addr (R q) + i) = pte (P q ! i) 7)"
      using ok old by (simp add: table_ok_def)
    show "\<forall>q \<in> set d - {r}. \<forall>q' \<in> set d - {r}. q \<noteq> q' \<longrightarrow> span (R q) \<inter> span (R q') = {}"
      using ok by (simp add: table_ok_def)
    show "\<forall>i. ?t i \<noteq> 0 \<longrightarrow> (\<exists>q \<in> set d - {r}. i \<in> span (R q))" using cov by blast
  qed
qed

lemma tables_ok_areas: "tables_ok T R P D PT \<Longrightarrow> r \<in> set (D a) \<Longrightarrow> T r"
  by (simp add: tables_ok_def table_ok_def)

lemma tables_ok_add:
  assumes ok: "tables_ok T R P D PT" and r: "\<not> T r"
    and T: "\<And>q. T q \<Longrightarrow> \<forall>i < alength (R q). P' q ! i = P q ! i"
    and y: "0 < virt_addr y" "virt_addr y + alength y \<le> 1024" "alength y \<le> length (P' r)"
    and free: "\<And>i. i \<in> span y \<Longrightarrow> PT a i = 0"
  shows "tables_ok (T(r := True)) (R(r := y)) P' (D(a := D a @ [r]))
    (PT(a := map_range (PT a) (virt_addr y) (take (alength y) (P' r))))"
proof -
  let ?T = "T(r := True)" and ?R = "R(r := y)"
  have nr: "r \<notin> set (D b)" for b using tables_ok_areas [OF ok] r by blast
  have old: "table_ok ?T ?R P' (D b) (PT b)" for b
  proof (rule table_ok_cong)
    show "table_ok T R P (D b) (PT b)" using ok by (simp add: tables_ok_def)
    show "?T q \<and> ?R q = R q \<and> (\<forall>i < alength (R q). P' q ! i = P q ! i)" if "q \<in> set (D b)" for q
      using that nr tables_ok_areas [OF ok that] T by auto
  qed
  have new: "table_ok ?T ?R P' (D a @ [r]) (map_range (PT a) (virt_addr (?R r)) (take (alength (?R r)) (P' r)))"
    by (rule table_ok_add [OF old nr]) (use y free in simp_all)
  show ?thesis unfolding tables_ok_def
  proof (intro conjI allI impI)
    show "table_ok ?T ?R P' ((D(a := D a @ [r])) b) ((PT(a := map_range (PT a) (virt_addr y) (take (alength y) (P' r)))) b)" for b
      using old new by (cases "b = a") simp_all
    show "set ((D(a := D a @ [r])) b) \<inter> set ((D(a := D a @ [r])) c) = {}" if "b \<noteq> c" for b c
      using ok that nr by (auto simp: tables_ok_def)
  qed
qed

lemma tables_ok_remove:
  assumes ok: "tables_ok T R P D PT" and r: "r \<in> set (D a)"
    and T: "\<And>q. T q \<Longrightarrow> q \<noteq> r \<Longrightarrow> \<forall>i < alength (R q). P' q ! i = P q ! i"
  shows "tables_ok (T(r := False)) R P' (D(a := remove1 r (D a)))
    (PT(a := clear_range (PT a) (virt_addr (R r)) (alength (R r))))"
proof -
  let ?T = "T(r := False)" and ?D = "D(a := remove1 r (D a))"
  let ?PT = "PT(a := clear_range (PT a) (virt_addr (R r)) (alength (R r)))"
  have t: "table_ok T R P (D b) (PT b)" for b using ok by (simp add: tables_ok_def)
  have dis: "set (D b) \<inter> set (D c) = {}" if "b \<noteq> c" for b c using ok that by (simp add: tables_ok_def)
  have s: "set (?D b) = set (D b) - {r}" for b
  proof (cases "b = a")
    case True
    then show ?thesis using t [of a] by (simp add: table_ok_def)
  next
    case False
    then show ?thesis using dis [OF False] r by auto
  qed
  have "table_ok T R P (?D b) (?PT b)" for b using t table_ok_remove [OF t r] by simp
  then have "table_ok ?T R P' (?D b) (?PT b)" for b
  proof (rule table_ok_cong)
    fix q assume "q \<in> set (?D b)"
    then have "q \<noteq> r" "q \<in> set (D b)" unfolding s by auto
    then show "?T q \<and> R q = R q \<and> (\<forall>i < alength (R q). P' q ! i = P q ! i)"
      using tables_ok_areas [OF ok, of q b] T by simp
  qed
  moreover have "set (?D b) \<inter> set (?D c) = {}" if "b \<noteq> c" for b c unfolding s using dis [OF that] by blast
  ultimately show ?thesis by (simp only: tables_ok_def) blast
qed

lemma tables_ok_same:
  assumes ok: "tables_ok T R P D PT" and "\<And>q. T q \<Longrightarrow> T' q \<and> R' q = R q \<and> (\<forall>i < alength (R q). P' q ! i = P q ! i)"
  shows "tables_ok T' R' P' D PT"
  unfolding tables_ok_def
proof (intro conjI allI impI)
  show "table_ok T' R' P' (D a) (PT a)" for a
    by (rule table_ok_cong [where T = T and R = R and P = P])
      (use ok assms(2) tables_ok_areas [OF ok] in \<open>auto simp: tables_ok_def\<close>)
  show "set (D a) \<inter> set (D b) = {}" if "a \<noteq> b" for a b using ok that by (simp add: tables_ok_def)
qed

end
