(* ===== verification/AspaceInv.thy ===== *)
theory AspaceInv
  imports VmGroup
begin

text \<open>
  Virtual memory of \<^verbatim>\<open>kernel/aspace.c\<close>: the operations on address spaces and
  areas keep the memory of different owners apart.
\<close>

section \<open>The invariant of virtual memory\<close>

definition is_area :: "kstate \<Rightarrow> nat \<Rightarrow> bool" where
  "is_area s r \<longleftrightarrow> rtype (rsrcs s r) = RSRC_AREA"

definition pages_for :: "kstate \<Rightarrow> nat \<Rightarrow> nat list" where
  "pages_for s r = group_pages (pgroups s (pgroup (area_st s r)))"

definition areas_in :: "kstate \<Rightarrow> nat \<Rightarrow> nat list" where
  "areas_in s a = map snd (areas (aspaces s a))"

definition free_frames :: "kstate \<Rightarrow> nat set" where
  "free_frames s = {0<..<0x100000} - in_use (pgroups s)"

text \<open>Resources are larger than 32 bytes.\<close>

definition objects :: "(nat \<Rightarrow> nat set) \<Rightarrow> nat set" where
  "objects L = (\<Union>c \<in> {KM64..<KMMAX}. L c)"

definition vm_ok :: "(nat \<Rightarrow> nat set) \<Rightarrow> kstate \<Rightarrow> bool" where
  "vm_ok L s \<longleftrightarrow> mem_ok L (free_frames s) s \<and> (\<forall>r. rtype (rsrcs s r) \<noteq> RSRC_NONE \<longrightarrow> r \<in> objects L) \<and>
     groups_ok (L KM32) (pgroups s) \<and> areas_ok (L KM96) (is_area s) (area_st s) (pgroups s) \<and>
     tables_ok (is_area s) (area_st s) (pages_for s) (areas_in s) (\<lambda>a. ptab (aspaces s a))"

definition vm_inv :: "kstate \<Rightarrow> bool" where
  "vm_inv s \<longleftrightarrow> (\<exists>L. vm_ok L s)"

text \<open>One operation adds at most one reference to a page group.\<close>

definition vm_next :: "kstate \<Rightarrow> kstate \<Rightarrow> bool" where
  "vm_next s s' \<longleftrightarrow> vm_inv s' \<and> (\<forall>g. pg_refcount (pgroups s' g) \<le> Suc (pg_refcount (pgroups s g)))"

lemma vm_next_refl: "vm_ok L s \<Longrightarrow> vm_next s s"
  by (auto simp: vm_next_def vm_inv_def)

lemma objects_blocks: "objects L \<subseteq> blocks L"
  by (auto simp: objects_def blocks_def)

lemma objects_nodes: "nodes_only L L' \<Longrightarrow> objects L' = objects L"
  by (simp add: objects_def nodes_only_def)

lemma blocks_mem: "c < KMMAX \<Longrightarrow> x \<in> L c \<Longrightarrow> x \<in> blocks L"
  by (auto simp: blocks_def)

text \<open>The array entries of a page group.\<close>

lemma fill_phys_pages_fst: "map fst (fill_phys_pages pps ps) = pps"
  by (induction pps arbitrary: ps) simp_all

lemma fill_phys_pages_snd: "q \<in> set (fill_phys_pages pps ps) \<Longrightarrow> length (snd q) = 6"
  by (induction pps arbitrary: ps) auto

lemma fill_phys_pages_concat:
  "length ps \<le> 6 * length pps \<Longrightarrow> take (length ps) (concat (map snd (fill_phys_pages pps ps))) = ps"
proof (induction pps arbitrary: ps)
  case Nil
  then show ?case by simp
next
  case (Cons pp pps)
  let ?c = "concat (map snd (fill_phys_pages pps (drop 6 ps)))"
  have IH: "take (length (drop 6 ps)) ?c = drop 6 ps" by (rule Cons.IH) (use Cons.prems in simp)
  have l6: "length (take 6 (ps @ replicate 6 0)) = 6" by simp
  have "take (length ps) (take 6 (ps @ replicate 6 0) @ ?c) =
      take (min (length ps) 6) (take 6 (ps @ replicate 6 0)) @ take (length ps - 6) ?c"
    by (rule take_6 [OF l6])
  also have "take (min (length ps) 6) (take 6 (ps @ replicate 6 0)) = take 6 ps" by (simp add: min_def)
  also have "take (length ps - 6) ?c = drop 6 ps" using IH by simp
  finally show ?case by simp
qed

lemma fill_phys_pages_length: "length (concat (map snd (fill_phys_pages pps ps))) = 6 * length pps"
  by (induction pps arbitrary: ps) simp_all

section \<open>Creating the parts of an area\<close>

lemma new_pagegroup_ok:
  assumes h: "mem_ok L A s" and r: "new_pagegroup n flgs s = Some (pg, pps, s')"
  shows "distinct (pg # pps) \<and> set (pg # pps) \<inter> blocks L = {} \<and> length pps = (n + 5) div 6 \<and>
    mem_ok (L(KM32 := set (pg # pps) \<union> L KM32)) A s' \<and>
    (\<exists>m. s' = upd_pgroup pg (\<lambda>_. \<lparr>pg_size = n, pg_refcount = 1, pg_flags = flgs, pg_areas = [], pg_pages = []\<rparr>) (s\<lparr>km := m\<rparr>))"
proof -
  let ?x = "\<lparr>pg_size = n, pg_refcount = 1, pg_flags = flgs, pg_areas = [], pg_pages = []\<rparr>"
  obtain s1 where k: "kmalloc sizeof_pagegroup s = Some (pg, s1)"
    and al: "alloc_phys_pages ((n + 5) div 6) [] (upd_pgroup pg (\<lambda>_. ?x) s1) = Some (pps, s')"
    using r by (auto simp: new_pagegroup_def Let_def split: bind_split_asm)
  let ?L = "L(KM32 := insert pg (L KM32))"
  from kmalloc_mem [OF h k] obtain m where m: "s1 = s\<lparr>km := m\<rparr>" "pg \<notin> blocks L" "mem_ok ?L A s1" by auto
  let ?s2 = "upd_pgroup pg (\<lambda>_. ?x) s1"
  have h2: "mem_ok ?L A ?s2"
    using m(3) nodes_ok_clear [of "?L KM16" "klists s1" "GroupOf pg"]
    by (simp add: mem_ok_def klists_group)
  then have "kheap ?L A (km ?s2)" by (simp add: mem_ok_def)
  from kh.alloc_list_fresh [OF this al [unfolded alloc_phys_pages_list]] have
    new: "length pps = (n + 5) div 6" "distinct pps" "set pps \<inter> blocks ?L = {}"
    "kheap (?L(KM32 := set pps \<union> ?L KM32)) A (km s')" by auto
  have s': "\<exists>m'. s' = ?s2\<lparr>km := m'\<rparr>"
  proof -
    have "alloc_phys_pages j qs s3 = Some (rs, s4) \<Longrightarrow> \<exists>m'. s4 = s3\<lparr>km := m'\<rparr>" for j qs s3 rs s4
    proof (induction j arbitrary: qs s3)
      case 0
      then show ?case by (auto intro: exI [of _ "km s3"])
    next
      case (Suc j)
      then obtain p m3 where "alloc_phys_pages j (p # qs) (s3\<lparr>km := m3\<rparr>) = Some (rs, s4)"
        by (auto simp: kmalloc_def split: bind_splits)
      from Suc.IH [OF this] show ?case by auto
    qed
    then show ?thesis using al by blast
  qed
  then obtain m' where m': "s' = ?s2\<lparr>km := m'\<rparr>" by blast
  have e: "?L(KM32 := set pps \<union> ?L KM32) = L(KM32 := set (pg # pps) \<union> L KM32)" by simp
  have "mem_ok (L(KM32 := set (pg # pps) \<union> L KM32)) A s'"
    using h2 new(4) unfolding e m' by (simp add: mem_ok_def)
  moreover have "pg \<in> blocks ?L" "blocks L \<subseteq> blocks ?L" by (auto simp: blocks_def)
  moreover have "s' = upd_pgroup pg (\<lambda>_. ?x) (s\<lparr>km := m'\<rparr>)" by (simp add: m' m(1) upd_defs)
  ultimately show ?thesis using new m(2) by auto
qed

lemma new_area_ok:
  assumes h: "mem_ok L A s" and r: "new_area pg at len maxlen s = Some (ar, s')"
  shows "ar \<notin> blocks L \<and> mem_ok (L(KM96 := insert ar (L KM96))) A s' \<and>
    (\<exists>m. s' = upd_area ar (\<lambda>_. \<lparr>pgroup = pg, virt_addr = at, alength = len, maxlength = maxlen\<rparr>) (s\<lparr>km := m\<rparr>))"
proof -
  obtain s1 where k: "kmalloc sizeof_area s = Some (ar, s1)"
    "s' = upd_area ar (\<lambda>_. \<lparr>pgroup = pg, virt_addr = at, alength = len, maxlength = maxlen\<rparr>) s1"
    using r by (auto simp: new_area_def split: bind_splits)
  from kmalloc_mem [OF h k(1)] obtain m where m: "s1 = s\<lparr>km := m\<rparr>" "ar \<notin> blocks L"
    "mem_ok (L(KM96 := insert ar (L KM96))) A s1" by auto
  have "mem_ok (L(KM96 := insert ar (L KM96))) A s'"
    by (rule mem_ok_cong [OF m(3)]) (simp_all add: k(2))
  then show ?thesis using m k(2) by auto
qed

section \<open>A new area\<close>

text \<open>What the three operations that create an area have in common: \<open>r\<close> is the new area, described by
  \<open>y\<close>, and \<open>x\<close> its page group, which is new or gets one reference more.\<close>

definition area_added :: "nat \<Rightarrow> area_t \<Rightarrow> pagegroup_t \<Rightarrow> kstate \<Rightarrow> kstate \<Rightarrow> bool" where
  "area_added r y x s s' \<longleftrightarrow> pgroups s' = (pgroups s)(pgroup y := x) \<and> area_st s' = (area_st s)(r := y) \<and>
     (\<forall>q. rtype (rsrcs s' q) = (if q = r then RSRC_AREA else rtype (rsrcs s q))) \<and>
     (\<exists>n. pg_areas x = pg_areas (pgroups s (pgroup y)) @ [(n, r)]) \<and>
     pg_refcount x = pg_refcount (pgroups s (pgroup y)) + 1 \<and> 0 < alength y \<and> alength y \<le> pg_size x \<and>
     (pg_areas (pgroups s (pgroup y)) \<noteq> [] \<longrightarrow> pg_size x = pg_size (pgroups s (pgroup y)) \<and>
        pg_pages x = pg_pages (pgroups s (pgroup y)))"

lemma area_added_isarea: "area_added r y x s s' \<Longrightarrow> is_area s' = (is_area s)(r := True)"
  by (rule ext) (simp add: area_added_def is_area_def)

lemma vm_ok_fresh:
  assumes ok: "vm_ok L s" and r: "r \<notin> blocks L"
  shows "\<not> is_area s r" "rtype (rsrcs s r) = RSRC_NONE"
proof -
  show n: "rtype (rsrcs s r) = RSRC_NONE"
    using ok r objects_blocks [of L] unfolding vm_ok_def by blast
  show "\<not> is_area s r" by (simp add: is_area_def n)
qed

lemma area_added_pages:
  assumes ok: "vm_ok L s" and add: "area_added r y x s s'" and r: "r \<notin> blocks L" and q: "is_area s q"
  shows "pages_for s' q = pages_for s q"
proof -
  have "q \<noteq> r" using vm_ok_fresh(1) [OF ok r] q by auto
  moreover have "q \<in> set (map snd (pg_areas (pgroups s (pgroup (area_st s q)))))"
    using ok q unfolding vm_ok_def areas_ok_def by blast
  then have "pg_areas (pgroups s (pgroup (area_st s q))) \<noteq> []" by auto
  ultimately show ?thesis using add by (auto simp: pages_for_def area_added_def group_pages_def)
qed

lemma vm_ok_add:
  assumes ok: "vm_ok L s" and add: "area_added r y x s s'" and r: "r \<notin> blocks L"
    and L': "r \<in> L' KM96" "L KM96 \<subseteq> L' KM96" "objects L \<subseteq> objects L'"
    and m: "mem_ok L' (free_frames s') s'" and g: "groups_ok (L' KM32) (pgroups s')"
    and t: "tables_ok (is_area s') (area_st s') (pages_for s') (areas_in s') (\<lambda>a. ptab (aspaces s' a))"
  shows "vm_ok L' s'"
proof -
  obtain n where x: "pg_areas x = pg_areas (pgroups s (pgroup y)) @ [(n, r)]" using add by (auto simp: area_added_def)
  have ao: "areas_ok (L KM96) (is_area s) (area_st s) (pgroups s)" using ok by (simp add: vm_ok_def)
  have "areas_ok (L' KM96) ((is_area s)(r := True)) ((area_st s)(r := y)) ((pgroups s)(pgroup y := x))"
    by (rule areas_ok_add [OF ao vm_ok_fresh(1) [OF ok r] L'(2,1) x]) (use add in \<open>auto simp: area_added_def\<close>)
  then have a: "areas_ok (L' KM96) (is_area s') (area_st s') (pgroups s')"
    using add by (simp add: area_added_isarea [OF add] area_added_def)
  have "r \<in> objects L'" using L'(1) by (auto simp: objects_def)
  then have "q \<in> objects L'" if "rtype (rsrcs s' q) \<noteq> RSRC_NONE" for q
    using that ok L'(3) add by (auto simp: vm_ok_def area_added_def split: if_splits)
  then show ?thesis using m g a t by (simp add: vm_ok_def)
qed

lemma area_added_next:
  assumes "area_added r y x s s'" and "vm_ok L' s'"
  shows "vm_next s s'"
  using assms by (auto simp: vm_next_def vm_inv_def area_added_def)

lemma vm_tables_map:
  assumes ok: "vm_ok L s" and add: "area_added r y x s s'" and r: "r \<notin> blocks L"
    and y: "0 < virt_addr y" "virt_addr y + alength y \<le> 1024"
    and free: "\<And>i. i \<in> span y \<Longrightarrow> ptab (aspaces s a) i = 0"
    and ps: "ps = take (alength y) (group_pages x)" "alength y \<le> length (group_pages x)"
    and sp: "areas_in s' = (areas_in s)(a := areas_in s a @ [r])"
      "(\<lambda>b. ptab (aspaces s' b)) = (\<lambda>b. ptab (aspaces s b))(a := map_range (ptab (aspaces s a)) (virt_addr y) ps)"
  shows "tables_ok (is_area s') (area_st s') (pages_for s') (areas_in s') (\<lambda>b. ptab (aspaces s' b))"
proof -
  have p: "pages_for s' r = group_pages x" using add by (simp add: pages_for_def area_added_def)
  have st: "area_st s' = (area_st s)(r := y)" using add by (simp add: area_added_def)
  have t: "tables_ok (is_area s) (area_st s) (pages_for s) (areas_in s) (\<lambda>b. ptab (aspaces s b))"
    using ok by (simp add: vm_ok_def)
  have "tables_ok ((is_area s)(r := True)) ((area_st s)(r := y)) (pages_for s') ((areas_in s)(a := areas_in s a @ [r]))
    ((\<lambda>b. ptab (aspaces s b))(a := map_range (ptab (aspaces s a)) (virt_addr y) (take (alength y) (pages_for s' r))))"
    by (rule tables_ok_add [OF t vm_ok_fresh(1) [OF ok r]])
      (use area_added_pages [OF ok add r] y free ps p in auto)
  then show ?thesis by (simp only: area_added_isarea [OF add] st sp p ps(1))
qed

lemma vm_tables_same:
  assumes ok: "vm_ok L s" and add: "area_added r y x s s'" and r: "r \<notin> blocks L" and sp: "aspaces s' = aspaces s"
  shows "tables_ok (is_area s') (area_st s') (pages_for s') (areas_in s') (\<lambda>b. ptab (aspaces s' b))"
proof -
  have d: "areas_in s' = areas_in s" by (rule ext) (simp add: areas_in_def sp)
  have t: "tables_ok (is_area s) (area_st s) (pages_for s) (areas_in s) (\<lambda>b. ptab (aspaces s b))"
    using ok by (simp add: vm_ok_def)
  have st: "area_st s' = (area_st s)(r := y)" using add by (simp add: area_added_def)
  have "is_area s q \<Longrightarrow> is_area s' q \<and> area_st s' q = area_st s q \<and> pages_for s' q = pages_for s q" for q
    using area_added_pages [OF ok add r] area_added_isarea [OF add] vm_ok_fresh(1) [OF ok r] st by auto
  then show ?thesis unfolding d sp by (intro tables_ok_same [OF t]) simp
qed

section \<open>Operations that create an area\<close>

lemma area_pages_ok:
  assumes "area_pages n a p at flgs s = Some (ps, s')" and "mem_ok L A s"
    and "fr = (if flgs AND AREA_PHYSMAP = 0 then ps else [])"
  shows "length ps = n \<and> (0 < n \<longrightarrow> at + n \<le> 1024) \<and> distinct fr \<and> set fr \<subseteq> A \<and> 0 \<notin> set fr \<and>
    mem_ok L (A - set fr) s' \<and> (\<exists>m. s' = set_ptab a (map_range (ptab (aspaces s a)) at ps) (s\<lparr>km := m\<rparr>))"
proof (cases "flgs AND AREA_PHYSMAP = 0")
  case True
  then show ?thesis using area_pages_fresh [OF assms(1) True assms(2)] assms(3) by simp
next
  case False
  from area_pages_phys [OF assms(1) False] have p: "length ps = n" "0 < n \<longrightarrow> at + n \<le> 1024"
    "s' = set_ptab a (map_range (ptab (aspaces s a)) at ps) s" by simp_all
  have "fr = []" using assms(3) False by simp
  then show ?thesis using assms(2) p by (intro conjI exI [of _ "km s"]) simp_all
qed

lemma pages_of_pos: "0 < pages_of sz"
  by (simp add: pages_of_def Let_def)

lemma new_group_ok:
  assumes pps: "distinct (pg # pps)" "set (pg # pps) \<subseteq> N" "length pps = (n + 5) div 6" and ps: "length ps = n"
    and fr: "flgs AND AREA_PHYSMAP = 0 \<longrightarrow> distinct ps \<and> set ps \<subseteq> {0<..<0x100000}"
    and x: "x = \<lparr>pg_size = n, pg_refcount = c, pg_flags = flgs, pg_areas = l, pg_pages = fill_phys_pages pps ps\<rparr>"
  shows "group_ok N pg x" "frames x = (if flgs AND AREA_PHYSMAP = 0 then ps else [])" "take n (group_pages x) = ps"
    "n \<le> length (group_pages x)" "gblocks pg x = pg # pps"
proof -
  have le: "length ps \<le> 6 * length pps" using pps(3) ps by simp
  show t: "take n (group_pages x) = ps" using fill_phys_pages_concat [OF le] ps by (simp add: x group_pages_def)
  show l: "n \<le> length (group_pages x)" using le ps fill_phys_pages_length [of pps ps] by (simp add: x group_pages_def)
  show f: "frames x = (if flgs AND AREA_PHYSMAP = 0 then ps else [])"
    using t by (simp add: frames_def owns_frames_def x)
  show b: "gblocks pg x = pg # pps" by (simp add: gblocks_def x fill_phys_pages_fst)
  have "\<forall>q \<in> set (pg_pages x). length (snd q) = 6" using fill_phys_pages_snd by (auto simp: x)
  moreover have "length (pg_pages x) = (pg_size x + 5) div 6"
    using pps(3) arg_cong [OF fill_phys_pages_fst [of pps ps], of length] by (simp add: x)
  ultimately show "group_ok N pg x" unfolding group_ok_def b f using pps fr by (auto simp: x)
qed

lemma klists_pages [simp]: "klists (upd_pgroup pg (\<lambda>x. x\<lparr>pg_pages := ps\<rparr>) s) = klists s"
  by (rule ext, case_tac x) (simp_all add: upd_defs)

lemma mem_ok_pages: "mem_ok L A s \<Longrightarrow> mem_ok L A (upd_pgroup pg (\<lambda>x. x\<lparr>pg_pages := ps\<rparr>) s)"
  by (rule mem_ok_cong) simp_all

lemma area_createE:
  assumes c: "area_create a sz virt addr flgs s = Some (res, ad, s')"
  obtains (full) "locate_span a (virt div 0x1000) (pages_of sz) s = 0" "s' = s" "res = ERR_MEMORY"
  | (made) n at pg pps s1 ar s2 s3 s4 pages s5 s6 p ow where "n = pages_of sz" "at = locate_span a (virt div 0x1000) n s"
      "at \<noteq> 0" "new_pagegroup n flgs s = Some (pg, pps, s1)" "new_area pg at n n s1 = Some (ar, s2)"
      "link_pgroup pg ar s2 = Some s3" "link_aspace a ar s3 = Some s4"
      "area_pages n a p at flgs s4 = Some (pages, s5)"
      "s6 = upd_pgroup pg (\<lambda>x. x\<lparr>pg_pages := fill_phys_pages pps pages\<rparr>) s5"
      "rsrc_bind ar RSRC_AREA ow s6 = Some s'" "res = int (rid (rsrcs s' ar))" "ad = at * 0x1000"
proof -
  define n where "n = pages_of sz"
  define p where "p = (if flgs AND AREA_PHYSMAP \<noteq> 0 then addr div 0x1000 else 0)"
  define at where "at = locate_span a (virt div 0x1000) n s"
  show ?thesis
  proof (cases "at = 0")
    case True
    then have "Some (ERR_MEMORY, addr, s) = Some (res, ad, s')" using c by (simp add: area_create_def Let_def at_def n_def)
    then show ?thesis by (intro full) (use True in \<open>simp_all add: at_def n_def\<close>)
  next
    case False
    have c': "do {
           (pg, pps, s) \<leftarrow> new_pagegroup n flgs s;
           (ar, s) \<leftarrow> new_area pg at n n s;
           s \<leftarrow> link_pgroup pg ar s;
           s \<leftarrow> link_aspace a ar s;
           (pages, s) \<leftarrow> area_pages n a p at flgs s;
           let s = upd_pgroup pg (\<lambda>x. x\<lparr>pg_pages := fill_phys_pages pps pages\<rparr>) s;
           s \<leftarrow> rsrc_bind ar RSRC_AREA (rowner (rsrcs s (current s))) s;
           Some (int (rid (rsrcs s ar)), at * 0x1000, s)
         } = Some (res, ad, s')"
      using c False unfolding area_create_def Let_def n_def p_def at_def by simp
    show ?thesis
      using c' unfolding Let_def by (elim bind_eqE) (auto elim!: bind_eqE intro: made [OF n_def at_def False])
  qed
qed

lemma area_create_made:
  assumes h: "mem_ok L (free_frames s) s" and c: "area_create a sz virt addr flgs s = Some (res, ad, s')"
  obtains (full) "s' = s" "res = ERR_MEMORY"
  | (made) L' n at pg pps ar pages fr x y n1 n2 where "0 < n" "at = locate_span a (virt div 0x1000) n s" "at \<noteq> 0" "at + n \<le> 1024"
      "distinct (pg # pps)" "set (pg # pps) \<inter> blocks L = {}" "length pps = (n + 5) div 6"
      "ar \<notin> blocks (L(KM32 := set (pg # pps) \<union> L KM32))"
      "nodes_only (L(KM32 := set (pg # pps) \<union> L KM32, KM96 := insert ar (L KM96))) L'"
      "mem_ok L' (free_frames s - set fr) s'" "length pages = n" "fr = (if flgs AND AREA_PHYSMAP = 0 then pages else [])"
      "distinct fr" "set fr \<subseteq> free_frames s"
      "x = \<lparr>pg_size = n, pg_refcount = 1, pg_flags = flgs, pg_areas = [(n1, ar)], pg_pages = fill_phys_pages pps pages\<rparr>"
      "y = \<lparr>pgroup = pg, virt_addr = at, alength = n, maxlength = n\<rparr>"
      "pgroups s' = (pgroups s)(pg := x)" "area_st s' = (area_st s)(ar := y)"
      "aspaces s' = (aspaces s)(a := (aspaces s a)\<lparr>areas := areas (aspaces s a) @ [(n2, ar)],
         ptab := map_range (ptab (aspaces s a)) at pages\<rparr>)"
      "\<forall>q. rtype (rsrcs s' q) = (if q = ar then RSRC_AREA else rtype (rsrcs s q))"
      "n = pages_of sz" "ad = at * 0x1000" "res = int (rid (rsrcs s' ar))"
  using c
proof (cases rule: area_createE)
  case full
  then show ?thesis using that(1) by simp
next
  case (made n at pg pps s1 ar s2 s3 s4 pages s5 s6 p ow)
  let ?A = "free_frames s" and ?L1 = "L(KM32 := set (pg # pps) \<union> L KM32)"
  let ?L2 = "?L1(KM96 := insert ar (?L1 KM96))"
  define fr where "fr = (if flgs AND AREA_PHYSMAP = 0 then pages else [])"
  have n: "0 < n" using made(1) pages_of_pos by simp
  from new_pagegroup_ok [OF h made(4)] obtain m1 where
    g: "distinct (pg # pps)" "set (pg # pps) \<inter> blocks L = {}" "length pps = (n + 5) div 6" "mem_ok ?L1 ?A s1"
      "s1 = upd_pgroup pg (\<lambda>_. \<lparr>pg_size = n, pg_refcount = 1, pg_flags = flgs, pg_areas = [], pg_pages = []\<rparr>) (s\<lparr>km := m1\<rparr>)"
    by blast
  from new_area_ok [OF g(4) made(5)] obtain m2 where
    ar: "ar \<notin> blocks ?L1" "mem_ok ?L2 ?A s2"
      "s2 = upd_area ar (\<lambda>_. \<lparr>pgroup = pg, virt_addr = at, alength = n, maxlength = n\<rparr>) (s1\<lparr>km := m2\<rparr>)" by blast
  from link_pgroup_mem [OF ar(2) made(6)] obtain n1 m3 L3 where
    l3: "s3 = upd_pgroup pg (\<lambda>x. x\<lparr>pg_areas := pg_areas x @ [(n1, ar)]\<rparr>) (s2\<lparr>km := m3\<rparr>)" "mem_ok L3 ?A s3" "nodes_only ?L2 L3"
    by blast
  from link_aspace_mem [OF l3(2) made(7)] obtain n2 m4 L4 where
    l4: "s4 = upd_aspace a (\<lambda>x. x\<lparr>areas := areas x @ [(n2, ar)]\<rparr>) (s3\<lparr>km := m4\<rparr>)" "mem_ok L4 ?A s4" "nodes_only L3 L4"
    by blast
  from area_pages_ok [OF made(8) l4(2) fr_def] obtain m5 where
    p: "length pages = n" "0 < n \<longrightarrow> at + n \<le> 1024" "distinct fr" "set fr \<subseteq> ?A" "mem_ok L4 (?A - set fr) s5"
      "s5 = set_ptab a (map_range (ptab (aspaces s4 a)) at pages) (s4\<lparr>km := m5\<rparr>)" by blast
  have "mem_ok L4 (?A - set fr) s6" unfolding made(9) by (rule mem_ok_pages [OF p(5)])
  from rsrc_bind_mem [OF this made(10)] obtain L' where
    b: "same_vm s6 s'" "mem_ok L' (?A - set fr) s'" "nodes_only L4 L'"
      "\<forall>x. rtype (rsrcs s' x) = (if x = ar then RSRC_AREA else rtype (rsrcs s6 x))" by blast
  have no: "nodes_only ?L2 L'" using l3(3) l4(3) b(3) nodes_only_trans by blast
  define x where "x = \<lparr>pg_size = n, pg_refcount = 1, pg_flags = flgs, pg_areas = [(n1, ar)], pg_pages = fill_phys_pages pps pages\<rparr>"
  define y where "y = \<lparr>pgroup = pg, virt_addr = at, alength = n, maxlength = n\<rparr>"
  have f: "pgroups s' = (pgroups s)(pg := x)" "area_st s' = (area_st s)(ar := y)" "rsrcs s6 = rsrcs s"
    "aspaces s' = (aspaces s)(a := (aspaces s a)\<lparr>areas := areas (aspaces s a) @ [(n2, ar)],
       ptab := map_range (ptab (aspaces s a)) at pages\<rparr>)"
    using b(1) unfolding same_vm_def made(9) p(6) l4(1) l3(1) ar(3) g(5) x_def y_def
    by (simp_all add: upd_defs set_ptab_def)
  have no': "nodes_only (L(KM32 := set (pg # pps) \<union> L KM32, KM96 := insert ar (L KM96))) L'" using no by simp
  have t: "\<forall>q. rtype (rsrcs s' q) = (if q = ar then RSRC_AREA else rtype (rsrcs s q))" using b(4) f(3) by simp
  show ?thesis
    by (rule that(2) [OF n made(2,3) _ g(1-3) ar(1) no' b(2) p(1) fr_def p(3,4) x_def y_def f(1,2,4) t made(1,12,11)]) (use p(2) n in simp)
qed


text \<open>An area with a page group of its own.\<close>

lemma vm_new_group:
  assumes ok: "vm_ok L s" and n: "0 < n" "alength y = n" "pgroup y = pg"
    and pps: "distinct (pg # pps)" "set (pg # pps) \<inter> blocks L = {}" "length pps = (n + 5) div 6"
    and ar: "ar \<notin> blocks (L(KM32 := set (pg # pps) \<union> L KM32))"
    and no: "nodes_only (L(KM32 := set (pg # pps) \<union> L KM32, KM96 := insert ar (L KM96))) L'"
    and m: "mem_ok L' (free_frames s - set fr) s'"
    and fr: "length pages = n" "fr = (if flgs AND AREA_PHYSMAP = 0 then pages else [])" "distinct fr" "set fr \<subseteq> free_frames s"
    and x: "x = \<lparr>pg_size = n, pg_refcount = 1, pg_flags = flgs, pg_areas = [(n1, ar)], pg_pages = fill_phys_pages pps pages\<rparr>"
    and s': "pgroups s' = (pgroups s)(pg := x)" "area_st s' = (area_st s)(ar := y)"
      "\<forall>q. rtype (rsrcs s' q) = (if q = ar then RSRC_AREA else rtype (rsrcs s q))"
  shows "ar \<notin> blocks L" "area_added ar y x s s'" "take n (group_pages x) = pages" "n \<le> length (group_pages x)"
    "tables_ok (is_area s') (area_st s') (pages_for s') (areas_in s') (\<lambda>b. ptab (aspaces s' b)) \<Longrightarrow> vm_ok L' s'"
proof -
  have h: "mem_ok L (free_frames s) s" and gr: "groups_ok (L KM32) (pgroups s)"
    and ao: "areas_ok (L KM96) (is_area s) (area_st s) (pgroups s)" using ok by (simp_all add: vm_ok_def)
  have L': "L' KM32 = set (pg # pps) \<union> L KM32" "L' KM96 = insert ar (L KM96)" using no by (simp_all add: nodes_only_def)
  have obj: "objects L \<subseteq> objects L'" unfolding objects_nodes [OF no] by (auto simp: objects_def split: if_splits)
  show ar': "ar \<notin> blocks L" using ar by (auto simp: blocks_def split: if_splits)
  have fr': "flgs AND AREA_PHYSMAP = 0 \<longrightarrow> distinct pages \<and> set pages \<subseteq> {0<..<0x100000}"
    using fr(2-4) by (auto simp: free_frames_def)
  have sub: "set (pg # pps) \<subseteq> L' KM32" using L'(1) by auto
  note g = new_group_ok [OF pps(1) sub pps(3) fr(1) fr' x]
  show "take n (group_pages x) = pages" "n \<le> length (group_pages x)" by (fact g)+
  have ff: "frames x = fr" unfolding g(2) fr(2) ..
  have "set (gblocks pg x) \<inter> L KM32 = {}" using pps(2) blocks_mem [of KM32 _ L] unfolding g(5) by auto
  moreover have "set (frames x) \<inter> in_use (pgroups s) = {}"
    using fr(4) unfolding ff free_frames_def by blast
  ultimately have go: "groups_ok (L' KM32) (pgroups s')" and dead: "pg_refcount (pgroups s pg) = 0"
    unfolding s'(1) using groups_ok_new [OF gr g(1)] L'(1) by auto
  have "free_frames s' = free_frames s - set fr"
    using in_use_new [of "pgroups s" pg x] dead x unfolding free_frames_def s'(1) ff by auto
  then have m': "mem_ok L' (free_frames s') s'" using m by simp
  show add: "area_added ar y x s s'"
    using areas_ok_dead [OF ao dead] dead n s' by (simp add: area_added_def x)
  show "vm_ok L' s'" if "tables_ok (is_area s') (area_st s') (pages_for s') (areas_in s') (\<lambda>b. ptab (aspaces s' b))"
    by (rule vm_ok_add [OF ok add ar' _ _ obj m' go that]) (use L'(2) in auto)
qed

lemma area_create_ok:
  assumes ok: "vm_ok L s" and c: "area_create a sz virt addr flgs s = Some (res, ad, s')"
  shows "vm_next s s'"
proof -
  have h: "mem_ok L (free_frames s) s" using ok by (simp add: vm_ok_def)
  show ?thesis
    using h c
  proof (cases rule: area_create_made)
    case (made L' n at pg pps ar pages fr x y n1 n2)
    have y: "alength y = n" "pgroup y = pg" "virt_addr y = at" by (simp_all add: made(16))
    note g = vm_new_group [OF ok made(1) y(1,2) made(5-15,17,18,20)]
    have "tables_ok (is_area s') (area_st s') (pages_for s') (areas_in s') (\<lambda>b. ptab (aspaces s' b))"
    proof (rule vm_tables_map [OF ok g(2,1)])
      show "pages = take (alength y) (group_pages x)" "alength y \<le> length (group_pages x)"
        "0 < virt_addr y" "virt_addr y + alength y \<le> 1024" using g(3,4) made(3,4) by (simp_all add: y)
      show "ptab (aspaces s a) i = 0" if "i \<in> span y" for i
        using that locate_span_free [OF made(2,3)] made(4) by (simp add: span_def y)
      show "areas_in s' = (areas_in s)(a := areas_in s a @ [ar])"
        "(\<lambda>b. ptab (aspaces s' b)) = (\<lambda>b. ptab (aspaces s b))(a := map_range (ptab (aspaces s a)) (virt_addr y) pages)"
        by (simp_all add: areas_in_def made(19) y fun_eq_iff)
    qed
    then show ?thesis by (rule area_added_next [OF g(2) g(5)])
  next
    case full
    then show ?thesis using vm_next_refl [OF ok] by simp
  qed
qed

lemma area_create_uber_ok:
  assumes ok: "vm_ok L s" and c: "area_create_uber sz addr s = Some (res, s')"
  shows "vm_next s s'"
proof -
  define n where "n = pages_of sz"
  define p where "p = addr div 0x1000"
  have h: "mem_ok L (free_frames s) s" and gr: "groups_ok (L KM32) (pgroups s)"
    and ao: "areas_ok (L KM96) (is_area s) (area_st s) (pgroups s)" using ok by (simp_all add: vm_ok_def)
  obtain pg pps s1 ar s2 s3 s4 ow where r1: "new_pagegroup n AREA_PHYSMAP s = Some (pg, pps, s1)"
    and r2: "new_area pg 0 n n s1 = Some (ar, s2)" and r3: "link_pgroup pg ar s2 = Some s3"
    and r4: "s4 = upd_pgroup pg (\<lambda>x. x\<lparr>pg_pages := fill_phys_pages pps [p..<p + n]\<rparr>) s3"
    and r5: "rsrc_bind ar RSRC_AREA ow s4 = Some s'"
    using c unfolding area_create_uber_def Let_def n_def p_def by (elim bind_eqE) (auto elim!: bind_eqE)
  let ?L1 = "L(KM32 := set (pg # pps) \<union> L KM32)" and ?A = "free_frames s"
  from new_pagegroup_ok [OF h r1] obtain m1 where
    g: "distinct (pg # pps)" "set (pg # pps) \<inter> blocks L = {}" "length pps = (n + 5) div 6" "mem_ok ?L1 ?A s1"
      "s1 = upd_pgroup pg (\<lambda>_. \<lparr>pg_size = n, pg_refcount = 1, pg_flags = AREA_PHYSMAP, pg_areas = [], pg_pages = []\<rparr>) (s\<lparr>km := m1\<rparr>)"
    by blast
  let ?L2 = "?L1(KM96 := insert ar (?L1 KM96))"
  from new_area_ok [OF g(4) r2] obtain m2 where ar: "ar \<notin> blocks ?L1" "mem_ok ?L2 ?A s2"
      "s2 = upd_area ar (\<lambda>_. \<lparr>pgroup = pg, virt_addr = 0, alength = n, maxlength = n\<rparr>) (s1\<lparr>km := m2\<rparr>)" by blast
  from link_pgroup_mem [OF ar(2) r3] obtain n1 m3 L3 where
    l3: "s3 = upd_pgroup pg (\<lambda>x. x\<lparr>pg_areas := pg_areas x @ [(n1, ar)]\<rparr>) (s2\<lparr>km := m3\<rparr>)" "mem_ok L3 ?A s3" "nodes_only ?L2 L3"
    by blast
  have "mem_ok L3 ?A s4" unfolding r4 by (rule mem_ok_pages [OF l3(2)])
  from rsrc_bind_mem [OF this r5] obtain L' where
    b: "same_vm s4 s'" "mem_ok L' ?A s'" "nodes_only L3 L'"
      "\<forall>x. rtype (rsrcs s' x) = (if x = ar then RSRC_AREA else rtype (rsrcs s4 x))" by blast
  have no: "nodes_only ?L2 L'" using l3(3) b(3) nodes_only_trans by blast
  define x where "x = \<lparr>pg_size = n, pg_refcount = 1, pg_flags = AREA_PHYSMAP, pg_areas = [(n1, ar)], pg_pages = fill_phys_pages pps [p..<p + n]\<rparr>"
  define y where "y = \<lparr>pgroup = pg, virt_addr = 0, alength = n, maxlength = n\<rparr>"
  have f: "pgroups s' = (pgroups s)(pg := x)" "area_st s' = (area_st s)(ar := y)" "rsrcs s4 = rsrcs s" "aspaces s' = aspaces s"
    using b(1) unfolding same_vm_def r4 l3(1) ar(3) g(5) x_def y_def by (simp_all add: upd_defs)
  have no': "nodes_only (L(KM32 := set (pg # pps) \<union> L KM32, KM96 := insert ar (L KM96))) L'" using no by simp
  have t: "\<forall>q. rtype (rsrcs s' q) = (if q = ar then RSRC_AREA else rtype (rsrcs s q))" using b(4) f(3) by simp
  have y: "alength y = n" "pgroup y = pg" and n: "0 < n" by (simp_all add: y_def n_def pages_of_pos)
  have m: "mem_ok L' (free_frames s - set []) s'" and fr: "length [p..<p + n] = n"
    "[] = (if AREA_PHYSMAP AND AREA_PHYSMAP = 0 then [p..<p + n] else [])" "distinct ([] :: nat list)" "set [] \<subseteq> free_frames s"
    using b(2) by simp_all
  note g' = vm_new_group [OF ok n y g(1-3) ar(1) no' m fr x_def f(1,2) t]
  show ?thesis by (rule area_added_next [OF g'(2) g'(5) [OF vm_tables_same [OF ok g'(2,1) f(4)]]])
qed

lemma rsrc_find_type: "rsrc_find t i s \<noteq> 0 \<Longrightarrow> rtype (rsrcs s (rsrc_find t i s)) = t"
  by (auto simp: rsrc_find_def split: if_splits)

lemma area_cloneE:
  assumes c: "area_clone a area_id virt addr s = Some (res, ad, s')"
  obtains (fail) "s' = s" "res < 0"
  | (made) area0 at pg y area1 s1 s2 s3 s4 s5 ow where "area0 = rsrc_find RSRC_AREA area_id s" "area0 \<noteq> 0"
      "at = locate_span a (virt div 0x1000) (alength (area_st s area0)) s" "at \<noteq> 0" "pg = pgroup (area_st s area0)"
      "y = \<lparr>pgroup = pg, virt_addr = at, alength = alength (area_st s area0), maxlength = maxlength (area_st s area0)\<rparr>"
      "new_area pg at (alength y) (maxlength y) s = Some (area1, s1)"
      "s2 = upd_pgroup pg (\<lambda>x. x\<lparr>pg_refcount := u32 (pg_refcount x + 1)\<rparr>) s1"
      "link_pgroup pg area1 s2 = Some s3" "link_aspace a area1 s3 = Some s4"
      "map_pages (alength (area_st s4 area1)) (group_pages (pgroups s4 pg)) a at s4 = Some s5"
      "rsrc_bind area1 RSRC_AREA ow s5 = Some s'"
proof -
  define area0 where "area0 = rsrc_find RSRC_AREA area_id s"
  define at where "at = locate_span a (virt div 0x1000) (alength (area_st s area0)) s"
  show ?thesis
  proof (cases "area0 = 0 \<or> at = 0")
    case True
    then have "s' = s \<and> res < 0"
      using c by (auto simp: area_clone_def Let_def area0_def at_def split: if_splits)
    then show ?thesis using fail by blast
  next
    case False
    define pg where "pg = pgroup (area_st s area0)"
    have c': "do {
              (area1, s) \<leftarrow> new_area pg at (alength (area_st s area0)) (maxlength (area_st s area0)) s;
              let s = upd_pgroup pg (\<lambda>x. x\<lparr>pg_refcount := u32 (pg_refcount x + 1)\<rparr>) s;
              s \<leftarrow> link_pgroup pg area1 s;
              s \<leftarrow> link_aspace a area1 s;
              s \<leftarrow> map_pages (alength (area_st s area1)) (group_pages (pgroups s pg)) a at s;
              s \<leftarrow> rsrc_bind area1 RSRC_AREA (rowner (rsrcs s (current s))) s;
              Some (int (rid (rsrcs s area1)), at * 0x1000, s)
            } = Some (res, ad, s')"
      using c False unfolding area_clone_def Let_def area0_def at_def pg_def by simp
    have nz: "area0 \<noteq> 0" "at \<noteq> 0" using False by simp_all
    show ?thesis
      using c' unfolding Let_def
      by (elim bind_eqE) (auto elim!: bind_eqE intro: made [OF area0_def nz(1) at_def nz(2) pg_def refl])
  qed
qed

text \<open>One more area of a page group that has some.\<close>

lemma vm_new_ref:
  assumes ok: "vm_ok L s" and live: "pg_refcount (pgroups s pg) \<noteq> 0"
    and y: "pgroup y = pg" "0 < alength y" "alength y \<le> pg_size (pgroups s pg)"
    and ar: "ar \<notin> blocks L" and no: "nodes_only (L(KM96 := insert ar (L KM96))) L'"
    and m: "mem_ok L' (free_frames s) s'"
    and x: "x = (pgroups s pg)\<lparr>pg_refcount := pg_refcount (pgroups s pg) + 1, pg_areas := pg_areas (pgroups s pg) @ [(n1, ar)]\<rparr>"
    and s': "pgroups s' = (pgroups s)(pg := x)" "area_st s' = (area_st s)(ar := y)"
      "\<forall>q. rtype (rsrcs s' q) = (if q = ar then RSRC_AREA else rtype (rsrcs s q))"
  shows "area_added ar y x s s'" "group_pages x = group_pages (pgroups s pg)" "alength y \<le> length (group_pages x)"
    "tables_ok (is_area s') (area_st s') (pages_for s') (areas_in s') (\<lambda>b. ptab (aspaces s' b)) \<Longrightarrow> vm_ok L' s'"
proof -
  have gr: "groups_ok (L KM32) (pgroups s)" using ok by (simp add: vm_ok_def)
  have L': "L' KM32 = L KM32" "L' KM96 = insert ar (L KM96)" using no by (simp_all add: nodes_only_def)
  have obj: "objects L \<subseteq> objects L'" unfolding objects_nodes [OF no] by (auto simp: objects_def split: if_splits)
  have xs: "pg_pages x = pg_pages (pgroups s pg)" "pg_size x = pg_size (pgroups s pg)" "pg_flags x = pg_flags (pgroups s pg)"
    "pg_refcount x \<noteq> 0" by (simp_all add: x)
  have go: "groups_ok (L' KM32) (pgroups s')" unfolding s'(1) L'(1) by (rule groups_ok_ref(1) [of _ _ pg, OF gr live xs(1-3)])
  have "free_frames s' = free_frames s"
    unfolding free_frames_def s'(1) using groups_ok_ref(2) [of _ _ pg, OF gr live xs] by simp
  then have m': "mem_ok L' (free_frames s') s'" using m by simp
  show add: "area_added ar y x s s'" using y s' by (simp add: area_added_def x)
  show gp: "group_pages x = group_pages (pgroups s pg)" by (simp add: group_pages_def x)
  have "group_ok (L KM32) pg (pgroups s pg)" by (rule groups_ok_live [OF gr live])
  then show "alength y \<le> length (group_pages x)" unfolding gp using y(3) group_ok_size by fastforce
  show "vm_ok L' s'" if "tables_ok (is_area s') (area_st s') (pages_for s') (areas_in s') (\<lambda>b. ptab (aspaces s' b))"
    by (rule vm_ok_add [OF ok add ar _ _ obj m' go that]) (use L'(2) in auto)
qed

lemma area_clone_ok:
  assumes ok: "vm_ok L s" and lim: "\<And>g. pg_refcount (pgroups s g) < 4294967295"
    and c: "area_clone a area_id virt addr s = Some (res, ad, s')"
  shows "vm_next s s'"
  using c
proof (cases rule: area_cloneE)
  case (made area0 at pg y area1 s1 s2 s3 s4 s5 ow)
  let ?A = "free_frames s" and ?L1 = "L(KM96 := insert area1 (L KM96))" and ?g = "pgroups s pg"
  have h: "mem_ok L ?A s" and gr: "groups_ok (L KM32) (pgroups s)"
    and ao: "areas_ok (L KM96) (is_area s) (area_st s) (pgroups s)" using ok by (simp_all add: vm_ok_def)
  have "is_area s area0" using rsrc_find_type [of RSRC_AREA area_id s] made(1,2) by (simp add: is_area_def)
  from areas_ok_live [OF ao this] have live: "pg_refcount ?g \<noteq> 0" and len: "0 < alength y" "alength y \<le> pg_size ?g"
    by (simp_all add: made(5,6))
  from new_area_ok [OF h made(7)] obtain m1 where ar: "area1 \<notin> blocks L" "mem_ok ?L1 ?A s1"
    "s1 = upd_area area1 (\<lambda>_. \<lparr>pgroup = pg, virt_addr = at, alength = alength y, maxlength = maxlength y\<rparr>) (s\<lparr>km := m1\<rparr>)" by blast
  have "klists s2 = klists s1" by (rule ext, case_tac x) (simp_all add: made(8) upd_defs)
  then have m2: "mem_ok ?L1 ?A s2" by (intro mem_ok_cong [OF ar(2)]) (simp_all add: made(8))
  from link_pgroup_mem [OF m2 made(9)] obtain n1 m3 L3 where
    l3: "s3 = upd_pgroup pg (\<lambda>x. x\<lparr>pg_areas := pg_areas x @ [(n1, area1)]\<rparr>) (s2\<lparr>km := m3\<rparr>)" "mem_ok L3 ?A s3" "nodes_only ?L1 L3"
    by blast
  from link_aspace_mem [OF l3(2) made(10)] obtain n2 m4 L4 where
    l4: "s4 = upd_aspace a (\<lambda>x. x\<lparr>areas := areas x @ [(n2, area1)]\<rparr>) (s3\<lparr>km := m4\<rparr>)" "mem_ok L4 ?A s4" "nodes_only L3 L4"
    by blast
  let ?ps = "take (alength y) (group_pages ?g)"
  have e4: "area_st s4 area1 = y" "group_pages (pgroups s4 pg) = group_pages ?g" "ptab (aspaces s4 a) = ptab (aspaces s a)"
    by (simp_all add: l4(1) l3(1) made(8,6) ar(3) upd_defs group_pages_def)
  note mp = map_pages_ok [OF made(11), unfolded e4]
  have m5: "mem_ok L4 ?A s5" using mp l4(2) by simp
  from rsrc_bind_mem [OF m5 made(12)] obtain L' where
    b: "same_vm s5 s'" "mem_ok L' ?A s'" "nodes_only L4 L'"
      "\<forall>x. rtype (rsrcs s' x) = (if x = area1 then RSRC_AREA else rtype (rsrcs s5 x))" by blast
  have no: "nodes_only ?L1 L'" using l3(3) l4(3) b(3) nodes_only_trans by blast
  define x where "x = ?g\<lparr>pg_refcount := pg_refcount ?g + 1, pg_areas := pg_areas ?g @ [(n1, area1)]\<rparr>"
  have f: "pgroups s' = (pgroups s)(pg := x)" "area_st s' = (area_st s)(area1 := y)" "rsrcs s5 = rsrcs s"
    "aspaces s' = (aspaces s)(a := (aspaces s a)\<lparr>areas := areas (aspaces s a) @ [(n2, area1)],
       ptab := map_range (ptab (aspaces s a)) at ?ps\<rparr>)"
    using b(1) mp lim [of pg] unfolding same_vm_def x_def by (simp_all add: upd_defs set_ptab_def l4(1) l3(1) made(8,6) ar(3))
  have t: "\<forall>q. rtype (rsrcs s' q) = (if q = area1 then RSRC_AREA else rtype (rsrcs s q))" using b(4) f(3) by simp
  have y: "pgroup y = pg" "virt_addr y = at" by (simp_all add: made(6))
  note g = vm_new_ref [OF ok live y(1) len ar(1) no b(2) x_def f(1,2) t]
  have "tables_ok (is_area s') (area_st s') (pages_for s') (areas_in s') (\<lambda>b. ptab (aspaces s' b))"
  proof (rule vm_tables_map [OF ok g(1) ar(1)])
    show "?ps = take (alength y) (group_pages x)" "alength y \<le> length (group_pages x)"
      "0 < virt_addr y" "virt_addr y + alength y \<le> 1024" using g(2,3) made(4) mp len(1) by (simp_all add: y)
    show "ptab (aspaces s a) i = 0" if "i \<in> span y" for i
      using that locate_span_free [OF made(3,4)] mp len(1) by (simp add: span_def y) (simp add: made(6))
    show "areas_in s' = (areas_in s)(a := areas_in s a @ [area1])"
      "(\<lambda>b. ptab (aspaces s' b)) = (\<lambda>b. ptab (aspaces s b))(a := map_range (ptab (aspaces s a)) (virt_addr y) ?ps)"
      by (simp_all add: areas_in_def f(4) y fun_eq_iff)
  qed
  then show ?thesis by (rule area_added_next [OF g(1) g(4)])
next
  case fail
  then show ?thesis using vm_next_refl [OF ok] by simp
qed

section \<open>Destroying an area\<close>

lemma area_destroyE:
  assumes c: "area_destroy a area_id s = Some (res, s')"
  obtains (fail) "s' = s" "res = ERR_RESOURCE"
  | (gone) ar y g l m s1 s2 e2 l2 m2 s3 s4 s5 where "ar = rsrc_find RSRC_AREA area_id s" "ar \<noteq> 0" "y = area_st s ar" "g = pgroup y"
      "kl_remove ar (areas (aspaces s a)) (km s) = Some (0, l, m)"
      "s1 = upd_aspace a (\<lambda>x. x\<lparr>areas := l\<rparr>) (s\<lparr>km := m\<rparr>)"
      "aspace_clr (alength y) a (virt_addr y) s1 = Some s2"
      "kl_remove ar (pg_areas (pgroups s g)) (km s2) = Some (e2, l2, m2)"
      "s3 = upd_pgroup g (\<lambda>x. x\<lparr>pg_areas := l2, pg_refcount := u32_sub (pg_refcount x) 1\<rparr>) (s2\<lparr>km := m2\<rparr>)"
      "(if pg_refcount (pgroups s3 g) = 0
        then do { s \<leftarrow> release_pages (owns_frames (pgroups s3 g)) (pg_size (pgroups s3 g)) (pg_pages (pgroups s3 g)) s3;
             kfree sizeof_pagegroup g s } else Some s3) = Some s4"
      "rsrc_release ar s4 = Some s5" "kfree sizeof_area ar s5 = Some s'" "res = ERR_NONE"
proof -
  define ar where "ar = rsrc_find RSRC_AREA area_id s"
  define y where "y = area_st s ar"
  define g where "g = pgroup y"
  show ?thesis
  proof (cases "ar = 0")
    case True
    then have "s' = s \<and> res = ERR_RESOURCE" using c by (auto simp: area_destroy_def Let_def ar_def)
    then show ?thesis using fail by blast
  next
    case False
    obtain e l m where k: "kl_remove ar (areas (aspaces s a)) (km s) = Some (e, l, m)" using kl_remove_Some by blast
    show ?thesis
    proof (cases "e = 0")
      case e: False
      then have "s' = s \<and> res = ERR_RESOURCE" using c k False by (auto simp: area_destroy_def Let_def ar_def)
      then show ?thesis using fail by blast
    next
      case e: True
      define s1 where "s1 = upd_aspace a (\<lambda>x. x\<lparr>areas := l\<rparr>) (s\<lparr>km := m\<rparr>)"
      have y1: "area_st s1 ar = y" by (simp add: s1_def y_def upd_defs)
      obtain s2 where s2: "aspace_clr (alength y) a (virt_addr y) s1 = Some s2"
        and c2: "do { (e, l, m) \<leftarrow> kl_remove ar (pg_areas (pgroups s2 (pgroup (area_st s2 ar)))) (km s2);
          let s = upd_pgroup (pgroup (area_st s2 ar)) (\<lambda>x. x\<lparr>pg_areas := l, pg_refcount := u32_sub (pg_refcount x) 1\<rparr>) (s2\<lparr>km := m\<rparr>);
          s \<leftarrow> (if pg_refcount (pgroups s (pgroup (area_st s2 ar))) = 0
                then do {
                  s \<leftarrow> release_pages (pg_flags (pgroups s (pgroup (area_st s2 ar))) AND AREA_PHYSMAP = 0)
                         (pg_size (pgroups s (pgroup (area_st s2 ar)))) (pg_pages (pgroups s (pgroup (area_st s2 ar)))) s;
                  kfree sizeof_pagegroup (pgroup (area_st s2 ar)) s
                } else Some s);
          s \<leftarrow> rsrc_release ar s;
          s \<leftarrow> kfree sizeof_area ar s;
          Some (ERR_NONE, s) } = Some (res, s')"
        using c False e k unfolding area_destroy_def Let_def ar_def [symmetric]
        by (auto simp: s1_def [symmetric] y1 elim!: bind_eqE)
      have f2: "s2 = set_ptab a (clear_range (ptab (aspaces s1 a)) (virt_addr y) (alength y)) s1" by (rule aspace_clr_ok [OF s2])
      have g2: "pgroup (area_st s2 ar) = g" "pgroups s2 = pgroups s" by (simp_all add: f2 s1_def g_def y_def set_ptab_def upd_defs)
      show ?thesis
        using c2 unfolding g2 Let_def owns_frames_def [symmetric]
        by (elim bind_eqE) (auto elim!: bind_eqE intro: gone [OF ar_def False y_def g_def k [unfolded e] s1_def s2])
    qed
  qed
qed

lemma release_group:
  assumes r: "do { s \<leftarrow> release_pages (owns_frames x) (pg_size x) (pg_pages x) s; kfree sizeof_pagegroup g s } = Some s'"
    and h: "mem_ok L A s" and x: "group_ok (L KM32) g x" and A: "set (frames x) \<inter> A = {}"
  shows "\<exists>m. s' = s\<lparr>km := m\<rparr> \<and> mem_ok (L(KM32 := L KM32 - set (gblocks g x))) (A \<union> set (frames x)) s'"
proof -
  obtain s1 where s1: "release_pages (owns_frames x) (pg_size x) (pg_pages x) s = Some s1" "kfree sizeof_pagegroup g s1 = Some s'"
    using r by (auto elim!: bind_eqE)
  let ?P = "fst ` set (pg_pages x)"
  have fx: "take (pg_size x) (concat (map snd (pg_pages x))) = frames x" if "owns_frames x"
    using that by (simp add: frames_def group_pages_def)
  have d: "distinct (map fst (pg_pages x))" "g \<notin> ?P" "?P \<subseteq> L KM32" "g \<in> L KM32"
    using x by (auto simp: group_ok_def gblocks_def)
  have "\<exists>m. s1 = s\<lparr>km := m\<rparr> \<and> mem_ok (L(KM32 := L KM32 - ?P))
      (if owns_frames x then A \<union> set (take (pg_size x) (concat (map snd (pg_pages x)))) else A) s1"
  proof (rule release_pages_ok [OF s1(1) h d(1,3)])
    show "\<forall>q \<in> set (pg_pages x). length (snd q) = 6" using x by (simp add: group_ok_def)
    show "distinct (take (pg_size x) (concat (map snd (pg_pages x)))) \<and> set (take (pg_size x) (concat (map snd (pg_pages x)))) \<inter> A = {} \<and>
        0 \<notin> set (take (pg_size x) (concat (map snd (pg_pages x))))" if "owns_frames x"
      unfolding fx [OF that] using x A by (auto simp: group_ok_def)
  qed
  moreover have "(if owns_frames x then A \<union> set (take (pg_size x) (concat (map snd (pg_pages x)))) else A) = A \<union> set (frames x)"
    using fx by (cases "owns_frames x") (simp_all add: frames_def)
  ultimately obtain m where m: "s1 = s\<lparr>km := m\<rparr>" "mem_ok (L(KM32 := L KM32 - ?P)) (A \<union> set (frames x)) s1" by auto
  have "g \<in> (L(KM32 := L KM32 - ?P)) (size_map ! sizeof_pagegroup)" "size_map ! sizeof_pagegroup \<noteq> KM16" using d by simp_all
  from kfree_mem [OF m(2) this s1(2)] obtain m' where m': "s' = s1\<lparr>km := m'\<rparr>"
    "mem_ok ((L(KM32 := L KM32 - ?P))(size_map ! 28 := (L(KM32 := L KM32 - ?P)) (size_map ! 28) - {g})) (A \<union> set (frames x)) s'" by blast
  have "(L(KM32 := L KM32 - ?P))(size_map ! 28 := (L(KM32 := L KM32 - ?P)) (size_map ! 28) - {g}) = L(KM32 := L KM32 - set (gblocks g x))"
    by (auto simp: gblocks_def fun_eq_iff)
  then show ?thesis using m m' by (intro exI [of _ m']) (simp del: fun_upd_apply)
qed

text \<open>What is left when area \<open>r\<close> of address space \<open>a\<close> is gone; \<open>x\<close> is its page group afterwards.\<close>

definition area_gone :: "nat \<Rightarrow> nat \<Rightarrow> pagegroup_t \<Rightarrow> kstate \<Rightarrow> kstate \<Rightarrow> bool" where
  "area_gone a r x s s' \<longleftrightarrow> (let y = area_st s r; g = pgroups s (pgroup y) in
     r \<in> set (areas_in s a) \<and> pgroups s' = (pgroups s)(pgroup y := x) \<and> area_st s' = area_st s \<and>
     (\<forall>q. rtype (rsrcs s' q) = (if q = r then RSRC_NONE else rtype (rsrcs s q))) \<and>
     map snd (pg_areas x) = remove1 r (map snd (pg_areas g)) \<and> pg_refcount x = pg_refcount g - 1 \<and>
     pg_size x = pg_size g \<and> pg_pages x = pg_pages g \<and> pg_flags x = pg_flags g \<and>
     areas_in s' = (areas_in s)(a := remove1 r (areas_in s a)) \<and>
     (\<lambda>b. ptab (aspaces s' b)) = (\<lambda>b. ptab (aspaces s b))(a := clear_range (ptab (aspaces s a)) (virt_addr y) (alength y)))"

lemma vm_ok_gone:
  assumes ok: "vm_ok L s" and gone: "area_gone a r x s s'" and g: "g = pgroup (area_st s r)"
    and L': "L' KM32 = (if pg_refcount x = 0 then L KM32 - set (gblocks g (pgroups s g)) else L KM32)" "L' KM96 = L KM96 - {r}"
      "\<And>c. c \<in> {KM64..<KMMAX} - {KM96} \<Longrightarrow> L' c = L c"
    and m: "mem_ok L' (if pg_refcount x = 0 then free_frames s \<union> set (frames (pgroups s g)) else free_frames s) s'"
  shows "vm_ok L' s'"
proof -
  let ?G = "pgroups s"
  note gd = gone [unfolded area_gone_def Let_def g [symmetric]]
  have gr: "groups_ok (L KM32) ?G" and ao: "areas_ok (L KM96) (is_area s) (area_st s) ?G"
    and t: "tables_ok (is_area s) (area_st s) (pages_for s) (areas_in s) (\<lambda>a. ptab (aspaces s a))"
    and ob: "\<And>q. rtype (rsrcs s q) \<noteq> RSRC_NONE \<Longrightarrow> q \<in> objects L" using ok by (simp_all add: vm_ok_def)
  have r: "is_area s r" by (rule tables_ok_areas [OF t]) (use gd in blast)
  have live: "pg_refcount (?G g) \<noteq> 0" using areas_ok_live [OF ao r] g by simp
  have isa: "is_area s' = (is_area s)(r := False)" using gd by (auto simp: is_area_def fun_eq_iff)
  have s': "pgroups s' = ?G(g := x)" "area_st s' = area_st s" using gd by blast+
  have rg: "r \<in> set (map snd (pg_areas (?G g)))" using ao r unfolding areas_ok_def g by blast
  have "areas_ok (L' KM96) (is_area s') (area_st s') (pgroups s')"
    unfolding isa s' L'(2) by (rule areas_ok_remove [OF ao rg]) (use gd in blast)+
  moreover have "groups_ok (L' KM32) (pgroups s') \<and> mem_ok L' (free_frames s') s'"
  proof (cases "pg_refcount x = 0")
    case True
    note d = groups_ok_drop [of _ _ g, OF gr live True]
    have "set (frames (?G g)) \<subseteq> {0<..<0x100000}" using groups_ok_live [OF gr live] by (simp add: group_ok_def)
    then have "free_frames s' = free_frames s \<union> set (frames (?G g))" unfolding free_frames_def s'(1) d(2) by blast
    then show ?thesis using d(1) m L'(1) True s'(1) by simp
  next
    case False
    have x: "pg_pages x = pg_pages (?G g)" "pg_size x = pg_size (?G g)" "pg_flags x = pg_flags (?G g)" using gd by blast+
    note d = groups_ok_ref [of _ _ g, OF gr live x]
    have "free_frames s' = free_frames s" unfolding free_frames_def s'(1) d(2) [OF False] ..
    then show ?thesis using d(1) m L'(1) False s'(1) by simp
  qed
  moreover have "tables_ok (is_area s') (area_st s') (pages_for s') (areas_in s') (\<lambda>a. ptab (aspaces s' a))"
  proof -
    have "pages_for s' q = pages_for s q" for q using gd by (simp add: pages_for_def group_pages_def)
    then show ?thesis using tables_ok_remove [OF t, of r a "pages_for s'"] gd unfolding isa s'(2) by auto
  qed
  moreover have "q \<in> objects L'" if "rtype (rsrcs s' q) \<noteq> RSRC_NONE" for q
  proof -
    have "q \<noteq> r" "rtype (rsrcs s q) \<noteq> RSRC_NONE" using that gd by (auto split: if_splits)
    then obtain c where c: "c \<in> {KM64..<KMMAX}" "q \<in> L c" using ob [of q] by (auto simp: objects_def)
    then have "q \<in> L' c" using L'(2,3) \<open>q \<noteq> r\<close> by (cases "c = KM96") auto
    then show ?thesis using c(1) by (auto simp: objects_def)
  qed
  ultimately show ?thesis by (simp add: vm_ok_def)
qed


lemma release_if_last:
  assumes r: "(if pg_refcount x = 0
      then do { s \<leftarrow> release_pages (owns_frames x) (pg_size x) (pg_pages x) s; kfree sizeof_pagegroup g s } else Some s) = Some s'"
    and h: "mem_ok L A s" and x: "group_ok (L KM32) g x" and A: "set (frames x) \<inter> A = {}"
  shows "\<exists>L' m. s' = s\<lparr>km := m\<rparr> \<and> mem_ok L' (if pg_refcount x = 0 then A \<union> set (frames x) else A) s' \<and>
    L' = (if pg_refcount x = 0 then L(KM32 := L KM32 - set (gblocks g x)) else L)"
proof (cases "pg_refcount x = 0")
  case True
  then show ?thesis using release_group [OF _ h x A, of s'] r by auto
next
  case False
  then show ?thesis using r h by (intro exI [of _ L] exI [of _ "km s"]) simp
qed

lemma area_destroy_gone:
  assumes ok: "vm_ok L s" and lim: "\<And>g. pg_refcount (pgroups s g) < 4294967296"
    and c: "area_destroy a area_id s = Some (res, s')"
  shows "s' = s \<and> res = ERR_RESOURCE \<or>
    (\<exists>x L'. area_gone a (rsrc_find RSRC_AREA area_id s) x s s' \<and> vm_ok L' s' \<and> res = ERR_NONE)"
  using c
proof (cases rule: area_destroyE)
  case (gone ar y g l m s1 s2 e2 l2 m2 s3 s4 s5)
  let ?A = "free_frames s" and ?G = "pgroups s" and ?x = "pgroups s3 g"
  have h: "mem_ok L ?A s" and gr: "groups_ok (L KM32) ?G" and ao: "areas_ok (L KM96) (is_area s) (area_st s) ?G"
    using ok by (simp_all add: vm_ok_def)
  have r: "is_area s ar" using rsrc_find_type [of RSRC_AREA area_id s] gone(1,2) by (simp add: is_area_def)
  have live: "pg_refcount (?G g) \<noteq> 0" using areas_ok_live [OF ao r] gone(3,4) by simp
  have rg: "ar \<in> set (map snd (pg_areas (?G g)))" using ao r gone(3,4) unfolding areas_ok_def by blast
  have hp: "kheap L ?A (km s)" "nodes_ok (L KM16) (klists s)" using h by (simp_all add: mem_ok_def)
  from kl_remove_ok [of L ?A "km s" "klists s" ar "AreasOf a" 0 l m] hp gone(5) obtain L1 where
    k1: "mem_ok L1 ?A s1" "nodes_only L L1" "ar \<in> set (areas_in s a)" "map snd l = remove1 ar (areas_in s a)"
    by (auto simp: mem_ok_def gone(6) klists_space areas_in_def)
  have s2: "s2 = set_ptab a (clear_range (ptab (aspaces s1 a)) (virt_addr y) (alength y)) s1" by (rule aspace_clr_ok [OF gone(7)])
  then have "mem_ok L1 ?A s2" using k1(1) by simp
  moreover have G2: "pgroups s2 = ?G" by (simp add: s2 set_ptab_def upd_defs gone(6))
  moreover note kl_remove_ok [of L1 ?A "km s2" "klists s2" ar "GroupOf g" e2 l2 m2] gone(8) rg
  ultimately obtain L2 where
    k2: "mem_ok L2 ?A s3" "nodes_only L1 L2" "map snd l2 = remove1 ar (map snd (pg_areas (?G g)))"
    by (auto simp: mem_ok_def gone(9) klists_group)
  have no2: "nodes_only L L2" using k1(2) k2(2) nodes_only_trans by blast
  have us: "u32_sub (pg_refcount (?G g)) (Suc 0) = pg_refcount (?G g) - Suc 0" using live lim [of g] by simp
  have x: "?x = (?G g)\<lparr>pg_areas := l2, pg_refcount := pg_refcount (?G g) - 1\<rparr>"
    using live lim [of g] G2 by (simp add: gone(9) upd_defs)
  have xs: "pg_pages ?x = pg_pages (?G g)" "pg_size ?x = pg_size (?G g)" "pg_flags ?x = pg_flags (?G g)" by (simp_all add: x)
  have gx: "gblocks g ?x = gblocks g (?G g)" "frames ?x = frames (?G g)" "group_ok (L2 KM32) g ?x"
    using groups_ok_live [OF gr live] nodes_only_nth [OF no2, of KM32] same_pages [OF xs] by simp_all
  have "set (frames ?x) \<inter> ?A = {}" using live unfolding gx(2) free_frames_def in_use_def by blast
  from release_if_last [OF gone(10) k2(1) gx(3) this] obtain L3 m4 where
    s4: "s4 = s3\<lparr>km := m4\<rparr>" "mem_ok L3 (if pg_refcount ?x = 0 then ?A \<union> set (frames (?G g)) else ?A) s4"
      "L3 = (if pg_refcount ?x = 0 then L2(KM32 := L2 KM32 - set (gblocks g (?G g))) else L2)" unfolding gx(1,2) by blast
  let ?A4 = "if pg_refcount ?x = 0 then ?A \<union> set (frames (?G g)) else ?A"
  from rsrc_release_mem [OF s4(2) gone(11)] obtain L4 where
    s5: "same_vm s4 s5" "mem_ok L4 ?A4 s5" "nodes_only L3 L4"
      "\<forall>q. rtype (rsrcs s5 q) = (if q = ar then RSRC_NONE else rtype (rsrcs s4 q))" by blast
  have L4: "L4 KM96 = L KM96" "\<And>c. c \<in> {KM64..<KMMAX} \<Longrightarrow> L4 c = L c"
    "L4 KM32 = (if pg_refcount ?x = 0 then L KM32 - set (gblocks g (?G g)) else L KM32)"
    using s5(3) no2 s4(3) by (simp_all add: nodes_only_def)
  have "ar \<in> L4 (size_map ! sizeof_area)" "size_map ! sizeof_area \<noteq> KM16" using areas_ok_live [OF ao r] L4(1) by simp_all
  from kfree_mem [OF s5(2) this gone(12)] obtain m6 where s6: "s' = s5\<lparr>km := m6\<rparr>"
    "mem_ok (L4(KM96 := L4 KM96 - {ar})) ?A4 s'" by (auto simp del: mem_ok_km)
  have go: "area_gone a ar ?x s s'"
    using s5(1,4) k1(3,4) k2(3) us unfolding area_gone_def Let_def same_vm_def gone(3) [symmetric] gone(4) [symmetric]
    by (simp add: s6(1) s4(1) x gone(6,9) s2 set_ptab_def upd_defs areas_in_def fun_eq_iff)
  from vm_ok_gone [OF ok go] have "vm_ok (L4(KM96 := L4 KM96 - {ar})) s'"
    using L4 s6(2) gone(3,4) by (simp del: mem_ok_km)
  then show ?thesis using go gone(1,13) by blast
qed simp

lemma area_destroy_ok:
  assumes "vm_ok L s" and "\<And>g. pg_refcount (pgroups s g) < 4294967296" and "area_destroy a area_id s = Some (res, s')"
  shows "vm_next s s'"
  using area_destroy_gone [OF assms]
proof (elim disjE exE conjE)
  fix x L' assume "area_gone a (rsrc_find RSRC_AREA area_id s) x s s'" "vm_ok L' s'"
  then show ?thesis by (auto simp: vm_next_def vm_inv_def area_gone_def Let_def)
qed (use vm_next_refl [OF assms(1)] in simp)

section \<open>A new address space\<close>

lemma aspace_create_ok:
  assumes ok: "vm_ok L s" and c: "aspace_create s = Some (a, s')"
  shows "vm_next s s'"
proof -
  have h: "mem_ok L (free_frames s) s" using ok by (simp add: vm_ok_def)
  obtain s1 v0 p0 m0 v1 p1 m1 where r1: "kmalloc sizeof_aspace s = Some (a, s1)"
    and r2: "kgetpage (km s1) = Some (v0, p0, m0)" and r3: "kgetpage m0 = Some (v1, p1, m1)"
    and r4: "rsrc_bind a RSRC_ASPACE (kernel_team (upd_aspace a (\<lambda>_. \<lparr>areas = [], pdir_page = v0, ptab_page = v1,
        pdir = (\<lambda>_. 0)(0 := p1 OR 7, 512 := u32 (kcr3 s1 + 2 * 4096) OR 3), ptab = (\<lambda>_. 0), pdirphys = p0\<rparr>) (s1\<lparr>km := m1\<rparr>)))
      (upd_aspace a (\<lambda>_. \<lparr>areas = [], pdir_page = v0, ptab_page = v1,
        pdir = (\<lambda>_. 0)(0 := p1 OR 7, 512 := u32 (kcr3 s1 + 2 * 4096) OR 3), ptab = (\<lambda>_. 0), pdirphys = p0\<rparr>) (s1\<lparr>km := m1\<rparr>)) = Some s'"
    using c unfolding aspace_create_def Let_def by (elim bind_eqE) (auto elim!: bind_eqE)
  let ?L = "L(KM128 := insert a (L KM128))" and ?A = "free_frames s"
  from kmalloc_mem [OF h r1] obtain m where s1: "s1 = s\<lparr>km := m\<rparr>" "a \<notin> blocks L" "mem_ok ?L ?A s1" by auto
  define s2 where "s2 = upd_aspace a (\<lambda>_. \<lparr>areas = [], pdir_page = v0, ptab_page = v1,
        pdir = (\<lambda>_. 0)(0 := p1 OR 7, 512 := u32 (kcr3 s1 + 2 * 4096) OR 3), ptab = (\<lambda>_. 0), pdirphys = p0\<rparr>) (s1\<lparr>km := m1\<rparr>)"
  have "kheap ?L ?A m1" using kheap_kgetpage [OF kheap_kgetpage [OF _ r2] r3] s1(3) by (simp add: mem_ok_def)
  then have "mem_ok ?L ?A s2"
    using s1(3) nodes_ok_clear [of "?L KM16" "klists s1" "AreasOf a"] by (simp add: mem_ok_def s2_def klists_space)
  from rsrc_bind_mem [OF this r4 [folded s2_def]] obtain L' where
    b: "same_vm s2 s'" "mem_ok L' ?A s'" "nodes_only ?L L'"
      "\<forall>x. rtype (rsrcs s' x) = (if x = a then RSRC_ASPACE else rtype (rsrcs s2 x))" by blast
  have f: "pgroups s' = pgroups s" "area_st s' = area_st s" "rsrcs s2 = rsrcs s"
    "areas_in s' = (areas_in s)(a := [])" "(\<lambda>b. ptab (aspaces s' b)) = (\<lambda>b. ptab (aspaces s b))(a := (\<lambda>_. 0))"
    using b(1) unfolding same_vm_def s2_def s1(1) by (simp_all add: upd_defs areas_in_def fun_eq_iff)
  have isa: "is_area s' = is_area s" using b(4) f(3) vm_ok_fresh [OF ok s1(2)] by (auto simp: is_area_def fun_eq_iff)
  have L': "L' KM32 = L KM32" "L' KM96 = L KM96" "objects L \<subseteq> objects L'" "a \<in> objects L'"
    using b(3) unfolding objects_nodes [OF b(3)] by (auto simp: nodes_only_def objects_def split: if_splits)
  have "tables_ok (is_area s') (area_st s') (pages_for s') (areas_in s') (\<lambda>b. ptab (aspaces s' b))"
  proof -
    have t: "tables_ok (is_area s) (area_st s) (pages_for s) (areas_in s) (\<lambda>b. ptab (aspaces s b))" using ok by (simp add: vm_ok_def)
    have "pages_for s' = pages_for s" by (rule ext) (simp add: pages_for_def f)
    then show ?thesis using t unfolding isa f(2,4,5) by (auto simp: tables_ok_def table_ok_def)
  qed
  moreover have "free_frames s' = free_frames s" by (simp add: free_frames_def f(1))
  moreover have "q \<in> objects L'" if "rtype (rsrcs s' q) \<noteq> RSRC_NONE" for q
    using that b(4) f(3) L'(3,4) ok by (auto simp: vm_ok_def split: if_splits)
  ultimately have "vm_ok L' s'" using ok b(2) L' unfolding vm_ok_def isa f(1,2) by simp
  then show ?thesis using f(1) by (auto simp: vm_next_def vm_inv_def)
qed

end
