(* ===== verification/AspaceGrow.thy ===== *)
theory AspaceGrow
  imports AspaceInv
begin

text \<open>
  Growing areas: the loop of \<open>area_resize\<close> in \<^verbatim>\<open>kernel/aspace.c\<close> and what it does to page
  groups and tables.
\<close>

section \<open>Growing an area\<close>

text \<open>The array entries while the loop of \<open>area_resize\<close> runs: \<open>q\<close> pages are stored, the last entry has
  room unless \<open>q\<close> is a multiple of six.\<close>

definition add_entry :: "nat \<Rightarrow> nat \<Rightarrow> (nat \<times> nat list) list \<Rightarrow> (nat \<times> nat list) list" where
  "add_entry q pp P = (if q mod 6 = 0 then P @ [(pp, replicate 6 0)] else P)"

definition put_last :: "nat \<Rightarrow> nat \<Rightarrow> (nat \<times> nat list) list \<Rightarrow> (nat \<times> nat list) list" where
  "put_last j p P = butlast P @ [(fst (last P), (snd (last P))[j := p])]"

definition entries_ok :: "nat \<Rightarrow> (nat \<times> nat list) list \<Rightarrow> bool" where
  "entries_ok q P \<longleftrightarrow> length P = (q + 5) div 6 \<and> (\<forall>e \<in> set P. length (snd e) = 6)"

lemma put_last_snoc [simp]: "put_last j p (B @ [(b, as)]) = B @ [(b, as[j := p])]"
  by (simp add: put_last_def)

lemma entries_last:
  assumes "entries_ok q P" and "q mod 6 \<noteq> 0"
  obtains B b as where "P = B @ [(b, as)]" "length as = 6" "length B = q div 6" "\<forall>e \<in> set B. length (snd e) = 6"
proof -
  have l: "length P = q div 6 + 1"
  proof -
    have "(q + 5) div 6 = q div 6 + 1" using assms(2) by presburger
    then show ?thesis using assms(1) by (simp add: entries_ok_def)
  qed
  then obtain B e where "P = B @ [e]" by (cases P rule: rev_cases) auto
  then show ?thesis using l assms(1) that [of B "fst e" "snd e"] by (simp add: entries_ok_def)
qed

lemma put_entry:
  assumes ok: "entries_ok q P"
  shows "entries_ok (Suc q) (put_last (q mod 6) p (add_entry q pp P)) \<and>
    take (Suc q) (concat (map snd (put_last (q mod 6) p (add_entry q pp P)))) = take q (concat (map snd P)) @ [p] \<and>
    map fst (put_last (q mod 6) p (add_entry q pp P)) = map fst P @ (if q mod 6 = 0 then [pp] else [])"
proof (cases "q mod 6 = 0")
  case True
  then obtain k where q: "q = 6 * k" by (metis dvd_def mod_eq_0_iff_dvd)
  then have l: "length P = k" "\<forall>e \<in> set P. length (snd e) = 6" using ok by (simp_all add: entries_ok_def)
  have c: "length (concat (map snd P)) = q" using concat_6 [OF l(2)] l(1) q by simp
  have r: "replicate 6 (0 :: nat) = [0, 0, 0, 0, 0, 0]" by (simp add: numeral_eq_Suc)
  show ?thesis using True l c q by (simp add: add_entry_def entries_ok_def r)
next
  case False
  from entries_last [OF ok False] obtain B b as where P: "P = B @ [(b, as)]" "length as = 6" "length B = q div 6"
    "\<forall>e \<in> set B. length (snd e) = 6" .
  have c: "length (concat (map snd B)) = 6 * (q div 6)" using concat_6 [OF P(4)] P(3) by simp
  have q: "q - 6 * (q div 6) = q mod 6" "Suc q - 6 * (q div 6) = Suc (q mod 6)" "q mod 6 < 6"
    by (simp_all add: minus_mult_div_eq_mod Suc_diff_le)
  have "take (Suc (q mod 6)) (as[q mod 6 := p]) = take (q mod 6) as @ [p]"
    using P(2) q(3) by (simp add: take_Suc_conv_app_nth)
  moreover have "(Suc q + 5) div 6 = Suc (q div 6)" using False by presburger
  moreover have "6 * (q div 6) \<le> Suc q" by presburger
  ultimately show ?thesis using False P c q by (simp add: add_entry_def entries_ok_def take_append)
qed


text \<open>One turn of the loop.\<close>

lemma grow_pages_Suc:
  assumes g: "grow_pages (Suc n) a pg (q mod 6) at s = Some s'" and h: "mem_ok L A s" and ok: "entries_ok q (pg_pages (pgroups s pg))"
  obtains pp p m s1 L1 new where "grow_pages n a pg (Suc q mod 6) (at + 1) s1 = Some s'" "at < 1024"
    "new = (if q mod 6 = 0 then [pp] else [])" "set new \<inter> blocks L = {}" "L1 = L(KM32 := set new \<union> L KM32)"
    "p \<in> A" "p \<noteq> 0" "mem_ok L1 (A - {p}) s1"
    "s1 = upd_pgroup pg (\<lambda>x. x\<lparr>pg_pages := put_last (q mod 6) p (add_entry q pp (pg_pages x))\<rparr>)
      (set_ptab a ((ptab (aspaces s a))(at := pte p 7)) (s\<lparr>km := m\<rparr>))"
proof -
  obtain s0 p m s2 where s0: "(if q mod 6 = 0 then do {
              (pp0, s) \<leftarrow> kmalloc sizeof_phys_page s;
              Some (upd_pgroup pg (\<lambda>x. x\<lparr>pg_pages := pg_pages x @ [(pp0, replicate 6 0)]\<rparr>) s)
            } else Some s) = Some s0" and p: "getpage (km s0) = Some (p, m)"
    and s2: "aspace_map (Suc 0) a p at 7 (s0\<lparr>km := m\<rparr>) = Some s2"
    and r: "grow_pages n a pg (if q mod 6 + 1 = 6 then 0 else q mod 6 + 1) (at + 1)
      (upd_pgroup pg (\<lambda>x. x\<lparr>pg_pages := put_last (q mod 6) p (pg_pages x)\<rparr>) s2) = Some s'"
    using g unfolding grow_pages.simps Let_def put_last_def One_nat_def by (elim bind_eqE) (auto elim!: bind_eqE)
  have "\<exists>pp m0 new. new = (if q mod 6 = 0 then [pp] else []) \<and> set new \<inter> blocks L = {} \<and>
      s0 = upd_pgroup pg (\<lambda>x. x\<lparr>pg_pages := add_entry q pp (pg_pages x)\<rparr>) (s\<lparr>km := m0\<rparr>) \<and>
      mem_ok (L(KM32 := set new \<union> L KM32)) A s0"
  proof (cases "q mod 6 = 0")
    case True
    then obtain pp s3 where k: "kmalloc sizeof_phys_page s = Some (pp, s3)"
      "s0 = upd_pgroup pg (\<lambda>x. x\<lparr>pg_pages := pg_pages x @ [(pp, replicate 6 0)]\<rparr>) s3" using s0 by (auto elim!: bind_eqE)
    from kmalloc_mem [OF h k(1)] obtain m0 where m0: "s3 = s\<lparr>km := m0\<rparr>" "pp \<notin> blocks L" "mem_ok (L(KM32 := insert pp (L KM32))) A s3"
      by auto
    have "klists s0 = klists s3" by (rule ext, case_tac x) (simp_all add: k(2) upd_defs)
    then have "mem_ok (L(KM32 := insert pp (L KM32))) A s0" by (intro mem_ok_cong [OF m0(3)]) (simp_all add: k(2))
    then show ?thesis using True k m0 by (intro exI [of _ pp] exI [of _ m0] exI [of _ "[pp]"]) (simp add: add_entry_def)
  next
    case False
    then show ?thesis using s0 h by (intro exI [of _ 0] exI [of _ "km s"] exI [of _ "[]"]) (simp add: add_entry_def upd_defs)
  qed
  then obtain pp m0 new where e: "new = (if q mod 6 = 0 then [pp] else [])" "set new \<inter> blocks L = {}"
      "s0 = upd_pgroup pg (\<lambda>x. x\<lparr>pg_pages := add_entry q pp (pg_pages x)\<rparr>) (s\<lparr>km := m0\<rparr>)"
      "mem_ok (L(KM32 := set new \<union> L KM32)) A s0" by blast
  let ?L = "L(KM32 := set new \<union> L KM32)"
  define s1 where "s1 = upd_pgroup pg (\<lambda>x. x\<lparr>pg_pages := put_last (q mod 6) p (pg_pages x)\<rparr>) s2"
  have a2: "at < 1024" "s2 = set_ptab a ((ptab (aspaces s0 a))(at := pte p 7)) (s0\<lparr>km := m\<rparr>)"
    using s2 by (simp_all add: aspace_map_one)
  from kheap_getpage [OF _ p] e(4) have pp: "p \<in> A" "p \<noteq> 0" "kheap ?L (A - {p}) m" by (auto simp: mem_ok_def)
  have m2: "mem_ok ?L (A - {p}) s2" using pp(3) e(4) by (simp add: a2(2) mem_ok_def)
  have k1: "klists s1 = klists s2" by (rule ext, case_tac x) (simp_all add: s1_def upd_defs)
  have m1: "mem_ok ?L (A - {p}) s1" by (rule mem_ok_cong [OF m2 _ k1]) (simp add: s1_def)
  have eq: "s1 = upd_pgroup pg (\<lambda>x. x\<lparr>pg_pages := put_last (q mod 6) p (add_entry q pp (pg_pages x))\<rparr>)
      (set_ptab a ((ptab (aspaces s a))(at := pte p 7)) (s\<lparr>km := m\<rparr>))"
    by (simp add: s1_def a2(2) e(3) upd_defs set_ptab_def)
  have "(if q mod 6 + 1 = 6 then 0 else q mod 6 + 1) = Suc q mod 6" by presburger
  then have r': "grow_pages n a pg (Suc q mod 6) (at + 1) s1 = Some s'" using r unfolding s1_def by simp
  show ?thesis by (rule that [OF r' a2(1) e(1,2) refl pp(1,2) m1 eq])
qed


lemma grow_pages_ok:
  assumes "grow_pages n a pg (q mod 6) at s = Some s'" and "mem_ok L A s" and "entries_ok q (pg_pages (pgroups s pg))"
  shows "\<exists>ps pps P m. length ps = n \<and> (0 < n \<longrightarrow> at + n \<le> 1024) \<and> distinct ps \<and> set ps \<subseteq> A \<and> 0 \<notin> set ps \<and>
    distinct pps \<and> set pps \<inter> blocks L = {} \<and> mem_ok (L(KM32 := set pps \<union> L KM32)) (A - set ps) s' \<and>
    entries_ok (q + n) P \<and> map fst P = map fst (pg_pages (pgroups s pg)) @ pps \<and>
    take (q + n) (concat (map snd P)) = take q (concat (map snd (pg_pages (pgroups s pg)))) @ ps \<and>
    s' = upd_pgroup pg (\<lambda>x. x\<lparr>pg_pages := P\<rparr>) (set_ptab a (map_range (ptab (aspaces s a)) at ps) (s\<lparr>km := m\<rparr>))"
  using assms
proof (induction n arbitrary: q at s L A)
  case 0
  let ?P = "pg_pages (pgroups s pg)"
  have "s' = upd_pgroup pg (\<lambda>x. x\<lparr>pg_pages := ?P\<rparr>) (set_ptab a (map_range (ptab (aspaces s a)) at []) (s\<lparr>km := km s\<rparr>))"
    using 0 by (simp add: upd_defs)
  then show ?case using 0
    by (intro exI [of _ "[]"] exI [of _ ?P] exI [of _ "km s"]) (simp del: fun_upd_apply)
next
  case (Suc n)
  from grow_pages_Suc [OF Suc.prems] obtain pp p m s1 L1 new where
    1: "grow_pages n a pg (Suc q mod 6) (at + 1) s1 = Some s'" "at < 1024"
    "new = (if q mod 6 = 0 then [pp] else [])" "set new \<inter> blocks L = {}" "L1 = L(KM32 := set new \<union> L KM32)"
    "p \<in> A" "p \<noteq> 0" "mem_ok L1 (A - {p}) s1"
    "s1 = upd_pgroup pg (\<lambda>x. x\<lparr>pg_pages := put_last (q mod 6) p (add_entry q pp (pg_pages x))\<rparr>)
      (set_ptab a ((ptab (aspaces s a))(at := pte p 7)) (s\<lparr>km := m\<rparr>))" .
  let ?P = "pg_pages (pgroups s pg)" and ?P1 = "pg_pages (pgroups s1 pg)"
  have P1: "?P1 = put_last (q mod 6) p (add_entry q pp ?P)" by (simp add: 1(9) upd_defs set_ptab_def)
  note e = put_entry [OF Suc.prems(3), of p pp, folded P1]
  from Suc.IH [OF 1(1,8)] e obtain ps pps P m' where IH: "length ps = n" "0 < n \<longrightarrow> at + 1 + n \<le> 1024" "distinct ps"
    "set ps \<subseteq> A - {p}" "0 \<notin> set ps" "distinct pps" "set pps \<inter> blocks L1 = {}"
    "mem_ok (L1(KM32 := set pps \<union> L1 KM32)) (A - {p} - set ps) s'" "entries_ok (Suc q + n) P"
    "map fst P = map fst ?P1 @ pps" "take (Suc q + n) (concat (map snd P)) = take (Suc q) (concat (map snd ?P1)) @ ps"
    "s' = upd_pgroup pg (\<lambda>x. x\<lparr>pg_pages := P\<rparr>) (set_ptab a (map_range (ptab (aspaces s1 a)) (at + 1) ps) (s1\<lparr>km := m'\<rparr>))" by blast
  have b: "set new \<subseteq> blocks L1" "blocks L \<subseteq> blocks L1" unfolding 1(5) by (auto simp: blocks_def)
  have L: "L1(KM32 := set pps \<union> L1 KM32) = L(KM32 := set (new @ pps) \<union> L KM32)" by (simp add: 1(5) Un_ac)
  have A: "A - {p} - set ps = A - set (p # ps)" by auto
  have "aspaces s1 = aspaces (set_ptab a ((ptab (aspaces s a))(at := pte p 7)) s)" by (simp add: 1(9) upd_defs set_ptab_def)
  then have pt: "ptab (aspaces s1 a) = (ptab (aspaces s a))(at := pte p 7)" by (simp del: fun_upd_apply)
  have mr: "map_range (ptab (aspaces s1 a)) (at + 1) ps = map_range (ptab (aspaces s a)) at (p # ps)"
    unfolding pt by (simp add: map_range_Cons del: fun_upd_apply)
  have s': "s' = upd_pgroup pg (\<lambda>x. x\<lparr>pg_pages := P\<rparr>) (set_ptab a (map_range (ptab (aspaces s a)) at (p # ps)) (s\<lparr>km := m'\<rparr>))"
    using IH(12) unfolding mr by (simp add: 1(9) upd_defs set_ptab_def)
  show ?case
  proof (rule exI [of _ "p # ps"], rule exI [of _ "new @ pps"], rule exI [of _ P], rule exI [of _ m'], intro conjI)
    show "distinct (new @ pps)" "set (new @ pps) \<inter> blocks L = {}" using 1(3,4) IH(6,7) b by auto
    show "0 < Suc n \<longrightarrow> at + Suc n \<le> 1024" using IH(2) 1(2) by (cases n) auto
    show "length (p # ps) = Suc n" "distinct (p # ps)" "set (p # ps) \<subseteq> A" "0 \<notin> set (p # ps)" using IH(1,3-5) 1(6,7) by auto
    show "mem_ok (L(KM32 := set (new @ pps) \<union> L KM32)) (A - set (p # ps)) s'" using IH(8) unfolding L A .
    show "entries_ok (q + Suc n) P" using IH(9) by simp
    show "map fst P = map fst ?P @ new @ pps" using IH(10) e 1(3) by simp
    show "take (q + Suc n) (concat (map snd P)) = take q (concat (map snd ?P)) @ p # ps" using IH(11) e by simp
  qed (rule s')
qed

lemma groups_ok_grow:
  assumes ok: "groups_ok N G" and l: "pg_refcount (G g) \<noteq> 0" "pg_refcount x = pg_refcount (G g)"
    and x: "group_ok N' g x" and N: "N \<subseteq> N'" and b: "gblocks g x = gblocks g (G g) @ pps" "set pps \<inter> N = {}"
    and f: "frames x = frames (G g) @ new" "set new \<inter> in_use G = {}"
  shows "groups_ok N' (G(g := x))" "in_use (G(g := x)) = in_use G \<union> set new"
proof -
  have d: "set (gblocks h (G h)) \<inter> set (gblocks k (G k)) = {} \<and> set (frames (G h)) \<inter> set (frames (G k)) = {}"
    if "h \<noteq> k" "pg_refcount (G h) \<noteq> 0" "pg_refcount (G k) \<noteq> 0" for h k
    using ok that by (simp add: groups_ok_def)
  have dx: "set (gblocks g x) \<inter> set (gblocks h (G h)) = {} \<and> set (frames x) \<inter> set (frames (G h)) = {}"
    if "h \<noteq> g" "pg_refcount (G h) \<noteq> 0" for h
  proof -
    have "set (gblocks h (G h)) \<subseteq> N" using groups_ok_live [OF ok that(2)] by (simp add: group_ok_def)
    moreover have "set (frames (G h)) \<subseteq> in_use G" using that(2) by (auto simp: in_use_def)
    ultimately show ?thesis using d [OF that(1,2) l(1)] b f by auto
  qed
  have r: "pg_refcount ((G(g := x)) h) = pg_refcount (G h)" for h using l(2) by simp
  show "groups_ok N' (G(g := x))" unfolding groups_ok_def r
  proof (intro conjI allI impI)
    show "group_ok N' h ((G(g := x)) h)" if "pg_refcount (G h) \<noteq> 0" for h
      using x group_ok_mono [OF groups_ok_live [OF ok that] N] by simp
    fix h k assume hk: "h \<noteq> k" "pg_refcount (G h) \<noteq> 0" "pg_refcount (G k) \<noteq> 0"
    show "set (gblocks h ((G(g := x)) h)) \<inter> set (gblocks k ((G(g := x)) k)) = {}"
      "set (frames ((G(g := x)) h)) \<inter> set (frames ((G(g := x)) k)) = {}"
      using hk dx [of h] dx [of k] d [OF hk] by (auto simp del: Int_iff simp: Int_commute)
  qed
  show "in_use (G(g := x)) = in_use G \<union> set new"
    using in_use_upd [of G g x] in_use_upd [of G g "G g"] l f(1) by (simp add: Un_ac)
qed

lemma areas_ok_grow:
  assumes ok: "areas_ok N T R G" and r: "T r" "pgroup (R r) = g" and x: "pg_areas x = pg_areas (G g)"
    "pg_refcount x = pg_refcount (G g)" "pg_size (G g) \<le> pg_size x" and y: "pgroup y = g" "0 < alength y" "alength y \<le> pg_size x"
  shows "areas_ok N T (R(r := y)) (G(g := x))"
proof -
  have a: "pg_areas ((G(g := x)) h) = pg_areas (G h)" "pg_refcount ((G(g := x)) h) = pg_refcount (G h)"
    "pg_size (G h) \<le> pg_size ((G(g := x)) h)" for h using x by simp_all
  have p: "pgroup ((R(r := y)) q) = pgroup (R q)" for q using r(2) y(1) by simp
  have s: "alength ((R(r := y)) q) \<le> pg_size ((G(g := x)) h)" if "pgroup (R q) = h" "alength (R q) \<le> pg_size (G h)" for q h
    using that y(3) r(2) a(3) [of h] by (cases "q = r") auto
  have z: "0 < alength ((R(r := y)) q)" if "0 < alength (R q)" for q using that y(2) by simp
  show ?thesis using ok s z unfolding areas_ok_def a p by blast
qed

lemma table_ok_grow:
  assumes ok: "table_ok T R P d t" and r: "r \<in> set d"
    and y: "virt_addr y = virt_addr (R r)" "alength y = alength (R r) + n" "virt_addr y + alength y \<le> 1024"
    and P: "\<And>q i. q \<in> set d \<Longrightarrow> i < alength (R q) \<Longrightarrow> P' q ! i = P q ! i"
    and ps: "length ps = n" "\<And>i. i < n \<Longrightarrow> P' r ! (alength (R r) + i) = ps ! i"
    and free: "\<And>i. virt_addr (R r) + alength (R r) \<le> i \<Longrightarrow> i < virt_addr y + alength y \<Longrightarrow> t i = 0"
  shows "table_ok T (R(r := y)) P' d (map_range t (virt_addr (R r) + alength (R r)) ps)"
proof -
  let ?v = "virt_addr (R r)" and ?l = "alength (R r)" and ?R = "R(r := y)"
  let ?t = "map_range t (?v + ?l) ps"
  have t: "?t i = (if ?v + ?l \<le> i \<and> i < ?v + ?l + n then pte (ps ! (i - (?v + ?l))) 7 else t i)" for i
    using ps(1) by (simp add: map_range_def)
  have e: "t (virt_addr (R q) + i) = pte (P q ! i) 7" if "q \<in> set d" "i < alength (R q)" for q i
    using ok that by (simp add: table_ok_def)
  have out: "\<not> (?v + ?l \<le> virt_addr (R q) + i \<and> virt_addr (R q) + i < ?v + ?l + n)" if "q \<in> set d" "i < alength (R q)" for q i
  proof
    assume "?v + ?l \<le> virt_addr (R q) + i \<and> virt_addr (R q) + i < ?v + ?l + n"
    then have "t (virt_addr (R q) + i) = 0" using free y(1,2) by simp
    then show False using e [OF that] pte_nz by simp
  qed
  have m: "?t (virt_addr (?R q) + i) = pte (P' q ! i) 7" if "q \<in> set d" "i < alength (?R q)" for q i
  proof (cases "i < alength (R q)")
    case True
    then have "virt_addr (?R q) = virt_addr (R q)" using y(1) by simp
    moreover have "?t (virt_addr (R q) + i) = t (virt_addr (R q) + i)" unfolding t by (rule if_not_P [OF out [OF that(1) True]])
    ultimately show ?thesis using e [OF that(1) True] P [OF that(1) True] by simp
  next
    case False
    then have "q = r" "i < ?l + n" "?l \<le> i" using that(2) y(2) by (auto split: if_splits)
    moreover from this have "i - ?l < n" by simp
    ultimately show ?thesis using ps(2) [of "i - ?l"] by (simp add: t y(1))
  qed
  have sp: "span (?R q) = span (R q) \<union> (if q = r then {?v + ?l ..< ?v + ?l + n} else {})" for q
    using y(1,2) by (auto simp: span_def)
  have dis: "span (R q) \<inter> {?v + ?l ..< ?v + ?l + n} = {}" if "q \<in> set d" for q
    using table_ok_area [OF ok that] free y(1,2) by (fastforce simp: add.assoc)
  have old: "span (R q) \<inter> span (R q') = {}" if "q \<in> set d" "q' \<in> set d" "q \<noteq> q'" for q q'
    using ok that by (simp add: table_ok_def)
  have cov: "\<exists>q \<in> set d. i \<in> span (?R q)" if "?t i \<noteq> 0" for i
  proof (cases "?v + ?l \<le> i \<and> i < ?v + ?l + n")
    case True
    then show ?thesis using r unfolding sp by force
  next
    case False
    have "t i \<noteq> 0" using that unfolding t if_not_P [OF False] .
    then obtain q where "q \<in> set d" "i \<in> span (R q)" using ok unfolding table_ok_def by blast
    then show ?thesis unfolding sp by blast
  qed
  have base: "T q \<and> 0 < virt_addr (?R q) \<and> virt_addr (?R q) + alength (?R q) \<le> 1024" if "q \<in> set d" for q
    using ok that y by (auto simp: table_ok_def)
  have disj: "span (?R q) \<inter> span (?R q') = {}" if "q \<in> set d" "q' \<in> set d" "q \<noteq> q'" for q q'
    unfolding sp using old [OF that] dis [OF that(1)] dis [OF that(2)] that(3) by auto
  have "distinct d" using ok by (simp add: table_ok_def)
  then show ?thesis using base m disj cov unfolding table_ok_def by blast
qed


lemma tables_ok_grow:
  assumes ok: "tables_ok T R P D PT" and r: "r \<in> set (D a)"
    and y: "virt_addr y = virt_addr (R r)" "alength y = alength (R r) + n" "virt_addr y + alength y \<le> 1024"
    and P: "\<And>q i. T q \<Longrightarrow> i < alength (R q) \<Longrightarrow> P' q ! i = P q ! i"
    and ps: "length ps = n" "\<And>i. i < n \<Longrightarrow> P' r ! (alength (R r) + i) = ps ! i"
    and free: "\<And>i. virt_addr (R r) + alength (R r) \<le> i \<Longrightarrow> i < virt_addr y + alength y \<Longrightarrow> PT a i = 0"
    and v: "v = virt_addr (R r) + alength (R r)"
  shows "tables_ok T (R(r := y)) P' D (PT(a := map_range (PT a) v ps))"
  unfolding tables_ok_def
proof (intro conjI allI impI)
  have t: "table_ok T R P (D b) (PT b)" for b using ok by (simp add: tables_ok_def)
  have T: "q \<in> set (D b) \<Longrightarrow> T q" for q b by (rule tables_ok_areas [OF ok])
  show dis: "set (D b) \<inter> set (D c) = {}" if "b \<noteq> c" for b c using ok that by (simp add: tables_ok_def)
  show "table_ok T (R(r := y)) P' (D b) ((PT(a := map_range (PT a) v ps)) b)" for b
  proof (cases "b = a")
    case True
    then show ?thesis using table_ok_grow [OF t r y P [OF T] ps free] v by simp
  next
    case False
    then have "r \<notin> set (D b)" using dis [OF False] r by blast
    then have "table_ok T (R(r := y)) P' (D b) (PT b)" by (intro table_ok_cong [OF t]) (use T P in auto)
    then show ?thesis using False by simp
  qed
qed

text \<open>The callers of \<open>area_resize\<close> grow an area of the address space they name, and one that covers its
  page group; the code checks neither.\<close>

definition resizable :: "nat \<Rightarrow> int \<Rightarrow> kstate \<Rightarrow> bool" where
  "resizable a area_id s \<longleftrightarrow> (let ar = rsrc_find RSRC_AREA area_id s in ar = 0 \<or>
     ar \<in> set (areas_in s a) \<and> alength (area_st s ar) = pg_size (pgroups s (pgroup (area_st s ar))))"

lemma locate_span_0: "locate_span a v 0 s = 0"
  by (simp add: locate_span_def locate_loop.simps)

lemma mem_ok_frames: "mem_ok L A s \<Longrightarrow> A \<subseteq> B \<Longrightarrow> mem_ok L B s"
  using kheap_frames by (auto simp: mem_ok_def)

lemma area_resizeE:
  assumes c: "area_resize a area_id sz s = Some (res, s')"
  obtains (same) "s' = s"
  | (grown) ar y pg psize n want s1 where "ar = rsrc_find RSRC_AREA area_id s" "ar \<noteq> 0" "y = area_st s ar" "pg = pgroup y"
      "psize = pg_size (pgroups s pg)" "want = u32 (virt_addr y + psize)" "locate_span a want n s = want"
      "s1 = upd_area ar (\<lambda>x. x\<lparr>alength := u32 (alength x + n), maxlength := u32 (maxlength x + n)\<rparr>)
         (upd_pgroup pg (\<lambda>x. x\<lparr>pg_size := u32 (psize + n)\<rparr>) s)"
      "grow_pages n a pg (psize mod 6) want s1 = Some s'"
proof -
  define ar where "ar = rsrc_find RSRC_AREA area_id s"
  define y where "y = area_st s ar"
  define pg where "pg = pgroup y"
  define psize where "psize = pg_size (pgroups s pg)"
  define n where "n = u32_sub (sz div 0x1000) psize"
  define want where "want = u32 (virt_addr y + psize)"
  define s1 where "s1 = upd_area ar (\<lambda>x. x\<lparr>alength := u32 (alength x + n), maxlength := u32 (maxlength x + n)\<rparr>)
         (upd_pgroup pg (\<lambda>x. x\<lparr>pg_size := u32 (psize + n)\<rparr>) s)"
  show ?thesis
  proof (cases "ar = 0 \<or> sz \<le> u32 (psize * 0x1000) \<or> locate_span a want n s \<noteq> want")
    case True
    then have "s' = s"
      using c by (auto simp: area_resize_def Let_def ar_def y_def pg_def psize_def n_def want_def split: if_splits)
    then show ?thesis by (rule same)
  next
    case False
    have "do { s2 \<leftarrow> grow_pages n a pg (psize mod 6) want s1; Some (0 :: int, s2) } = Some (res, s')"
      using c False unfolding area_resize_def Let_def s1_def n_def want_def psize_def pg_def y_def ar_def
      by (simp split: if_splits)
    then have g: "grow_pages n a pg (psize mod 6) want s1 = Some s'" by (auto elim!: bind_eqE)
    show ?thesis by (rule grown [OF ar_def _ y_def pg_def psize_def want_def _ s1_def g]) (use False in auto)
  qed
qed

text \<open>The state after the growth, with the new pages \<open>ps\<close>.\<close>

lemma vm_ok_grown:
  assumes ok: "vm_ok L s" and r: "r \<in> set (areas_in s a)" and y: "y = area_st s r" and g: "g = pgroup y"
    and sz: "alength y = pg_size (pgroups s g)"
    and ps: "length ps = n" "virt_addr y + alength y + n \<le> 1024" "distinct ps" "set ps \<subseteq> free_frames s"
    and free: "\<And>i. virt_addr y + alength y \<le> i \<Longrightarrow> i < virt_addr y + alength y + n \<Longrightarrow> ptab (aspaces s a) i = 0"
    and P: "entries_ok (pg_size (pgroups s g) + n) P" "map fst P = map fst (pg_pages (pgroups s g)) @ pps"
      "take (pg_size (pgroups s g) + n) (concat (map snd P)) = take (pg_size (pgroups s g)) (group_pages (pgroups s g)) @ ps"
    and pps: "distinct pps" "set pps \<inter> blocks L = {}" and L': "L' = L(KM32 := set pps \<union> L KM32)"
    and m: "mem_ok L' (free_frames s - set ps) s'"
    and x: "x = (pgroups s g)\<lparr>pg_size := pg_size (pgroups s g) + n, pg_pages := P\<rparr>"
    and z: "z = y\<lparr>alength := alength y + n, maxlength := k\<rparr>"
    and s': "pgroups s' = (pgroups s)(g := x)" "area_st s' = (area_st s)(r := z)" "rsrcs s' = rsrcs s"
      "areas_in s' = areas_in s" "(\<lambda>b. ptab (aspaces s' b)) = (\<lambda>b. ptab (aspaces s b))(a := map_range (ptab (aspaces s a)) (virt_addr y + alength y) ps)"
  shows "vm_ok L' s'"
proof -
  let ?G = "pgroups s" and ?g = "pgroups s g"
  have gr: "groups_ok (L KM32) ?G" and ao: "areas_ok (L KM96) (is_area s) (area_st s) ?G"
    and t: "tables_ok (is_area s) (area_st s) (pages_for s) (areas_in s) (\<lambda>a. ptab (aspaces s a))"
    using ok by (simp_all add: vm_ok_def)
  have ar: "is_area s r" by (rule tables_ok_areas [OF t r])
  have live: "pg_refcount ?g \<noteq> 0" "pg_refcount x = pg_refcount ?g" using areas_ok_live [OF ao ar] by (simp_all add: y g x)
  note gk = groups_ok_live [OF gr live(1)]
  define new where "new = (if owns_frames ?g then ps else [])"
  have fx: "frames x = frames ?g @ new" using P(3) by (simp add: frames_def new_def owns_frames_def group_pages_def x)
  have bx: "gblocks g x = gblocks g ?g @ pps" using P(2) by (simp add: gblocks_def x)
  have dis: "set new \<inter> in_use ?G = {}" "set new \<subseteq> {0<..<0x100000}" using ps(4) by (auto simp: new_def free_frames_def split: if_splits)
  have "set pps \<inter> L KM32 = {}" using pps(2) blocks_mem [of KM32 _ L] by auto
  moreover have "group_ok (L' KM32) g x"
  proof -
    have "set (frames ?g) \<subseteq> in_use ?G" using live(1) by (auto simp: in_use_def)
    then have "set (frames ?g) \<inter> set new = {}" using dis(1) by blast
    moreover have "distinct new" using ps(3) by (simp add: new_def)
    moreover have "set (gblocks g ?g) \<inter> set pps = {}" using gk \<open>set pps \<inter> L KM32 = {}\<close> by (auto simp: group_ok_def)
    ultimately show ?thesis using gk dis(2) pps(1) P(1) unfolding group_ok_def bx fx by (auto simp: x L' entries_ok_def)
  qed
  ultimately have go: "groups_ok (L' KM32) (pgroups s')" "in_use (pgroups s') = in_use ?G \<union> set new"
    unfolding s'(1) using groups_ok_grow [of "L KM32" ?G g x "L' KM32" pps new] gr live bx fx dis(1) L' by auto
  have "free_frames s - set ps \<subseteq> free_frames s'" unfolding free_frames_def go(2) by (auto simp: new_def split: if_splits)
  then have m': "mem_ok L' (free_frames s') s'" using mem_ok_frames [OF m] by blast
  have isa: "is_area s' = is_area s" by (simp add: is_area_def s'(3) fun_eq_iff)
  have "areas_ok (L' KM96) (is_area s') (area_st s') (pgroups s')"
    unfolding isa s'(1,2) using areas_ok_grow [OF ao ar, of g x z] areas_ok_live [OF ao ar] y g sz
    by (simp add: x z L')
  moreover have "tables_ok (is_area s') (area_st s') (pages_for s') (areas_in s') (\<lambda>a. ptab (aspaces s' a))"
    unfolding isa s'(2,4,5)
  proof (rule tables_ok_grow [OF t r])
    show "virt_addr z = virt_addr (area_st s r)" "alength z = alength (area_st s r) + n" "virt_addr z + alength z \<le> 1024"
      using ps(2) by (simp_all add: z y)
    show "pages_for s' q ! i = pages_for s q ! i" if "is_area s q" "i < alength (area_st s q)" for q i
    proof (cases "pgroup (area_st s q) = g")
      case True
      then have i: "i < pg_size ?g" using areas_ok_live [OF ao that(1)] that(2) by simp
      have "pages_for s' q = concat (map snd P)" using True g y by (auto simp: pages_for_def s'(1,2) z x group_pages_def)
      moreover have "concat (map snd P) ! i = group_pages ?g ! i"
        using arg_cong [OF P(3), of "\<lambda>l. l ! i"] i group_ok_size [OF gk] by (simp add: nth_append)
      ultimately show ?thesis using True by (simp add: pages_for_def)
    next
      case False
      then have "q \<noteq> r" using g y by auto
      then show ?thesis using False by (simp add: pages_for_def s'(1,2))
    qed
    show "pages_for s' r ! (alength (area_st s r) + i) = ps ! i" if "i < n" for i
    proof -
      have "pages_for s' r = concat (map snd P)" using g by (simp add: pages_for_def s'(1,2) z x group_pages_def)
      moreover have "concat (map snd P) ! (pg_size ?g + i) = ps ! i"
        using arg_cong [OF P(3), of "\<lambda>l. l ! (pg_size ?g + i)"] that group_ok_size [OF gk] by (simp add: nth_append min_def)
      ultimately show ?thesis using sz y by simp
    qed
  qed (use ps(1) free y z in simp_all)
  moreover have "objects L \<subseteq> objects L'" by (auto simp: objects_def L')
  ultimately show ?thesis using ok go(1) m' unfolding vm_ok_def s'(3) isa by auto
qed

lemma area_resize_ok:
  assumes ok: "vm_ok L s" and gd: "resizable a area_id s" and c: "area_resize a area_id sz s = Some (res, s')"
  shows "vm_next s s'"
  using c
proof (cases rule: area_resizeE)
  case same
  then show ?thesis using vm_next_refl [OF ok] by simp
next
  case (grown r y pg psize n want s1)
  have h: "mem_ok L (free_frames s) s" and gr: "groups_ok (L KM32) (pgroups s)"
    and ao: "areas_ok (L KM96) (is_area s) (area_st s) (pgroups s)"
    and t: "tables_ok (is_area s) (area_st s) (pages_for s) (areas_in s) (\<lambda>a. ptab (aspaces s a))"
    using ok by (simp_all add: vm_ok_def)
  have r: "r \<in> set (areas_in s a)" and sz: "alength y = psize"
    using gd grown(1-5) by (auto simp: resizable_def Let_def)
  have ar: "is_area s r" by (rule tables_ok_areas [OF t r])
  have v: "0 < virt_addr y" "virt_addr y + alength y \<le> 1024"
    using t r unfolding tables_ok_def table_ok_def grown(3) by blast+
  have w: "want = virt_addr y + psize" using v sz grown(6) by simp
  have nz: "want \<noteq> 0" using v(1) w by simp
  have n: "0 < n" using grown(7) locate_span_0 [of a want s] nz by (cases n) auto
  have gk: "group_ok (L KM32) pg (pgroups s pg)" using groups_ok_live [OF gr] areas_ok_live [OF ao ar] grown(3,4) by simp
  have "klists s1 = klists s" by (rule ext, case_tac x) (simp_all add: grown(8) upd_defs)
  then have m1: "mem_ok L (free_frames s) s1" by (rule mem_ok_cong [OF h, rotated]) (simp add: grown(8))
  have e1: "pg_pages (pgroups s1 pg) = pg_pages (pgroups s pg)" "ptab (aspaces s1 a) = ptab (aspaces s a)"
    by (simp_all add: grown(8) upd_defs)
  have "entries_ok psize (pg_pages (pgroups s1 pg))" using gk grown(5) e1(1) by (simp add: group_ok_def entries_ok_def)
  from grow_pages_ok [OF grown(9) m1 this] obtain ps pps P m where
    gp: "length ps = n" "0 < n \<longrightarrow> want + n \<le> 1024" "distinct ps" "set ps \<subseteq> free_frames s" "distinct pps" "set pps \<inter> blocks L = {}"
      "mem_ok (L(KM32 := set pps \<union> L KM32)) (free_frames s - set ps) s'" "entries_ok (psize + n) P"
      "map fst P = map fst (pg_pages (pgroups s pg)) @ pps"
      "take (psize + n) (concat (map snd P)) = take psize (concat (map snd (pg_pages (pgroups s pg)))) @ ps"
      "s' = upd_pgroup pg (\<lambda>x. x\<lparr>pg_pages := P\<rparr>) (set_ptab a (map_range (ptab (aspaces s a)) want ps) (s1\<lparr>km := m\<rparr>))"
    unfolding e1 by blast
  define x where "x = (pgroups s pg)\<lparr>pg_size := psize + n, pg_pages := P\<rparr>"
  define z where "z = y\<lparr>alength := alength y + n, maxlength := u32 (maxlength y + n)\<rparr>"
  have sm: "u32 (psize + n) = psize + n" "u32 (alength y + n) = alength y + n" using gp(2) n w sz by simp_all
  have f: "pgroups s' = (pgroups s)(pg := x)" "area_st s' = (area_st s)(r := z)" "rsrcs s' = rsrcs s" "areas_in s' = areas_in s"
    "(\<lambda>b. ptab (aspaces s' b)) = (\<lambda>b. ptab (aspaces s b))(a := map_range (ptab (aspaces s a)) (virt_addr y + alength y) ps)"
    using sm w sz by (auto simp: gp(11) grown(8,3) x_def z_def upd_defs set_ptab_def areas_in_def fun_eq_iff)
  have "vm_ok (L(KM32 := set pps \<union> L KM32)) s'"
  proof (rule vm_ok_grown [OF ok r grown(3,4) _ gp(1) _ gp(3,4) _ _ gp(9) _ gp(5,6) refl gp(7) _ z_def f])
    show "ptab (aspaces s a) i = 0" if "virt_addr y + alength y \<le> i" "i < virt_addr y + alength y + n" for i
      using locate_span_free [OF grown(7) [symmetric] nz, of i] that gp(2) n w sz by simp
  qed (use sz gp(2,8,10) n w in \<open>simp_all add: x_def grown(5) group_pages_def\<close>)
  then show ?thesis using f(1) by (auto simp: vm_next_def vm_inv_def x_def)
qed

end
