(* ===== verification/Isolation.thy ===== *)
theory Isolation
  imports AspaceGrow
begin

text \<open>
  Sequences of address-space operations: the memory of different page groups stays apart, areas are
  created on free frames, and destroying them gives the frames back.
\<close>

section \<open>Isolation\<close>

text \<open>A client of the address-space operations runs any sequence of them; areas are resized the way
  \<open>brk\<close> does.\<close>

datatype vm_op =
    Op_aspace_create
  | Op_area_create nat nat nat nat nat
  | Op_area_create_uber nat nat
  | Op_area_clone nat int nat nat
  | Op_area_resize nat int nat
  | Op_area_destroy nat int

fun vm_step :: "vm_op \<Rightarrow> kstate \<Rightarrow> kstate option" where
  "vm_step Op_aspace_create s = map_option snd (aspace_create s)"
| "vm_step (Op_area_create a sz virt addr flgs) s = map_option (snd \<circ> snd) (area_create a sz virt addr flgs s)"
| "vm_step (Op_area_create_uber sz addr) s = map_option snd (area_create_uber sz addr s)"
| "vm_step (Op_area_clone a i virt addr) s = map_option (snd \<circ> snd) (area_clone a i virt addr s)"
| "vm_step (Op_area_resize a i sz) s = (if resizable a i s then map_option snd (area_resize a i sz s) else None)"
| "vm_step (Op_area_destroy a i) s = map_option snd (area_destroy a i s)"

primrec vm_run :: "vm_op list \<Rightarrow> kstate \<Rightarrow> kstate option" where
  "vm_run [] s = Some s"
| "vm_run (x # xs) s = do { s1 \<leftarrow> vm_step x s; vm_run xs s1 }"

lemma vm_step_next:
  assumes "vm_inv s" and lim: "\<And>g. pg_refcount (pgroups s g) < 4294967295" and st: "vm_step x s = Some s'"
  shows "vm_next s s'"
proof -
  obtain L where ok: "vm_ok L s" using assms(1) by (auto simp: vm_inv_def)
  have lim': "pg_refcount (pgroups s g) < 4294967296" for g using lim [of g] by simp
  show ?thesis
  proof (cases x)
    case (Op_area_clone a i virt addr)
    then show ?thesis using st area_clone_ok [OF ok lim] by auto
  next
    case (Op_area_destroy a i)
    then show ?thesis using st area_destroy_ok [OF ok lim'] by auto
  qed (use st aspace_create_ok [OF ok] area_create_ok [OF ok] area_create_uber_ok [OF ok] area_resize_ok [OF ok]
    in \<open>auto split: if_splits\<close>)
qed

lemma vm_run_inv:
  assumes "vm_inv s" and "vm_run xs s = Some s'" and "\<And>g. pg_refcount (pgroups s g) + length xs \<le> 4294967295"
  shows "vm_inv s'"
  using assms
proof (induction xs arbitrary: s)
  case Nil
  then show ?case by simp
next
  case (Cons x xs)
  then obtain s1 where s1: "vm_step x s = Some s1" "vm_run xs s1 = Some s'" by (auto elim!: bind_eqE)
  have "pg_refcount (pgroups s g) < 4294967295" for g using Cons.prems(3) [of g] by simp
  then have n: "vm_next s s1" using vm_step_next [OF Cons.prems(1) _ s1(1)] by blast
  have b: "pg_refcount (pgroups s1 g) + length xs \<le> 4294967295" for g
  proof -
    have "pg_refcount (pgroups s1 g) \<le> Suc (pg_refcount (pgroups s g))" using n by (simp add: vm_next_def)
    then show ?thesis using Cons.prems(3) [of g] by simp
  qed
  show ?case by (rule Cons.IH [OF _ s1(2) b]) (use n in \<open>simp add: vm_next_def\<close>)
qed

text \<open>The frame that entry \<open>i\<close> of the page table of \<open>a\<close> refers to.\<close>

definition frame_at :: "kstate \<Rightarrow> nat \<Rightarrow> nat \<Rightarrow> nat" where
  "frame_at s a i = ptab (aspaces s a) i div 0x1000"

text \<open>An entry of a page table that belongs to an area whose memory the kernel allocated, with the page
  group and the page of the group it stands for.\<close>

definition maps_page :: "kstate \<Rightarrow> nat \<Rightarrow> nat \<Rightarrow> nat \<Rightarrow> nat \<Rightarrow> bool" where
  "maps_page s a i g k \<longleftrightarrow> (\<exists>r \<in> set (areas_in s a). g = pgroup (area_st s r) \<and> pg_flags (pgroups s g) AND AREA_PHYSMAP = 0 \<and>
     i = virt_addr (area_st s r) + k \<and> k < alength (area_st s r))"

definition isolated :: "kstate \<Rightarrow> bool" where
  "isolated s \<longleftrightarrow>
     (\<forall>a i. ptab (aspaces s a) i \<noteq> 0 \<longrightarrow> i < 1024 \<and> (\<exists>r \<in> set (areas_in s a). i \<in> span (area_st s r))) \<and>
     (\<forall>a b i j g h k l. maps_page s a i g k \<longrightarrow> maps_page s b j h l \<longrightarrow> frame_at s a i = frame_at s b j \<longrightarrow> g = h \<and> k = l) \<and>
     (\<forall>a i g k F. maps_page s a i g k \<longrightarrow> free_pages (km s) F \<longrightarrow> frame_at s a i \<notin> set F)"

lemma maps_page_frame:
  assumes ok: "vm_ok L s" and m: "maps_page s a i g k"
  shows "pg_refcount (pgroups s g) \<noteq> 0 \<and> k < length (frames (pgroups s g)) \<and> frame_at s a i = frames (pgroups s g) ! k"
proof -
  have gr: "groups_ok (L KM32) (pgroups s)" and ao: "areas_ok (L KM96) (is_area s) (area_st s) (pgroups s)"
    and t: "tables_ok (is_area s) (area_st s) (pages_for s) (areas_in s) (\<lambda>a. ptab (aspaces s a))"
    using ok by (simp_all add: vm_ok_def)
  obtain r where r: "r \<in> set (areas_in s a)" "g = pgroup (area_st s r)" "owns_frames (pgroups s g)"
    "i = virt_addr (area_st s r) + k" "k < alength (area_st s r)" using m by (auto simp: maps_page_def owns_frames_def)
  have "is_area s r" by (rule tables_ok_areas [OF t r(1)])
  from areas_ok_live [OF ao this] have live: "pg_refcount (pgroups s g) \<noteq> 0" "alength (area_st s r) \<le> pg_size (pgroups s g)"
    using r(2) by simp_all
  note gk = groups_ok_live [OF gr live(1)]
  have k: "k < pg_size (pgroups s g)" "pg_size (pgroups s g) \<le> length (group_pages (pgroups s g))"
    using r(5) live(2) group_ok_size [OF gk] by simp_all
  then have f: "k < length (frames (pgroups s g))" "frames (pgroups s g) ! k = group_pages (pgroups s g) ! k"
    using r(3) by (simp_all add: frames_def)
  have "ptab (aspaces s a) i = pte (group_pages (pgroups s g) ! k) 7"
    using t r unfolding tables_ok_def table_ok_def pages_for_def by simp
  moreover have "frames (pgroups s g) ! k \<in> {0<..<0x100000}" using gk f(1) unfolding group_ok_def by (metis nth_mem subsetD)
  ultimately have "frame_at s a i = frames (pgroups s g) ! k" using f(2) pte_frame by (simp add: frame_at_def)
  then show ?thesis using live f by simp
qed

lemma vm_inv_isolated:
  assumes "vm_inv s"
  shows "isolated s"
proof -
  obtain L where ok: "vm_ok L s" using assms by (auto simp: vm_inv_def)
  have gr: "groups_ok (L KM32) (pgroups s)" and m: "mem_ok L (free_frames s) s"
    and t: "tables_ok (is_area s) (area_st s) (pages_for s) (areas_in s) (\<lambda>a. ptab (aspaces s a))"
    using ok by (simp_all add: vm_ok_def)
  note mp = maps_page_frame [OF ok]
  obtain F where F: "free_pages (km s) F" "set F \<subseteq> free_frames s" using m by (auto simp: mem_ok_def kheap_def)
  show ?thesis unfolding isolated_def
  proof (intro conjI allI impI)
    fix a i assume i: "ptab (aspaces s a) i \<noteq> 0"
    then obtain r where r: "r \<in> set (areas_in s a)" "i \<in> span (area_st s r)" using t unfolding tables_ok_def table_ok_def by blast
    then show "\<exists>r \<in> set (areas_in s a). i \<in> span (area_st s r)" by blast
    have "virt_addr (area_st s r) + alength (area_st s r) \<le> 1024" using t r(1) unfolding tables_ok_def table_ok_def by blast
    then show "i < 1024" using r(2) by (simp add: span_def)
  next
    fix a b i j g h k l
    assume 1: "maps_page s a i g k" and 2: "maps_page s b j h l" and e: "frame_at s a i = frame_at s b j"
    then have fr: "frames (pgroups s g) ! k = frames (pgroups s h) ! l" using mp by metis
    show gh: "g = h"
    proof (rule ccontr)
      assume "g \<noteq> h"
      then have "set (frames (pgroups s g)) \<inter> set (frames (pgroups s h)) = {}"
        using gr mp [OF 1] mp [OF 2] unfolding groups_ok_def by blast
      then show False using fr mp [OF 1] mp [OF 2] by (metis disjoint_iff nth_mem)
    qed
    have "distinct (frames (pgroups s g))" using groups_ok_live [OF gr] mp [OF 1] by (simp add: group_ok_def)
    then show "k = l" using fr mp [OF 1] mp [OF 2] gh by (simp add: nth_eq_iff_index_eq)
  next
    fix a i g k F' assume 1: "maps_page s a i g k" and F': "free_pages (km s) F'"
    have "F' = F" using F(1) F' chain_unique by (auto simp: free_pages_def)
    moreover have "frame_at s a i \<in> in_use (pgroups s)" using mp [OF 1] by (auto simp: in_use_iff intro: nth_mem)
    ultimately show "frame_at s a i \<notin> set F'" using F(2) by (auto simp: free_frames_def)
  qed
qed

section \<open>The state after boot\<close>

lemma rsrc_init_vm:
  "pgroups (rsrc_init sz s) = pgroups s" "area_st (rsrc_init sz s) = area_st s" "aspaces (rsrc_init sz s) = aspaces s"
  "km (rsrc_init sz s) = km s" "teams (rsrc_init sz s) = teams s" "resource_list (rsrc_init sz s) = []"
  "current (rsrc_init sz s) = current s" "run_queue (rsrc_init sz s) = run_queue s"
  unfolding rsrc_init_def Let_def init_slots_fold by (simp_all add: upd_defs init_slots_def)

lemma rsrc_init_rsrcs: "rsrcs (rsrc_init sz s) = (rsrcs s)(null_resource := (rsrcs s null_resource)
    \<lparr>rid := 0, rtype := RSRC_NONE, rowner := 0, rights := []\<rparr>)"
  unfolding rsrc_init_def Let_def init_slots_fold by (simp add: upd_defs init_slots_def)

definition booted :: "nat \<Rightarrow> kmem \<Rightarrow> kstate" where
  "booted sz m = rsrc_init sz (kstate_boot\<lparr>km := m\<rparr>)"

lemma booted_fields:
  "pg_refcount (pgroups (booted sz m) g) = 0" "pg_areas (pgroups (booted sz m) g) = []" "areas_in (booted sz m) a = []"
  "ptab (aspaces (booted sz m) a) i = 0" "km (booted sz m) = m" "rtype (rsrcs (booted sz m) r) = RSRC_NONE"
  "klists (booted sz m) = (\<lambda>_. [])"
proof -
  have "klists (booted sz m) l = []" for l
    by (cases l) (simp_all add: booted_def rsrc_init_vm kstate_boot_def)
  then show "klists (booted sz m) = (\<lambda>_. [])" by blast
qed (simp_all add: booted_def rsrc_init_vm rsrc_init_rsrcs kstate_boot_def areas_in_def)

lemma booted_vm_inv:
  assumes "kmem_inv own (\<lambda>_. {}) m" and "free_pages m F" and "set F \<subseteq> {0<..<0x100000}" and "0x80000000 \<le> nextmem m"
  shows "vm_inv (booted sz m)"
proof -
  have "in_use (pgroups (booted sz m)) = {}" by (simp add: in_use_def booted_fields)
  then have "kheap (\<lambda>_. {}) (free_frames (booted sz m)) m" using assms by (auto simp: kheap_def free_frames_def)
  moreover have "nodes_ok {} (\<lambda>_. [])" by (simp add: nodes_ok_def)
  ultimately have "vm_ok (\<lambda>_. {}) (booted sz m)"
    by (simp add: vm_ok_def mem_ok_def booted_fields groups_ok_def areas_ok_def tables_ok_def table_ok_def is_area_def)
  then show ?thesis by (auto simp: vm_inv_def)
qed

text \<open>The allocator has room for \<open>k\<close> blocks of any size.\<close>

definition room :: "nat \<Rightarrow> kmem \<Rightarrow> bool" where
  "room k m \<longleftrightarrow> length (km_map m) = KMMAX \<and> (\<forall>c < KMMAX. k < fresh_count (km_map m ! c))"

lemma kmallocB_room:
  assumes r: "room (Suc k) m" and sz: "sz < 256"
  shows "\<exists>a m'. kmallocB sz m = Some (a, m') \<and> room k m' \<and> pagelist m' = pagelist m \<and> freepage m' = freepage m"
proof -
  let ?c = "size_map ! sz" and ?km = "km_map m ! (size_map ! sz)"
  have c: "?c < KMMAX" by (rule size_map_less [OF sz])
  have f: "Suc k < fresh_count (km_map m ! j)" if "j < KMMAX" for j using r that by (simp add: room_def)
  have l: "length (km_map m) = KMMAX" using r by (simp add: room_def)
  have up: "room k (m\<lparr>km_map := (km_map m)[?c := q]\<rparr>)" if "k < fresh_count q" for q
    unfolding room_def
  proof (intro conjI allI impI)
    show "k < fresh_count (km_map (m\<lparr>km_map := (km_map m)[?c := q]\<rparr>) ! j)" if "j < KMMAX" for j
      using \<open>k < fresh_count q\<close> Suc_lessD [OF f [OF that]] l c by (cases "j = ?c") simp_all
  qed (use l in simp)
  show ?thesis
  proof (cases "free_chain ?km")
    case Nil
    then show ?thesis using sz c f [OF c] by (auto simp: kmallocB_def kmallocP_def Let_def intro!: up)
  next
    case (Cons b rest)
    then show ?thesis using sz c f [OF c] by (auto simp: kmallocB_def kmallocP_def Let_def intro!: up)
  qed
qed

lemma getpage_room:
  assumes "room k m" and "free_pages m (x # xs)"
  shows "\<exists>m'. getpage m = Some (x, m') \<and> room k m' \<and> free_pages m' xs"
  using pg.take_Cons [OF assms(2)] assms(1) getpage_frame(1) by (fastforce simp: room_def)

lemma free_pages_cong: "pagelist m' = pagelist m \<Longrightarrow> freepage m' = freepage m \<Longrightarrow> free_pages m' F = free_pages m F"
  by (simp add: free_pages_def)

lemma booted_memory: "\<exists>m own. room 15 m \<and> kmem_inv own (\<lambda>_. {}) m \<and> free_pages m [307..<320] \<and> 0x80000000 \<le> nextmem m"
proof -
  obtain m own where m: "kmem_inv own (\<lambda>_. {}) m" "free_pages m [300 + 7 ..< Suc (320 - 1)]"
    "\<forall>k < KMMAX. fresh_count (km_map m ! k) = 4096 div psz k" "0x80000000 \<le> nextmem m"
    using memory_init_total [of 300 1 320] by auto
  have "15 < 4096 div psz k" if "k < KMMAX" for k using KMMAX_cases [OF that] by auto
  then have "room 15 m" using m(1,3) by (auto simp: room_def kmem_invx_def)
  then show ?thesis using m by auto
qed

text \<open>Two pages created in address space 2 and shared with address space 3.\<close>

lemma booted_ids: "rfree (booted 64 m) = 1" "rmap_next (booted 64 m) 1 = 2" "rmap_next (booted 64 m) 2 = 3" "rmax (booted 64 m) = 8"
  "rowner (rsrcs (booted 64 m) r) = 0"
  unfolding booted_def rsrc_init_def Let_def init_slots_fold
  by (simp_all add: upd_defs init_slots_def kstate_boot_def)

lemma locate_2: "locate_loop (\<lambda>_. 0) 512 (Suc (Suc 0)) 0 0 = 512"
  by (simp add: locate_loop.simps)

lemma pages_of_2: "pages_of 8192 = Suc (Suc 0)"
proof -
  have "(8192 :: nat) AND 0xFFF = 0" by simp
  then show ?thesis by (simp add: pages_of_def)
qed

lemma kheap_keeps:
  assumes "kheap L A m" and "B \<subseteq> blocks L" and "kmallocB sz m = Some (a, m')"
  shows "\<exists>L'. kheap L' A m' \<and> insert a B \<subseteq> blocks L' \<and> a \<notin> B \<and> a \<noteq> 0"
proof -
  have sz: "sz < 256" using assms(3) by (simp add: kmallocB_def split: if_splits)
  have "insert a (blocks L) \<subseteq> blocks (L(c := insert a (L c)))" if "c < KMMAX" for c
    unfolding blocks_def using that by (auto simp: fun_upd_def)
  from this [OF size_map_less [OF sz]] show ?thesis using kheap_alloc [OF assms(1,3)] assms(2) by fastforce
qed

lemma kheap_keeps_page: "kheap L A m \<Longrightarrow> getpage m = Some (p, m') \<Longrightarrow> kheap L A m'"
  using kheap_getpage kheap_frames by blast

lemma booted_create:
  assumes r: "room 15 m" and F: "free_pages m (x # y # F)" and h: "kheap (\<lambda>_. {}) A m"
  shows "\<exists>s' m' pg pp ar n1 n2. area_create 2 8192 0 0 0 (booted 64 m) = Some (1, 512 * 0x1000, s') \<and>
    km s' = m' \<and> room 5 m' \<and> (\<exists>L. kheap L A m' \<and> ar \<in> blocks L) \<and> ar \<noteq> 0 \<and> rmap_resource s' 1 = ar \<and> rfree s' = 2 \<and> rmap_next s' 2 = 3 \<and> rmax s' = 8 \<and>
    rtype (rsrcs s' ar) = RSRC_AREA \<and> rowner (rsrcs s' (current s')) = 0 \<and>
    area_st s' ar = \<lparr>pgroup = pg, virt_addr = 512, alength = Suc (Suc 0), maxlength = Suc (Suc 0)\<rparr> \<and>
    pgroups s' pg = \<lparr>pg_size = Suc (Suc 0), pg_refcount = 1, pg_flags = 0, pg_areas = [(n1, ar)], pg_pages = [(pp, [x, y, 0, 0, 0, 0])]\<rparr> \<and>
    areas (aspaces s' 2) = [(n2, ar)] \<and> areas (aspaces s' 3) = [] \<and> ptab (aspaces s' 3) = (\<lambda>_. 0) \<and>
    rmap_resource s' = (rmap_resource (booted 64 m))(1 := ar) \<and> rmap_next s' = rmap_next (booted 64 m) \<and> run_queue s' = 0 \<and>
    rsrcs s' = (rsrcs (booted 64 m))(ar := \<lparr>rid = 1, rtype = RSRC_AREA, rowner = 0, rights = [], rqueue = [], rname = []\<rparr>)"
proof -
  obtain pg m1 where 1: "kmallocB 28 m = Some (pg, m1)" "room 14 m1" "pagelist m1 = pagelist m" "freepage m1 = freepage m"
    using kmallocB_room [of 14 m 28] r by auto
  obtain pp m2 where 2: "kmallocB 32 m1 = Some (pp, m2)" "room 13 m2" "pagelist m2 = pagelist m" "freepage m2 = freepage m"
    using kmallocB_room [of 13 m1 32] 1 by auto
  obtain ar m3 where 3: "kmallocB 84 m2 = Some (ar, m3)" "room 12 m3" "pagelist m3 = pagelist m" "freepage m3 = freepage m"
    using kmallocB_room [of 12 m2 84] 2 by auto
  obtain n1 m4 where 4: "kmallocB sizeof_node m3 = Some (n1, m4)" "room 11 m4" "pagelist m4 = pagelist m" "freepage m4 = freepage m"
    using kmallocB_room [of 11 m3 12] 3 by (auto simp: sizeof_node_def)
  obtain n2 m5 where 5: "kmallocB sizeof_node m4 = Some (n2, m5)" "room 10 m5" "pagelist m5 = pagelist m" "freepage m5 = freepage m"
    using kmallocB_room [of 10 m4 12] 4 by (auto simp: sizeof_node_def)
  have F5: "free_pages m5 (x # y # F)" using F free_pages_cong [OF 5(3,4)] by simp
  obtain m6 where 6: "getpage m5 = Some (x, m6)" "room 10 m6" "free_pages m6 (y # F)" using getpage_room [OF 5(2) F5] by blast
  obtain m7 where 7: "getpage m6 = Some (y, m7)" "room 10 m7" using getpage_room [OF 6(2,3)] by blast
  obtain n3 m8 where 8: "kmallocB sizeof_node m7 = Some (n3, m8)" "room 9 m8"
    using kmallocB_room [of 9 m7 12] 7 by (auto simp: sizeof_node_def)
  have "room 5 m8" using 8(2) by (auto simp: room_def)
  from kheap_keeps [OF h empty_subsetI 1(1)] obtain L1 where h1: "kheap L1 A m1" by (elim exE conjE)
  from kheap_keeps [OF h1 empty_subsetI 2(1)] obtain L2 where h2: "kheap L2 A m2" by (elim exE conjE)
  from kheap_keeps [OF h2 empty_subsetI 3(1)] obtain L3 where h3: "kheap L3 A m3" "{ar} \<subseteq> blocks L3" and ar: "ar \<noteq> 0"
    by (elim exE conjE)
  from kheap_keeps [OF h3 4(1)] obtain L4 where h4: "kheap L4 A m4" "{n1, ar} \<subseteq> blocks L4" by (elim exE conjE)
  from kheap_keeps [OF h4 5(1)] obtain L5 where h5: "kheap L5 A m5" "{n2, n1, ar} \<subseteq> blocks L5" by (elim exE conjE)
  note h7 = kheap_keeps_page [OF kheap_keeps_page [OF h5(1) 6(1)] 7(1)]
  from kheap_keeps [OF h7 h5(2) 8(1)] obtain L8 where "kheap L8 A m8" "{n3, n2, n1, ar} \<subseteq> blocks L8" by (elim exE conjE)
  then have hh: "\<exists>L. kheap L A m8 \<and> ar \<in> blocks L" by (intro exI [of _ L8]) simp
  let ?s = "booted 64 m"
  have t: "aspaces ?s = aspaces kstate_boot" "km ?s = m" "current ?s = 0" "pgroups ?s = pgroups kstate_boot" "resource_list ?s = []" "run_queue ?s = 0"
    by (simp_all add: booted_def rsrc_init_vm kstate_boot_def)
  have l: "locate_span 2 0 (Suc (Suc 0)) ?s = 512" by (simp add: locate_span_def t kstate_boot_def locate_2)
  have r6: "replicate 6 (0 :: nat) = [0, 0, 0, 0, 0, 0]" by (simp add: numeral_eq_Suc)
  show ?thesis
    using 1(1) 2(1) 3(1) 4(1) 5(1) 6(1) 7(1) 8(1) \<open>room 5 m8\<close> hh ar booted_ids [of m]
    by (simp add: area_create_def pages_of_2 l t new_pagegroup_def new_area_def link_pgroup_def link_aspace_def
      kmalloc_def kl_add_tail_def upd_defs Let_def aspace_map.simps set_pte_def rsrc_bind_def take_id_def
      kstate_boot_def r6 rsrc_all_fields)
qed

lemma booted_run:
  assumes r: "room 15 m" and F: "free_pages m (x # y # F)" and h: "kheap (\<lambda>_. {}) A m"
  shows "\<exists>s' g. vm_run [Op_area_create 2 8192 0 0 0, Op_area_clone 3 1 0 0] (booted 64 m) = Some s' \<and>
    maps_page s' 2 512 g 0 \<and> maps_page s' 3 512 g 0"
proof -
  from booted_create [OF r F h] obtain s1 m1 pg pp ar n1 n2 L where
    s1: "area_create 2 8192 0 0 0 (booted 64 m) = Some (1, 512 * 0x1000, s1)"
    "km s1 = m1" "room 5 m1" "rmap_resource s1 1 = ar" "rfree s1 = 2" "rmap_next s1 2 = 3" "rmax s1 = 8"
    "rtype (rsrcs s1 ar) = RSRC_AREA" "rowner (rsrcs s1 (current s1)) = 0"
    "area_st s1 ar = \<lparr>pgroup = pg, virt_addr = 512, alength = Suc (Suc 0), maxlength = Suc (Suc 0)\<rparr>"
    "pgroups s1 pg = \<lparr>pg_size = Suc (Suc 0), pg_refcount = 1, pg_flags = 0, pg_areas = [(n1, ar)], pg_pages = [(pp, [x, y, 0, 0, 0, 0])]\<rparr>"
    "areas (aspaces s1 2) = [(n2, ar)]" "areas (aspaces s1 3) = []" "ptab (aspaces s1 3) = (\<lambda>_. 0)"
    "kheap L A m1" "ar \<in> blocks L" "ar \<noteq> 0" by blast
  have f: "rsrc_find RSRC_AREA 1 s1 = ar" using s1(4,7,8) by (simp add: rsrc_find_def u32_of_int_def)
  have l: "locate_span 3 0 (Suc (Suc 0)) s1 = 512" by (simp add: locate_span_def s1(14) locate_2)
  obtain a1 m2 where 2: "kmallocB 84 m1 = Some (a1, m2)" "room 4 m2" using kmallocB_room [of 4 m1 84] s1(3) by auto
  have ne: "a1 \<noteq> ar" using kheap_alloc [OF s1(15) 2(1)] s1(16) by blast
  obtain k1 m3 where 3: "kmallocB sizeof_node m2 = Some (k1, m3)" "room 3 m3" using kmallocB_room [of 3 m2 12] 2 by (auto simp: sizeof_node_def)
  obtain k2 m4 where 4: "kmallocB sizeof_node m3 = Some (k2, m4)" "room 2 m4" using kmallocB_room [of 2 m3 12] 3 by (auto simp: sizeof_node_def)
  obtain k3 m5 where 5: "kmallocB sizeof_node m4 = Some (k3, m5)" "room 1 m5" using kmallocB_room [of 1 m4 12] 4 by (auto simp: sizeof_node_def numeral_2_eq_2)
  show ?thesis
    using 2(1) 3(1) 4(1) 5(1) s1 ne
    by (simp add: area_clone_def f l new_area_def link_pgroup_def link_aspace_def
      kmalloc_def kl_add_tail_def upd_defs Let_def aspace_map.simps set_pte_def rsrc_bind_def take_id_def group_pages_def
      maps_page_def areas_in_def)
qed

section \<open>What the operations on areas do\<close>

lemma pte_word: "pte p 7 mod 0x1000 = 7 \<and> pte p 7 < 0x100000000"
proof -
  have a: "(x AND 0xFFFFF000) mod 0x1000 = 0" for x :: nat
  proof -
    have "(x AND 0xFFFFF000) mod 0x1000 = x AND (0xFFFFF000 AND mask 12)"
      unfolding take_bit_eq_mod [of 12, symmetric, simplified] take_bit_eq_mask by (simp add: ac_simps)
    then show ?thesis by (simp add: mask_eq_exp_minus_1)
  qed
  have "(y OR 7) mod 0x1000 = 7" if "y mod 0x1000 = 0" for y :: nat
    using that unfolding take_bit_eq_mod [of 12, symmetric, simplified] by simp
  moreover have "pte p 7 < 2 ^ 32"
  proof -
    have "take_bit 32 (pte p 7) = (take_bit 32 (p * 4096) AND take_bit 32 0xFFFFF000) OR take_bit 32 7"
      unfolding pte_def pte_flags by (simp only: take_bit_or take_bit_and)
    also have "\<dots> = pte p 7" unfolding pte_def pte_flags take_bit_eq_mask by (simp add: mask_eq_exp_minus_1 and.assoc)
    finally show ?thesis by (metis take_bit_nat_less_exp)
  qed
  ultimately show ?thesis using a unfolding pte_def pte_flags by simp
qed

lemma vm_ok_entry:
  assumes "vm_ok L s" and "ptab (aspaces s a) i \<noteq> 0"
  shows "\<exists>p. ptab (aspaces s a) i = pte p 7"
proof -
  have t: "table_ok (is_area s) (area_st s) (pages_for s) (areas_in s a) (ptab (aspaces s a))"
    using assms(1) by (simp add: vm_ok_def tables_ok_def)
  then obtain r where r: "r \<in> set (areas_in s a)" "i \<in> span (area_st s r)" using assms(2) unfolding table_ok_def by blast
  have "virt_addr (area_st s r) \<le> i" "i - virt_addr (area_st s r) < alength (area_st s r)" using r(2) by (auto simp: span_def)
  then show ?thesis using t r(1) unfolding table_ok_def by (metis le_add_diff_inverse)
qed

lemma maps_page_table:
  assumes "vm_ok L s" and "maps_page s a i g k"
  shows "ptab (aspaces s a) i \<noteq> 0"
proof -
  have t: "table_ok (is_area s) (area_st s) (pages_for s) (areas_in s a) (ptab (aspaces s a))"
    using assms(1) by (simp add: vm_ok_def tables_ok_def)
  then show ?thesis using assms(2) pte_nz unfolding maps_page_def table_ok_def by auto
qed

lemma booted_vm_state: "\<exists>m s' g. vm_inv (booted 64 m) \<and> free_pages m [307..<320] \<and> (\<forall>g. pg_refcount (pgroups (booted 64 m) g) = 0) \<and>
    vm_run [Op_area_create 2 8192 0 0 0, Op_area_clone 3 1 0 0] (booted 64 m) = Some s' \<and> maps_page s' 2 512 g 0 \<and> maps_page s' 3 512 g 0"
proof -
  obtain m own where m: "room 15 m" "kmem_inv own (\<lambda>_. {}) m" "free_pages m [307..<320]" "0x80000000 \<le> nextmem m"
    using booted_memory by blast
  have e: "[307..<320] = 307 # 308 # [309..<320 :: nat]" by (simp add: upt_rec)
  have h: "kheap (\<lambda>_. {}) UNIV m" using m by (auto simp: kheap_def)
  have "vm_inv (booted 64 m)" by (rule booted_vm_inv [OF m(2,3) _ m(4)]) auto
  moreover obtain s' g where "vm_run [Op_area_create 2 8192 0 0 0, Op_area_clone 3 1 0 0] (booted 64 m) = Some s'"
    "maps_page s' 2 512 g 0" "maps_page s' 3 512 g 0" using booted_run [OF m(1) m(3) [unfolded e] h] by blast
  ultimately show ?thesis using m(3) booted_fields(1) by blast
qed





lemma maps_page_used: "vm_ok L s \<Longrightarrow> maps_page s a i g k \<Longrightarrow> frame_at s a i \<notin> free_frames s"
  using maps_page_frame [of L s a i g k] nth_mem [of k "frames (pgroups s g)"] by (auto simp: free_frames_def in_use_iff)

lemma mem_ok_free: "mem_ok L A s \<Longrightarrow> free_pages (km s) F \<Longrightarrow> set F \<subseteq> A"
  by (auto simp: mem_ok_def kheap_def free_pages_def dest: chain_unique)



end
