(* ===== verification/Teardown.thy ===== *)
theory Teardown
  imports Isolation
begin

text \<open>
  Destroying areas and the areas of an address space: it always ends, clears the page tables and gives
  back the frames that nobody else uses.
\<close>

section \<open>Freeing blocks leaves the free pages alone\<close>

lemma kfreeB_pages: "kfreeB sz b m = Some m' \<Longrightarrow> free_pages m' F = free_pages m F"
  by (rule free_pages_cong) (auto simp: kfreeB_def kfreeP_def Let_def split: if_splits)

lemma kfreeB_total: "sz < 256 \<Longrightarrow> \<exists>m'. kfreeB sz b m = Some m'"
  using size_map_less [of sz] by (simp add: kfreeB_def kfreeP_def Let_def)

lemma kfree_pages: "kfree sz b s = Some s' \<Longrightarrow> free_pages (km s') F = free_pages (km s) F"
  by (auto simp: kfree_def kfreeB_pages split: bind_splits)

lemma kfree_returns: "sz < 256 \<Longrightarrow> \<exists>m. kfree sz b s = Some (s\<lparr>km := m\<rparr>)"
  using kfreeB_total [of sz b "km s"] by (auto simp: kfree_def)

lemma kl_remove_pages: "kl_remove d xs m = Some (e, l, m') \<Longrightarrow> free_pages m' F = free_pages m F"
  by (auto simp: kl_remove_def kfreeB_pages split: option.splits bind_splits prod.splits)

lemma rsrc_release_pages:
  assumes "rsrc_release r s = Some s'"
  shows "free_pages (km s') F = free_pages (km s) F"
proof -
  have w: "wake_all r t = Some t' \<Longrightarrow> km t' = km t" for t t' using wake_all_frame by blast
  have g: "km (give_id i t) = km t" for i t by (simp add: give_id_def)
  show ?thesis
    using assms unfolding rsrc_release_def Let_def
    by (elim bind_eqE) (auto elim!: bind_eqE split: if_splits dest!: w kl_remove_pages [of _ _ _ _ _ _ F] simp: g upd_defs)
qed

lemma fold_putpage_free:
  "free_pages m F \<Longrightarrow> distinct ps \<Longrightarrow> 0 \<notin> set ps \<Longrightarrow> set ps \<inter> set F = {} \<Longrightarrow> free_pages (fold putpage ps m) (rev ps @ F)"
proof (induction ps arbitrary: m F)
  case (Cons p ps)
  have "free_pages (putpage p m) (p # F)" by (rule pg.give_free) (use Cons.prems in auto)
  from Cons.IH [OF this] Cons.prems show ?case by auto
qed simp

lemma release_pages_free:
  assumes "release_pages rel sz pps s = Some s'" and "free_pages (km s) F" and "\<forall>q \<in> set pps. length (snd q) = 6"
    and "rel \<Longrightarrow> distinct (take sz (concat (map snd pps))) \<and> set (take sz (concat (map snd pps))) \<inter> set F = {} \<and>
      0 \<notin> set (take sz (concat (map snd pps)))"
  shows "free_pages (km s') (if rel then rev (take sz (concat (map snd pps))) @ F else F)"
  using assms
proof (induction rel sz pps s arbitrary: F rule: release_pages.induct)
  case (1 rel sz s)
  then show ?case by simp
next
  case (2 rel sz pp addrs pps s)
  define s1 where "s1 = (if rel then s\<lparr>km := fold putpage (take (min sz 6) addrs) (km s)\<rparr> else s)"
  obtain s2 where s2: "kfree sizeof_phys_page pp s1 = Some s2"
    "release_pages rel (if rel then sz - 6 else sz) pps s2 = Some s'"
    using 2(2) by (auto simp: s1_def Let_def split: bind_splits)
  have len: "length addrs = 6" using 2(4) by simp
  let ?a = "take (min sz 6) addrs" and ?r = "take (sz - 6) (concat (map snd pps))"
  have t: "take sz (concat (map snd ((pp, addrs) # pps))) = ?a @ ?r" using len by (simp add: min_def)
  show ?case
  proof (cases rel)
    case True
    have d: "distinct (?a @ ?r)" "set (?a @ ?r) \<inter> set F = {}" "0 \<notin> set (?a @ ?r)" using 2(5) [OF True] unfolding t by blast+
    have "free_pages (fold putpage ?a (km s)) (rev ?a @ F)" by (rule fold_putpage_free [OF 2(3)]) (use d in auto)
    then have "free_pages (km s1) (rev ?a @ F)" using True by (simp add: s1_def)
    then have f: "free_pages (km s2) (rev ?a @ F)" using kfree_pages [OF s2(1)] by simp
    from 2(1) [OF s1_def s2 f] 2(4) d True show ?thesis unfolding t by auto
  next
    case False
    have "free_pages (km s2) F" using kfree_pages [OF s2(1)] 2(3) False by (simp add: s1_def)
    from 2(1) [OF s1_def s2 this] 2(4) False show ?thesis by simp
  qed
qed

lemma set_ptab_km [simp]: "km (set_ptab a t s) = km s" by (simp add: set_ptab_def upd_defs)

lemma area_destroy_pages:
  assumes ok: "vm_ok L s" and lim: "\<And>g. pg_refcount (pgroups s g) < 4294967296"
    and c: "area_destroy a area_id s = Some (ERR_NONE, s')" and F: "free_pages (km s) F"
    and g: "g = pgroup (area_st s (rsrc_find RSRC_AREA area_id s))"
  shows "free_pages (km s') (if pg_refcount (pgroups s g) = 1 then rev (frames (pgroups s g)) @ F else F)"
  using c
proof (cases rule: area_destroyE)
  case (gone ar y g' l m s1 s2 e2 l2 m2 s3 s4 s5)
  have g': "g' = g" using gone(1,3,4) g by simp
  let ?x = "pgroups s g" and ?z = "pgroups s3 g"
  have gr: "groups_ok (L KM32) (pgroups s)" and ao: "areas_ok (L KM96) (is_area s) (area_st s) (pgroups s)"
    and h: "mem_ok L (free_frames s) s" using ok by (simp_all add: vm_ok_def)
  have r: "is_area s ar" using rsrc_find_type [of RSRC_AREA area_id s] gone(1,2) by (simp add: is_area_def)
  have live: "pg_refcount ?x \<noteq> 0" using areas_ok_live [OF ao r] gone(3,4) g' by simp
  note gk = groups_ok_live [OF gr live]
  have dis: "set F \<inter> set (frames ?x) = {}"
    using mem_ok_free [OF h F] live unfolding free_frames_def in_use_def by blast
  have s2: "s2 = set_ptab a (clear_range (ptab (aspaces s1 a)) (virt_addr y) (alength y)) s1" by (rule aspace_clr_ok [OF gone(7)])
  then have p2: "pgroups s2 = pgroups s" "km s2 = m" by (simp_all add: set_ptab_def upd_defs gone(6))
  then have z: "?z = ?x\<lparr>pg_areas := l2, pg_refcount := pg_refcount ?x - 1\<rparr>" "km s3 = m2"
    using live lim [of g] by (simp_all add: gone(9) upd_defs g')
  have f3: "free_pages (km s3) F"
    using F kl_remove_pages [OF gone(5)] kl_remove_pages [OF gone(8)] unfolding z(2) p2(2) by simp
  have own: "owns_frames ?z = owns_frames ?x" "pg_size ?z = pg_size ?x" "pg_pages ?z = pg_pages ?x" "pg_refcount ?z = pg_refcount ?x - 1"
    by (simp_all add: z(1) owns_frames_def)
  have "free_pages (km s4) (if pg_refcount ?x = 1 then rev (frames ?x) @ F else F)"
  proof (cases "pg_refcount ?x = 1")
    case True
    then obtain t where t: "release_pages (owns_frames ?x) (pg_size ?x) (pg_pages ?x) s3 = Some t" "kfree sizeof_pagegroup g t = Some s4"
      using gone(10) own unfolding g' by (auto split: bind_splits)
    have "free_pages (km t) (if owns_frames ?x then rev (take (pg_size ?x) (concat (map snd (pg_pages ?x)))) @ F else F)"
    proof (rule release_pages_free [OF t(1) f3])
      show "\<forall>q \<in> set (pg_pages ?x). length (snd q) = 6" using gk by (simp add: group_ok_def)
      show "distinct (take (pg_size ?x) (concat (map snd (pg_pages ?x)))) \<and>
          set (take (pg_size ?x) (concat (map snd (pg_pages ?x)))) \<inter> set F = {} \<and> 0 \<notin> set (take (pg_size ?x) (concat (map snd (pg_pages ?x))))"
        if "owns_frames ?x" using gk dis that unfolding group_ok_def frames_def group_pages_def by auto
    qed
    then have "free_pages (km t) (rev (frames ?x) @ F)" unfolding frames_def group_pages_def by (simp split: if_splits)
    then show ?thesis using True kfree_pages [OF t(2)] by simp
  next
    case False
    then have "s4 = s3" using gone(10) own live unfolding g' by (auto split: if_splits)
    then show ?thesis using False f3 by simp
  qed
  then show ?thesis using rsrc_release_pages [OF gone(11)] kfree_pages [OF gone(12)] by simp
qed simp

lemma aspace_clr_total: "v + n \<le> 1024 \<Longrightarrow> \<exists>s'. aspace_clr n a v s = Some s'"
  by (induction n arbitrary: v s) (simp_all add: set_pte_def)

lemma release_pages_total: "\<exists>m. release_pages rel sz pps s = Some (s\<lparr>km := m\<rparr>)"
proof (induction rel sz pps s rule: release_pages.induct)
  case (1 rel sz s)
  then show ?case by (intro exI [of _ "km s"]) simp
next
  case (2 rel sz pp addrs pps s)
  define s1 where "s1 = (if rel then s\<lparr>km := fold putpage (take (min sz 6) addrs) (km s)\<rparr> else s)"
  obtain m1 where k: "kfree sizeof_phys_page pp s1 = Some (s1\<lparr>km := m1\<rparr>)" using kfree_returns [of sizeof_phys_page pp s1] by auto
  from 2 [OF s1_def this] obtain m where
    "release_pages rel (if rel then sz - 6 else sz) pps (s1\<lparr>km := m1\<rparr>) = Some (s1\<lparr>km := m1\<rparr>\<lparr>km := m\<rparr>)" by blast
  then show ?case using k by (intro exI [of _ m]) (simp add: s1_def Let_def)
qed

lemma rsrc_release_queues:
  assumes "r \<noteq> run_queue s" and "rqueue (rsrcs s r) = []" and "rsrc_release r s = Some s'"
  shows "run_queue s' = run_queue s \<and> (\<forall>x. rqueue (rsrcs s' x) = rqueue (rsrcs s x))"
proof -
  have "0 \<notin> set (rqueue (rsrcs s r))" using assms(2) by simp
  from rsrc_releaseE [OF assms(1) this] obtain tms m rl where
    "rsrc_release r s = Some (give_id (rid (rsrcs s r)) (upd_rsrc r (\<lambda>x. x\<lparr>rtype := RSRC_NONE, rid := 0\<rparr>)
      (wake_list r (rqueue (rsrcs s r)) (s\<lparr>teams := tms, resource_list := rl, km := m\<rparr>))))" by blast
  then show ?thesis using assms by (auto simp: give_id_def upd_defs wake_list_def)
qed

lemma kl_remove_mem: "d \<in> set (map snd xs) \<Longrightarrow> \<exists>l m'. kl_remove d xs m = Some (0, l, m')"
proof -
  assume "d \<in> set (map snd xs)"
  then obtain n where "find (\<lambda>(n, d'). d' = d) xs = Some (n, d)"
    by (cases "find (\<lambda>(n, d'). d' = d) xs") (auto simp: find_None_iff find_Some_iff)
  then show ?thesis using kfree_Some [of n m] by (auto simp: kl_remove_def)
qed

lemma area_found:
  assumes ok: "vm_ok L s" and rt: "rtab_ok s F" and ar: "ar \<in> set (areas_in s a)" and b: "ar \<in> bound s F"
  shows "rsrc_find RSRC_AREA (int (rid (rsrcs s ar))) s = ar" "ar \<noteq> 0"
proof -
  have t: "tables_ok (is_area s) (area_st s) (pages_for s) (areas_in s) (\<lambda>a. ptab (aspaces s a))" using ok by (simp add: vm_ok_def)
  have "is_area s ar" by (rule tables_ok_areas [OF t ar])
  moreover have "rid (rsrcs s ar) < 4294967296" using rtab_bound [OF rt b] rt by (auto simp: live_ids_def rtab_ok_def)
  ultimately show "rsrc_find RSRC_AREA (int (rid (rsrcs s ar))) s = ar" "ar \<noteq> 0"
    using rsrc_find_iff [OF rt, of RSRC_AREA "int (rid (rsrcs s ar))" ar] b by (simp_all add: is_area_def)
qed

lemma area_destroy_total:
  assumes ok: "vm_ok L s" and rt: "rtab_ok s F" and ar: "ar \<in> set (areas_in s a)"
    and b: "ar \<in> bound s F" "rqueue (rsrcs s ar) = []" "ar \<noteq> run_queue s"
  shows "\<exists>s'. area_destroy a (int (rid (rsrcs s ar))) s = Some (ERR_NONE, s') \<and> rtab_ok s' (rid (rsrcs s ar) # F) \<and>
    bound s' (rid (rsrcs s ar) # F) = bound s F - {ar} \<and> run_queue s' = run_queue s \<and>
    (\<forall>x. rqueue (rsrcs s' x) = rqueue (rsrcs s x))"
proof -
  have t: "tables_ok (is_area s) (area_st s) (pages_for s) (areas_in s) (\<lambda>a. ptab (aspaces s a))" using ok by (simp add: vm_ok_def)
  let ?i = "rid (rsrcs s ar)" and ?y = "area_st s ar"
  note f = area_found [OF ok rt ar b(1)]
  obtain l m where k1: "kl_remove ar (areas (aspaces s a)) (km s) = Some (0, l, m)"
    using kl_remove_mem ar unfolding areas_in_def by blast
  let ?s1 = "upd_aspace a (\<lambda>x. x\<lparr>areas := l\<rparr>) (s\<lparr>km := m\<rparr>)"
  have "virt_addr ?y + alength ?y \<le> 1024" using t ar unfolding tables_ok_def table_ok_def by blast
  then obtain s2 where c: "aspace_clr (alength ?y) a (virt_addr ?y) ?s1 = Some s2" using aspace_clr_total by blast
  have s2: "s2 = set_ptab a (clear_range (ptab (aspaces ?s1 a)) (virt_addr ?y) (alength ?y)) ?s1" by (rule aspace_clr_ok [OF c])
  let ?g = "pgroup (area_st s2 ar)"
  obtain e2 l2 m2 where k2: "kl_remove ar (pg_areas (pgroups s2 ?g)) (km s2) = Some (e2, l2, m2)" using kl_remove_Some by blast
  let ?s3 = "upd_pgroup ?g (\<lambda>x. x\<lparr>pg_areas := l2, pg_refcount := u32_sub (pg_refcount x) 1\<rparr>) (s2\<lparr>km := m2\<rparr>)"
  obtain m4 where k4: "(if pg_refcount (pgroups ?s3 ?g) = 0 then do {
       s \<leftarrow> release_pages (pg_flags (pgroups ?s3 ?g) AND AREA_PHYSMAP = 0) (pg_size (pgroups ?s3 ?g)) (pg_pages (pgroups ?s3 ?g)) ?s3;
       kfree sizeof_pagegroup ?g s } else Some ?s3) = Some (?s3\<lparr>km := m4\<rparr>)"
  proof (cases "pg_refcount (pgroups ?s3 ?g) = 0")
    case True
    obtain m5 where "release_pages (pg_flags (pgroups ?s3 ?g) AND AREA_PHYSMAP = 0) (pg_size (pgroups ?s3 ?g)) (pg_pages (pgroups ?s3 ?g)) ?s3 =
      Some (?s3\<lparr>km := m5\<rparr>)" using release_pages_total by blast
    moreover obtain m6 where "kfree sizeof_pagegroup ?g (?s3\<lparr>km := m5\<rparr>) = Some (?s3\<lparr>km := m5\<rparr>\<lparr>km := m6\<rparr>)"
      using kfree_returns [of sizeof_pagegroup ?g "?s3\<lparr>km := m5\<rparr>"] by auto
    ultimately show ?thesis using that [of m6] True by simp
  next
    case False
    then show ?thesis using that [of "km ?s3"] by simp
  qed
  let ?s4 = "?s3\<lparr>km := m4\<rparr>"
  have same: "same_ids s ?s4" "rsrcs ?s4 = rsrcs s" "run_queue ?s4 = run_queue s"
    by (simp_all add: same_ids_def s2 set_ptab_def upd_defs)
  have q: "ar \<in> bound ?s4 F" "ar \<noteq> run_queue ?s4" "0 \<notin> set (rqueue (rsrcs ?s4 ar))" "rtab_ok ?s4 F" "rqueue (rsrcs ?s4 ar) = []"
    using b same_ids_bound [OF same(1), of F] same_ids_rtab [OF same(1), of F] rt unfolding same by simp_all
  from rsrc_release_ok [OF q(4,1-3)] obtain s5 where s5: "rsrc_release ar ?s4 = Some s5" "rtab_ok s5 (?i # F)"
    "bound s5 (?i # F) = bound s F - {ar}" unfolding same_ids_bound [OF same(1)] same(2) by blast
  obtain m7 where k7: "kfree sizeof_area ar s5 = Some (s5\<lparr>km := m7\<rparr>)" using kfree_returns [of sizeof_area ar s5] by auto
  have "area_destroy a (int ?i) s = Some (ERR_NONE, s5\<lparr>km := m7\<rparr>)"
  proof -
    have y1: "area_st ?s1 ar = ?y" by (simp add: upd_defs)
    show ?thesis unfolding area_destroy_def Let_def f(1)
      by (simp only: f(2) k1 bind.bind_lunit split_conv if_False y1 c k2 k4 s5(1) k7 simp_thms)
  qed
  moreover have "rtab_ok (s5\<lparr>km := m7\<rparr>) (?i # F)" "bound (s5\<lparr>km := m7\<rparr>) (?i # F) = bound s F - {ar}"
    using s5(2,3) by (simp_all add: rtab_ok_def free_ids_def live_ids_def bound_def)
  moreover have "run_queue s5 = run_queue s \<and> (\<forall>x. rqueue (rsrcs s5 x) = rqueue (rsrcs s x))"
    using rsrc_release_queues [OF q(2,5) s5(1)] unfolding same by blast
  ultimately show ?thesis by (intro exI [of _ "s5\<lparr>km := m7\<rparr>"]) simp
qed

text \<open>What tearing down an address space gives back: the frames of the page groups all of whose areas are
  in it.\<close>

definition only_in :: "nat \<Rightarrow> kstate \<Rightarrow> nat \<Rightarrow> bool" where
  "only_in a s g \<longleftrightarrow> pg_refcount (pgroups s g) \<noteq> 0 \<and> snd ` set (pg_areas (pgroups s g)) \<subseteq> set (areas_in s a)"

definition frames_of :: "nat \<Rightarrow> kstate \<Rightarrow> nat set" where
  "frames_of a s = (\<Union>g \<in> Collect (only_in a s). set (frames (pgroups s g)))"

lemma only_in_gone:
  assumes ok: "vm_ok L s" and go: "area_gone a r x s s'" and g0: "g0 = pgroup (area_st s r)"
  shows "only_in a s' g \<longleftrightarrow> only_in a s g \<and> (g = g0 \<longrightarrow> pg_refcount (pgroups s g0) \<noteq> 1)"
    and "pg_refcount (pgroups s g0) = 1 \<Longrightarrow> only_in a s g0"
    and "frames (pgroups s' g) = frames (pgroups s g)"
    and "pg_refcount (pgroups s' g) \<le> pg_refcount (pgroups s g)"
proof -
  have ao: "areas_ok (L KM96) (is_area s) (area_st s) (pgroups s)"
    and t: "tables_ok (is_area s) (area_st s) (pages_for s) (areas_in s) (\<lambda>a. ptab (aspaces s a))"
    using ok by (simp_all add: vm_ok_def)
  have x: "r \<in> set (areas_in s a)" "pgroups s' = (pgroups s)(g0 := x)" "map snd (pg_areas x) = remove1 r (map snd (pg_areas (pgroups s g0)))"
    "pg_refcount x = pg_refcount (pgroups s g0) - 1" "pg_size x = pg_size (pgroups s g0)" "pg_pages x = pg_pages (pgroups s g0)"
    "pg_flags x = pg_flags (pgroups s g0)" "areas_in s' = (areas_in s)(a := remove1 r (areas_in s a))"
    using go unfolding area_gone_def Let_def g0 by blast+
  have r: "is_area s r" by (rule tables_ok_areas [OF t x(1)])
  have rin: "r \<in> snd ` set (pg_areas (pgroups s g0))" "pg_refcount (pgroups s g0) \<noteq> 0"
    using ao r areas_ok_live [OF ao r] unfolding areas_ok_def g0 by auto
  have g: "distinct (map snd (pg_areas (pgroups s g)))" "pg_refcount (pgroups s g) = length (pg_areas (pgroups s g))"
    "q \<in> snd ` set (pg_areas (pgroups s g)) \<Longrightarrow> pgroup (area_st s q) = g" for g q
    using ao unfolding areas_ok_def by auto
  have d: "distinct (areas_in s a)" using t unfolding tables_ok_def table_ok_def by blast
  have sa: "set (areas_in s' a) = set (areas_in s a) - {r}" using d by (simp add: x(8))
  have sx: "snd ` set (pg_areas x) = snd ` set (pg_areas (pgroups s g0)) - {r}"
    using arg_cong [OF x(3), of set] g(1) [of g0] by simp
  show "only_in a s' g \<longleftrightarrow> only_in a s g \<and> (g = g0 \<longrightarrow> pg_refcount (pgroups s g0) \<noteq> 1)"
  proof (cases "g = g0")
    case True
    then show ?thesis using rin x(1,4) unfolding only_in_def sa by (simp add: x(2) sx) auto
  next
    case False
    then have "r \<notin> snd ` set (pg_areas (pgroups s g))" using g(3) [of r g] g0 by blast
    then show ?thesis using False unfolding only_in_def sa by (simp add: x(2)) blast
  qed
  show "only_in a s g0" if "pg_refcount (pgroups s g0) = 1"
  proof -
    have "length (pg_areas (pgroups s g0)) = Suc 0" using that g(2) [of g0] by simp
    then obtain q where "pg_areas (pgroups s g0) = [q]" by (auto simp: length_Suc_conv)
    then show ?thesis using rin x(1) by (auto simp: only_in_def)
  qed
  show "frames (pgroups s' g) = frames (pgroups s g)"
    using x(5-7) by (simp add: x(2) frames_def owns_frames_def group_pages_def)
  show "pg_refcount (pgroups s' g) \<le> pg_refcount (pgroups s g)" by (simp add: x(2,4))
qed

lemma frames_of_gone:
  assumes "vm_ok L s" and "area_gone a r x s s'" and g0: "g0 = pgroup (area_st s r)"
  shows "frames_of a s = (if pg_refcount (pgroups s g0) = 1 then set (frames (pgroups s g0)) else {}) \<union> frames_of a s'"
  using only_in_gone [OF assms] unfolding frames_of_def by auto

lemma area_destroy_done:
  assumes ok: "vm_ok L s" and lim: "\<And>g. pg_refcount (pgroups s g) < 4294967296" and rt: "rtab_ok s F" and ar: "ar \<in> set (areas_in s a)"
    and b: "ar \<in> bound s F" "rqueue (rsrcs s ar) = []" "ar \<noteq> run_queue s" and i: "i = rid (rsrcs s ar)" and G: "free_pages (km s) G"
  obtains s' x L' G' where "area_destroy a (int i) s = Some (ERR_NONE, s')" "rtab_ok s' (i # F)" "bound s' (i # F) = bound s F - {ar}"
    "run_queue s' = run_queue s" "\<forall>x. rqueue (rsrcs s' x) = rqueue (rsrcs s x)" "area_gone a ar x s s'" "vm_ok L' s'"
    "free_pages (km s') G'" "set G' \<union> frames_of a s' = set G \<union> frames_of a s"
proof -
  have f: "rsrc_find RSRC_AREA (int i) s = ar" using area_found [OF ok rt ar b(1)] i by simp
  obtain s' where s': "area_destroy a (int i) s = Some (ERR_NONE, s')" "rtab_ok s' (i # F)" "bound s' (i # F) = bound s F - {ar}"
    "run_queue s' = run_queue s" "\<forall>x. rqueue (rsrcs s' x) = rqueue (rsrcs s x)"
    using area_destroy_total [OF ok rt ar b] unfolding i by blast
  from area_destroy_gone [OF ok lim s'(1)] obtain x L' where g: "area_gone a ar x s s'" "vm_ok L' s'" unfolding f by auto
  note p = area_destroy_pages [OF ok lim s'(1) G refl, unfolded f]
  show ?thesis by (rule that [OF s' g p]) (use frames_of_gone [OF ok g(1) refl] in auto)
qed

text \<open>The areas of an address space have ids, nobody waits on them.\<close>

definition areas_idle :: "nat \<Rightarrow> nat list \<Rightarrow> kstate \<Rightarrow> bool" where
  "areas_idle a F s \<longleftrightarrow> (\<forall>r \<in> set (areas_in s a). r \<in> bound s F \<and> rqueue (rsrcs s r) = [] \<and> r \<noteq> run_queue s)"

lemma vm_ok_empty:
  assumes "vm_ok L s" and "areas_in s a = []"
  shows "ptab (aspaces s a) i = 0"
proof -
  have "table_ok (is_area s) (area_st s) (pages_for s) (areas_in s a) (ptab (aspaces s a))"
    using assms(1) by (simp add: vm_ok_def tables_ok_def)
  then show ?thesis using assms(2) unfolding table_ok_def by auto
qed

lemma destroy_areas_ok:
  assumes "n = length (areas_in s a)" and "vm_ok L s" and "\<And>g. pg_refcount (pgroups s g) < 4294967296" and "rtab_ok s F" and "areas_idle a F s"
    and "free_pages (km s) G"
  shows "\<exists>s' F' G'. destroy_areas a s = Some s' \<and> vm_inv s' \<and> rtab_ok s' F' \<and> bound s' F' = bound s F - set (areas_in s a) \<and>
    areas_in s' a = [] \<and> (\<forall>i. ptab (aspaces s' a) i = 0) \<and>
    (\<forall>b. b \<noteq> a \<longrightarrow> areas_in s' b = areas_in s b \<and> ptab (aspaces s' b) = ptab (aspaces s b)) \<and>
    free_pages (km s') G' \<and> set G' = set G \<union> frames_of a s"
  using assms
proof (induction n arbitrary: s L F G)
  case 0
  then have e: "areas_in s a = []" by simp
  then have "areas (aspaces s a) = []" by (simp add: areas_in_def)
  then have d: "destroy_areas a s = Some s" by (subst destroy_areas.simps) (simp add: kl_peek_head_def)
  have ao: "areas_ok (L KM96) (is_area s) (area_st s) (pgroups s)" using 0(2) by (simp add: vm_ok_def)
  have "\<not> only_in a s g" for g
    using ao e unfolding only_in_def areas_ok_def by (metis image_is_empty length_0_conv list.set(1) set_empty subset_empty)
  then have "frames_of a s = {}" by (simp add: frames_of_def)
  then show ?case using 0 d e vm_ok_empty [OF 0(2) e] by (intro exI [of _ s] exI [of _ F] exI [of _ G]) (auto simp: vm_inv_def)
next
  case (Suc n)
  obtain k r rest where l: "areas (aspaces s a) = (k, r) # rest" "areas_in s a = r # map snd rest"
    using Suc(2) by (cases "areas (aspaces s a)") (auto simp: areas_in_def)
  have r: "r \<in> set (areas_in s a)" by (simp add: l)
  have b: "r \<in> bound s F" "rqueue (rsrcs s r) = []" "r \<noteq> run_queue s" using Suc(6) r by (simp_all add: areas_idle_def)
  have nz: "r \<noteq> 0" using rtab_bound [OF Suc(5) b(1)] by blast
  from area_destroy_done [OF Suc(3,4,5) r b refl Suc(7)] obtain s1 x L1 G1 where
    s1: "area_destroy a (int (rid (rsrcs s r))) s = Some (ERR_NONE, s1)" "rtab_ok s1 (rid (rsrcs s r) # F)"
      "bound s1 (rid (rsrcs s r) # F) = bound s F - {r}" "run_queue s1 = run_queue s" "\<forall>x. rqueue (rsrcs s1 x) = rqueue (rsrcs s x)"
      "area_gone a r x s s1" "vm_ok L1 s1" "free_pages (km s1) G1" "set G1 \<union> frames_of a s1 = set G \<union> frames_of a s" by metis
  have d: "destroy_areas a s = destroy_areas a s1"
    using nz s1(1) by (subst destroy_areas.simps) (simp add: kl_peek_head_def l(1))
  have ar: "areas_in s1 = (areas_in s)(a := remove1 r (areas_in s a))"
    and pt: "(\<lambda>b. ptab (aspaces s1 b)) = (\<lambda>b. ptab (aspaces s b))(a := clear_range (ptab (aspaces s a)) (virt_addr (area_st s r)) (alength (area_st s r)))"
    using s1(6) unfolding area_gone_def Let_def by blast+
  have a1: "areas_in s1 a = map snd rest" using l(2) by (simp add: ar)
  have "table_ok (is_area s) (area_st s) (pages_for s) (areas_in s a) (ptab (aspaces s a))"
    using Suc(3) by (simp add: vm_ok_def tables_ok_def)
  then have dr: "r \<notin> set (map snd rest)" using l(2) by (simp add: table_ok_def)
  have id: "areas_idle a (rid (rsrcs s r) # F) s1"
    using Suc(6) dr unfolding areas_idle_def s1(3,4) a1 l(2) by (simp add: s1(5)) blast
  have lim: "pg_refcount (pgroups s1 g) < 4294967296" for g
    using only_in_gone(4) [OF Suc(3) s1(6) refl, of g] Suc(4) [of g] by simp
  have n: "n = length (areas_in s1 a)" using Suc(2) l(2) a1 by simp
  from Suc.IH [OF n s1(7) lim s1(2) id s1(8)] obtain s' F' G' where
    s': "destroy_areas a s1 = Some s'" "vm_inv s'" "rtab_ok s' F'" "bound s' F' = bound s F - {r} - set (areas_in s1 a)"
      "areas_in s' a = []" "\<forall>i. ptab (aspaces s' a) i = 0"
      "\<forall>b. b \<noteq> a \<longrightarrow> areas_in s' b = areas_in s1 b \<and> ptab (aspaces s' b) = ptab (aspaces s1 b)"
      "free_pages (km s') G'" "set G' = set G1 \<union> frames_of a s1" unfolding s1(3) by blast
  have o: "\<forall>b. b \<noteq> a \<longrightarrow> areas_in s' b = areas_in s b \<and> ptab (aspaces s' b) = ptab (aspaces s b)"
    using s'(7) ar fun_cong [OF pt] by simp
  have bd: "bound s' F' = bound s F - set (areas_in s a)" unfolding s'(4) a1 l(2) by auto
  show ?case unfolding d
    by (rule exI [of _ s'], rule exI [of _ F'], rule exI [of _ G']) (use s'(1-3,5,6,8,9) s1(9) o bd in simp)
qed

lemma area_destroy_unmaps:
  assumes ok: "vm_ok L s" and lim: "\<And>g. pg_refcount (pgroups s g) < 4294967296" and rt: "rtab_ok s F" and ar: "ar \<in> set (areas_in s a)"
    and b: "ar \<in> bound s F" "rqueue (rsrcs s ar) = []" "ar \<noteq> run_queue s" and G: "free_pages (km s) G"
    and y: "y = area_st s ar" and g: "g = pgroups s (pgroup y)"
  shows "\<exists>s'. area_destroy a (int (rid (rsrcs s ar))) s = Some (ERR_NONE, s') \<and> vm_inv s' \<and> set (areas_in s' a) = set (areas_in s a) - {ar} \<and>
    rtab_ok s' (rid (rsrcs s ar) # F) \<and> bound s' (rid (rsrcs s ar) # F) = bound s F - {ar} \<and>
    (\<forall>c i. ptab (aspaces s' c) i = (if c = a \<and> i \<in> {virt_addr y..<virt_addr y + alength y} then 0 else ptab (aspaces s c) i)) \<and>
    free_pages (km s') (if pg_refcount g = 1 then rev (frames g) @ G else G)"
proof -
  let ?i = "rid (rsrcs s ar)"
  from area_destroy_done [OF ok lim rt ar b refl G] obtain s' x L' where
    s': "area_destroy a (int ?i) s = Some (ERR_NONE, s')" "area_gone a ar x s s'" "vm_ok L' s'"
      "rtab_ok s' (?i # F)" "bound s' (?i # F) = bound s F - {ar}" by metis
  have t: "table_ok (is_area s) (area_st s) (pages_for s) (areas_in s a) (ptab (aspaces s a))"
    using ok by (simp add: vm_ok_def tables_ok_def)
  have e: "areas_in s' = (areas_in s)(a := remove1 ar (areas_in s a))"
    "(\<lambda>b. ptab (aspaces s' b)) = (\<lambda>b. ptab (aspaces s b))(a := clear_range (ptab (aspaces s a)) (virt_addr y) (alength y))"
    using s'(2) unfolding area_gone_def Let_def y by blast+
  have "ptab (aspaces s' c) i = (if c = a \<and> i \<in> {virt_addr y..<virt_addr y + alength y} then 0 else ptab (aspaces s c) i)" for c i
    using fun_cong [OF fun_cong [OF e(2), of c], of i] by (auto simp: clear_range_def)
  moreover have "set (areas_in s' a) = set (areas_in s a) - {ar}" using t by (simp add: e(1) table_ok_def)
  moreover note area_destroy_pages [OF ok lim s'(1) G refl, unfolded area_found [OF ok rt ar b(1)]]
  ultimately show ?thesis using s' unfolding y g vm_inv_def by (intro exI [of _ s'] conjI) auto
qed

lemma kheap_blocks_pos:
  assumes h: "kheap L A m" and a: "a \<in> blocks L"
  shows "1 < a"
proof -
  obtain own where inv: "kmem_inv own L m" and nm: "0x80000000 \<le> nextmem m" using h by (auto simp: kheap_def)
  obtain k where k: "k < KMMAX" "a \<in> L k" using a by (auto simp: blocks_def)
  have "pool_ok own (live L m k) k (km_map m ! k)" using inv k(1) by (simp add: kmem_invx_def)
  then have "block_ok own k a" using k(2) by (simp add: pool_ok_def live_def)
  then obtain P j where "own P = Some (Pool k)" "a = P + j * psz k" by (auto simp: block_ok_def)
  then have P: "P \<in> dom own" "P \<le> a" by auto
  have "nextmem m \<le> P" using inv P(1) by (simp add: kmem_invx_def pages_ok_def)
  then show ?thesis using P(2) nm by simp
qed

text \<open>The state after an area of two pages was created in address space 2.\<close>

lemma booted_area:
  "\<exists>s L ar G. vm_ok L s \<and> (\<forall>g. pg_refcount (pgroups s g) < 4294967296) \<and> rtab_ok s [2..<8] \<and> areas_in s 2 = [ar] \<and> ar \<in> bound s [2..<8] \<and>
     rqueue (rsrcs s ar) = [] \<and> ar \<noteq> run_queue s \<and> rid (rsrcs s ar) = 1 \<and> free_pages (km s) G"
proof -
  obtain m own where m: "room 15 m" "kmem_inv own (\<lambda>_. {}) m" "free_pages m [307..<320]" "0x80000000 \<le> nextmem m"
    using booted_memory by blast
  have e: "[307..<320] = 307 # 308 # [309..<320 :: nat]" by (simp add: upt_rec)
  have h: "kheap (\<lambda>_. {}) UNIV m" using m by (auto simp: kheap_def)
  have inv: "vm_inv (booted 64 m)" by (rule booted_vm_inv [OF m(2,3) _ m(4)]) auto
  from booted_create [OF m(1) m(3) [unfolded e] h] obtain s ar n2 where
    c: "area_create 2 8192 0 0 0 (booted 64 m) = Some (1, 512 * 0x1000, s)" and ar: "ar \<noteq> 0"
    and t: "rfree s = 2" "rmax s = 8" "areas (aspaces s 2) = [(n2, ar)]" "run_queue s = 0"
      "rmap_resource s = (rmap_resource (booted 64 m))(1 := ar)" "rmap_next s = rmap_next (booted 64 m)"
      "rsrcs s = (rsrcs (booted 64 m))(ar := \<lparr>rid = 1, rtype = RSRC_AREA, rowner = 0, rights = [], rqueue = [], rname = []\<rparr>)" by blast
  obtain L0 where "vm_ok L0 (booted 64 m)" using inv by (auto simp: vm_inv_def)
  from area_create_ok [OF this c] have n: "vm_inv s" "pg_refcount (pgroups s g) \<le> Suc 0" for g
    using booted_fields(1) [of 64 m] unfolding vm_next_def by auto
  have bt: "rtab_ok (booted 64 m) [1..<8]" using rsrc_init_rtab [of 64 "kstate_boot\<lparr>km := m\<rparr>"] by (simp add: booted_def)
  have u: "[1..<8] = 1 # [2..<8 :: nat]" by (simp add: upt_rec)
  have live: "live_ids s [2..<8] = {1}" by (auto simp: live_ids_def t(2))
  obtain L where L: "vm_ok L s" using n(1) by (auto simp: vm_inv_def)
  have "is_area s ar"
    using tables_ok_areas [of "is_area s" "area_st s" "pages_for s" "areas_in s" "\<lambda>a. ptab (aspaces s a)" ar 2] L t(3)
    by (simp add: vm_ok_def areas_in_def)
  then have "ar \<in> objects L" using L by (simp add: vm_ok_def is_area_def)
  moreover have hL: "kheap L (free_frames s) (km s)" using L by (simp add: vm_ok_def mem_ok_def)
  ultimately have "1 < ar" using kheap_blocks_pos objects_blocks by blast
  then have "rtab_ok s [2..<8]"
    using bt unfolding rtab_ok_def live u free_ids_def by (auto simp: t null_resource_def booted_ids)
  moreover have "ar \<in> bound s [2..<8]" unfolding bound_def live by (simp add: t(5))
  moreover obtain G where "free_pages (km s) G" using hL by (auto simp: kheap_def)
  moreover have "pg_refcount (pgroups s g) < 4294967296" for g using n(2) [of g] by simp
  ultimately show ?thesis using L t(3,4) ar
    by (intro exI [of _ s] exI [of _ L] exI [of _ ar] exI [of _ G]) (simp add: areas_in_def t(7))
qed

text \<open>C7. \<open>area_destroy\<close> of an area that is mapped in the address space, has an id and has nobody waiting on
  it always succeeds: it clears exactly the page-table entries of the area, takes the area out of the
  address space, makes its id free again and keeps memory consistent. When the area was the last one of its page
  group the frames of the group go back to the free list; otherwise the free list is unchanged.\<close>
theorem area_destroy_frees:
  assumes "vm_ok L s" and "\<forall>g. pg_refcount (pgroups s g) < 4294967296" and "rtab_ok s F" and "ar \<in> set (areas_in s a)"
    and "ar \<in> bound s F" and "rqueue (rsrcs s ar) = []" and "ar \<noteq> run_queue s" and "free_pages (km s) G"
    and "y = area_st s ar" and "g = pgroups s (pgroup y)"
  shows "\<exists>s'. area_destroy a (int (rid (rsrcs s ar))) s = Some (ERR_NONE, s') \<and> vm_inv s' \<and> set (areas_in s' a) = set (areas_in s a) - {ar} \<and>
    rtab_ok s' (rid (rsrcs s ar) # F) \<and> bound s' (rid (rsrcs s ar) # F) = bound s F - {ar} \<and>
    (\<forall>c i. ptab (aspaces s' c) i = (if c = a \<and> i \<in> {virt_addr y..<virt_addr y + alength y} then 0 else ptab (aspaces s c) i)) \<and>
    free_pages (km s') (if pg_refcount g = 1 then rev (frames g) @ G else G)"
  by (rule area_destroy_unmaps [OF assms(1) _ assms(3-10)]) (use assms(2) in simp)

theorem area_destroy_frees_witness:
  "\<exists>s ar s'. areas_in s 2 = [ar] \<and> area_destroy 2 1 s = Some (ERR_NONE, s') \<and> areas_in s' 2 = [] \<and> vm_inv s'"
proof -
  obtain s L ar G where s: "vm_ok L s" "\<forall>g. pg_refcount (pgroups s g) < 4294967296" "rtab_ok s [2..<8]" "areas_in s 2 = [ar]"
    "ar \<in> bound s [2..<8]" "rqueue (rsrcs s ar) = []" "ar \<noteq> run_queue s" "rid (rsrcs s ar) = 1" "free_pages (km s) G"
    using booted_area by blast
  have "ar \<in> set (areas_in s 2)" by (simp add: s(4))
  from area_destroy_frees [OF s(1-3) this s(5-7,9) refl refl] s(4,8) show ?thesis by auto
qed

text \<open>C8. Tearing down an address space, as \<open>aspace_destroy\<close> starts to do, ends: the loop that destroys the first area until
  there is none left returns, whatever the areas share with other address spaces. Afterwards the page
  table is empty, the ids of its areas are free, other address spaces have their areas and tables as before, and
  the free list has gained exactly the frames of the page groups that had no area elsewhere.\<close>
theorem aspace_teardown:
  assumes "vm_ok L s" and "\<forall>g. pg_refcount (pgroups s g) < 4294967296" and "rtab_ok s F" and "areas_idle a F s" and "free_pages (km s) G"
  shows "\<exists>s' F' G'. destroy_areas a s = Some s' \<and> vm_inv s' \<and> rtab_ok s' F' \<and> bound s' F' = bound s F - set (areas_in s a) \<and>
    areas_in s' a = [] \<and> (\<forall>i. ptab (aspaces s' a) i = 0) \<and>
    (\<forall>b. b \<noteq> a \<longrightarrow> areas_in s' b = areas_in s b \<and> ptab (aspaces s' b) = ptab (aspaces s b)) \<and>
    free_pages (km s') G' \<and> set G' = set G \<union> frames_of a s"
  by (rule destroy_areas_ok [OF refl assms(1) _ assms(3-5)]) (use assms(2) in simp)

theorem aspace_teardown_witness:
  "\<exists>s ar s'. areas_in s 2 = [ar] \<and> destroy_areas 2 s = Some s' \<and> areas_in s' 2 = [] \<and> (\<forall>i. ptab (aspaces s' 2) i = 0)"
proof -
  obtain s L ar G where s: "vm_ok L s" "\<forall>g. pg_refcount (pgroups s g) < 4294967296" "rtab_ok s [2..<8]" "areas_in s 2 = [ar]"
    "ar \<in> bound s [2..<8]" "rqueue (rsrcs s ar) = []" "ar \<noteq> run_queue s" "free_pages (km s) G"
    using booted_area by blast
  have "areas_idle 2 [2..<8] s" using s by (simp add: areas_idle_def)
  from aspace_teardown [OF s(1-3) this s(8)] s(4) show ?thesis by blast
qed

end
