(* ===== verification/Sem.thy ===== *)
theory Sem
  imports SchedInv
begin

text \<open>
  The semaphores of \<^verbatim>\<open>kernel/sem.c\<close>. A caller that has to wait leaves with
  \<open>Blocked\<close>; the rest of its call is \<open>sem_acquire_resume\<close>.
\<close>

section \<open>Operations\<close>

definition sem_create :: "int \<Rightarrow> string option \<Rightarrow> kstate \<Rightarrow> (result \<times> kstate) option" where
  "sem_create count name s = do {
     (p, s) \<leftarrow> kmalloc sizeof_sem s;
     let s = upd_sem p (\<lambda>x. x\<lparr>sem_count := count\<rparr>) s;
     s \<leftarrow> rsrc_bind p RSRC_SEM (rowner (rsrcs s (current s))) s;
     let s = rsrc_set_name p name s;
     Some (Done (int (rid (rsrcs s p))), s)
   }"

definition sem_destroy :: "int \<Rightarrow> kstate \<Rightarrow> (result \<times> kstate) option" where
  "sem_destroy i s =
     (let p = rsrc_find RSRC_SEM i s in
      if p = 0 then Some (Done ERR_RESOURCE, s)
      else do {
        s \<leftarrow> rsrc_release p s;
        s \<leftarrow> kfree sizeof_sem p s;
        Some (Done ERR_NONE, s)
      })"

definition sem_acquire :: "int \<Rightarrow> kstate \<Rightarrow> (result \<times> kstate) option" where
  "sem_acquire i s =
     (let p = rsrc_find RSRC_SEM i s in
      if p = 0 then Some (Done ERR_RESOURCE, s)
      else if sem_count (sems s p) > 0
      then Some (Done ERR_NONE, upd_sem p (\<lambda>x. x\<lparr>sem_count := s32 (sem_count x - 1)\<rparr>) s)
      else wait_on K_sem_acquire p (upd_sem p (\<lambda>x. x\<lparr>sem_count := s32 (sem_count x - 1)\<rparr>) s))"

definition sem_acquire_resume :: "kstate \<Rightarrow> (result \<times> kstate) option" where
  "sem_acquire_resume s =
     (let st = status (tasks s (current s)) in
      if st \<noteq> 0 then Some (Done st, s) else Some (Done ERR_NONE, s))"

definition sem_release :: "int \<Rightarrow> kstate \<Rightarrow> (result \<times> kstate) option" where
  "sem_release i s =
     (let p = rsrc_find RSRC_SEM i s in
      if p = 0 then Some (Done ERR_RESOURCE, s)
      else
        (let s1 = upd_sem p (\<lambda>x. x\<lparr>sem_count := s32 (sem_count x + 1)\<rparr>) s;
             (t, s2) = rsrc_dequeue p s1
         in if t \<noteq> 0
            then do {
              s3 \<leftarrow> preempt t ERR_NONE (set_kont (current s2) (K_return ERR_NONE) s2);
              Some (Blocked, s3)
            }
            else Some (Done ERR_NONE, s2)))"

end
