(* ===== verification/Port.thy ===== *)
theory Port
  imports SchedInv
begin

text \<open>
  The message ports of \<^verbatim>\<open>kernel/port.c\<close>. \<open>port_send\<close> and \<open>port_recv\<close> read and write the
  caller's memory through the page tables of its address space; an unmapped page raises
  the page fault handled by \<open>faultE\<close>, which ends the caller. Both wait in a loop that tests
  the port again after every wake-up: \<open>port_send_loop\<close> and \<open>port_recv_loop\<close> are one turn of it
  and the rest of the call, and the continuation of a blocked caller is the next turn.
\<close>

section \<open>Access to the caller's memory\<close>

text \<open>A page table entry maps its page when bit 0 is set. Addresses below \<open>0x400000\<close> go
  through \<open>ptab\<close> (directory entry 0), those from \<open>0x80000000\<close> through \<open>high\<close> (entry 512).\<close>

definition translate :: "kstate \<Rightarrow> nat \<Rightarrow> nat option" where
  "translate s a =
     (let asp = aspaces s (taspace (teams s (tteam (tasks s (current s)))));
          e = (if a < 0x400000 then ptab asp (a div 0x1000)
               else if 0x80000000 \<le> a \<and> a < 0x80400000 then high (km s) (a div 0x1000 AND 0x3FF)
               else 0)
      in if odd e then Some ((e AND 0xFFFFF000) + a mod 0x1000) else None)"

primrec copy_in :: "nat \<Rightarrow> nat \<Rightarrow> kstate \<Rightarrow> nat list option" where
  "copy_in 0 a s = Some []"
| "copy_in (Suc n) a s = do {
     p \<leftarrow> translate s a;
     bs \<leftarrow> copy_in n (a + 1) s;
     Some (phys_mem s p # bs)
   }"

text \<open>The flag tells whether every byte was written; those before a fault stay written.\<close>

primrec copy_out :: "nat list \<Rightarrow> nat \<Rightarrow> kstate \<Rightarrow> bool \<times> kstate" where
  "copy_out [] a s = (True, s)"
| "copy_out (b # bs) a s =
     (case translate s a of
        None \<Rightarrow> (False, s)
      | Some p \<Rightarrow> copy_out bs (a + 1) (s\<lparr>phys_mem := (phys_mem s)(p := b)\<rparr>))"

definition le32 :: "nat \<Rightarrow> nat list" where
  "le32 v = [v mod 256, v div 256 mod 256, v div 65536 mod 256, v div 16777216 mod 256]"

section \<open>Operations\<close>

abbreviation (input) MAX_MSGCOUNT :: int where "MAX_MSGCOUNT \<equiv> 16"
abbreviation (input) PORT_OPT_NOWAIT :: nat where "PORT_OPT_NOWAIT \<equiv> 1"
abbreviation (input) PORT_OPT_SETRESTRICT :: nat where "PORT_OPT_SETRESTRICT \<equiv> 2"
abbreviation (input) PORT_OPT_SLAVE :: nat where "PORT_OPT_SLAVE \<equiv> 4"

definition port_create :: "int \<Rightarrow> string option \<Rightarrow> kstate \<Rightarrow> (result \<times> kstate) option" where
  "port_create restr name s = do {
     (p, s) \<leftarrow> kmalloc sizeof_port s;
     (q, s) \<leftarrow> kmalloc sizeof_resource s;
     let s = upd_port p (\<lambda>_. \<lparr>msgcount = 0, slaved = 0, msgs = [], port_refcount = 1, nowait = 0,
                restrict_to = restr, sendqueue = q\<rparr>) s;
     s \<leftarrow> rsrc_bind p RSRC_PORT (rowner (rsrcs s (current s))) s;
     s \<leftarrow> rsrc_bind q RSRC_QUEUE (rowner (rsrcs s (current s))) s;
     let s = rsrc_set_name p name s;
     let s = rsrc_set_name q name s;
     Some (Done (int (rid (rsrcs s p))), s)
   }"

definition port_destroy :: "int \<Rightarrow> kstate \<Rightarrow> (result \<times> kstate) option" where
  "port_destroy port s =
     (let p = rsrc_find RSRC_PORT port s in
      if p = 0 then Some (Done ERR_RESOURCE, s)
      else if port_refcount (ports s p) = 1
      then do {
        s \<leftarrow> rsrc_release p s;
        s \<leftarrow> rsrc_release (sendqueue (ports s p)) s;
        s \<leftarrow> kfree sizeof_resource (sendqueue (ports s p)) s;
        s \<leftarrow> kfree sizeof_port p s;
        Some (Done ERR_NONE, s)
      }
      else Some (Done ERR_RESOURCE, s))"

definition port_option_slave :: "nat \<Rightarrow> nat \<Rightarrow> kstate \<Rightarrow> (result \<times> kstate) option" where
  "port_option_slave p arg s =
     (let master = rsrc_find RSRC_PORT (int arg) s in
      if arg \<noteq> 0 \<and> master = 0 then Some (Done ERR_RESOURCE, s)
      else if arg \<noteq> 0 \<and> rowner (rsrcs s master) \<noteq> rowner (rsrcs s (current s))
      then Some (Done ERR_PERMISSION, s)
      else
        (let s1 = (if arg \<noteq> 0
                   then upd_port master (\<lambda>x. x\<lparr>port_refcount := s32 (port_refcount x + 1)\<rparr>) s
                   else s);
             old = rsrc_find RSRC_PORT (slaved (ports s1 p)) s1
         in if slaved (ports s1 p) \<noteq> 0 \<and> old = 0 then None
            else
              (let s2 = (if slaved (ports s1 p) \<noteq> 0
                         then upd_port old (\<lambda>x. x\<lparr>port_refcount := s32 (port_refcount x - 1)\<rparr>) s1
                         else s1)
               in Some (Done ERR_NONE, upd_port p (\<lambda>x. x\<lparr>slaved := s32 (int arg)\<rparr>) s2))))"

definition port_option :: "nat \<Rightarrow> nat \<Rightarrow> nat \<Rightarrow> kstate \<Rightarrow> (result \<times> kstate) option" where
  "port_option port opt arg s =
     (let p = rsrc_find RSRC_PORT (int port) s in
      if p = 0 then Some (Done ERR_RESOURCE, s)
      else if rowner (rsrcs s p) \<noteq> rowner (rsrcs s (current s)) then Some (Done ERR_PERMISSION, s)
      else if opt = PORT_OPT_SETRESTRICT
      then Some (Done ERR_NONE, upd_port p (\<lambda>x. x\<lparr>restrict_to := s32 (int arg)\<rparr>) s)
      else if opt = PORT_OPT_SLAVE then port_option_slave p arg s
      else if opt = PORT_OPT_NOWAIT
      then Some (Done ERR_NONE, upd_port p (\<lambda>x. x\<lparr>nowait := s32 (int arg)\<rparr>) s)
      else Some (Done ERR_PERMISSION, s))"

text \<open>The message buffer: a block of the message's size below 256 bytes, otherwise a page,
  reused from \<open>msg_pool\<close> if there is one.\<close>

definition msg_buffer :: "nat \<Rightarrow> kstate \<Rightarrow> (nat \<times> kstate) option" where
  "msg_buffer sz s =
     (if sz < 256 then (if sz \<noteq> 0 then kmalloc sz s else Some (0, s))
      else
        (case msg_pool s of
           d # ds \<Rightarrow> Some (d, s\<lparr>msg_pool := ds\<rparr>)
         | [] \<Rightarrow> do { (d, m) \<leftarrow> kgetpages 1 (km s); Some (d, s\<lparr>km := m\<rparr>) }))"

definition port_append :: "nat \<Rightarrow> message_t \<Rightarrow> kstate \<Rightarrow> kstate" where
  "port_append p m s =
     upd_port p (\<lambda>x. x\<lparr>msgs := msgs x @ [m], msgcount := s32 (msgcount x + 1)\<rparr>) s"

text \<open>Waking a receiver: on the master of \<open>p\<close> if it is slaved, otherwise on \<open>p\<close>.\<close>

definition wake_one :: "nat \<Rightarrow> kstate \<Rightarrow> kstate" where
  "wake_one r s =
     (let (task, s1) = rsrc_dequeue r s in if task \<noteq> 0 then task_wake task ERR_NONE s1 else s1)"

definition port_wake :: "nat \<Rightarrow> kstate \<Rightarrow> kstate" where
  "port_wake p s =
     (if slaved (ports s p) \<noteq> 0
      then (let p0 = rsrc_find RSRC_PORT (slaved (ports s p)) s in
            if p0 \<noteq> 0 then wake_one p0 s else s)
      else wake_one p s)"

definition fault_in_call :: "kstate \<Rightarrow> (result \<times> kstate) option" where
  "fault_in_call s = do { s1 \<leftarrow> faultE s; Some (Blocked, s1) }"

definition port_send_deliver ::
  "nat \<Rightarrow> int \<Rightarrow> int \<Rightarrow> nat \<Rightarrow> nat \<Rightarrow> nat \<Rightarrow> kstate \<Rightarrow> (result \<times> kstate) option" where
  "port_send_deliver p src dst msg sz code s =
     (if msg > 0x400000 \<or> sz > 4096 then Some (Done ERR_MEMORY, s)
      else do {
        (m, s) \<leftarrow> kmalloc sizeof_message s;
        (d, s) \<leftarrow> msg_buffer sz s;
        case copy_in sz msg s of
          None \<Rightarrow> fault_in_call s
        | Some bytes \<Rightarrow>
            (let s = port_append p \<lparr>maddr = m, msize = sz, mcode = code, from_port = src,
                       to_port = dst, mdata = d, mbytes = bytes\<rparr> s
             in Some (Done (int sz), port_wake p s))
      })"

definition port_send_loop ::
  "nat \<Rightarrow> int \<Rightarrow> int \<Rightarrow> nat \<Rightarrow> nat \<Rightarrow> nat \<Rightarrow> kstate \<Rightarrow> (result \<times> kstate) option" where
  "port_send_loop p src dst msg sz code s =
     (if msgcount (ports s p) \<ge> MAX_MSGCOUNT
      then if nowait (ports s p) \<noteq> 0 then Some (Done ERR_WOULD_BLOCK, s)
           else wait_on (K_port_send p src dst msg sz code) (sendqueue (ports s p)) s
      else port_send_deliver p src dst msg sz code s)"

definition port_send ::
  "int \<Rightarrow> int \<Rightarrow> nat \<Rightarrow> nat \<Rightarrow> nat \<Rightarrow> kstate \<Rightarrow> (result \<times> kstate) option" where
  "port_send src dst msg sz code s =
     (let f = rsrc_find RSRC_PORT src s; p = rsrc_find RSRC_PORT dst s in
      if f = 0 then Some (Done ERR_SENDPORT, s)
      else if p = 0 then Some (Done ERR_RECVPORT, s)
      else if slaved (ports s p) \<noteq> 0
      then (let master = rsrc_find RSRC_PORT (slaved (ports s p)) s in
            if master = 0 then Some (Done ERR_RESOURCE, s)
            else if slaved (ports s master) \<noteq> 0 then Some (Done ERR_RESOURCE, s)
            else port_send_loop master src dst msg sz code s)
      else port_send_loop p src dst msg sz code s)"

definition port_send_resume ::
  "nat \<Rightarrow> int \<Rightarrow> int \<Rightarrow> nat \<Rightarrow> nat \<Rightarrow> nat \<Rightarrow> kstate \<Rightarrow> (result \<times> kstate) option" where
  "port_send_resume p src dst msg sz code s =
     (let st = status (tasks s (current s)) in
      if st \<noteq> 0 then Some (Done st, s) else port_send_loop p src dst msg sz code s)"

text \<open>\<open>msg_release\<close>: the buffer goes back to its pool or to \<open>msg_pool\<close>, then the message.\<close>

definition msg_release :: "message_t \<Rightarrow> kstate \<Rightarrow> kstate option" where
  "msg_release m s = do {
     s1 \<leftarrow> (if msize m < 256
            then (if msize m \<noteq> 0 then kfree (msize m) (mdata m) s else Some s)
            else Some (s\<lparr>msg_pool := mdata m # msg_pool s\<rparr>));
     kfree sizeof_message (maddr m) s1
   }"

definition port_recv_take :: "nat \<Rightarrow> message_t \<Rightarrow> nat \<Rightarrow> kstate \<Rightarrow> (result \<times> kstate) option" where
  "port_recv_take p m sz s =
     (let s = upd_port p (\<lambda>x. x\<lparr>msgs := tl (msgs x)\<rparr>) s;
          q = sendqueue (ports s p);
          s = (if rqueue (rsrcs s q) \<noteq> [] \<and> msgcount (ports s p) \<le> MAX_MSGCOUNT
               then wake_one q s else s);
          s = upd_port p (\<lambda>x. x\<lparr>msgcount := s32 (msgcount x - 1)\<rparr>) s
      in do {
        s \<leftarrow> msg_release m s;
        Some (Done (int (if sz < msize m then sz else msize m)), s)
      })"

definition port_recv_loop ::
  "nat \<Rightarrow> nat \<Rightarrow> nat \<Rightarrow> nat \<Rightarrow> nat \<Rightarrow> kstate \<Rightarrow> (result \<times> kstate) option" where
  "port_recv_loop p srcp msg sz codep s =
     (if msgcount (ports s p) = 0
      then if nowait (ports s p) \<noteq> 0 then Some (Done ERR_WOULD_BLOCK, s)
           else wait_on (K_port_recv p srcp msg sz codep) p s
      else
        (case msgs (ports s p) of
           [] \<Rightarrow> None
         | m # ms \<Rightarrow>
             (let (ok1, s1) = copy_out (take sz (mbytes m)) msg s;
                  (ok2, s2) = (if ok1 \<and> srcp \<noteq> 0
                               then copy_out (le32 (u32_of_int (from_port m))) srcp s1 else (ok1, s1));
                  (ok3, s3) = (if ok2 \<and> codep \<noteq> 0
                               then copy_out (le32 (mcode m)) codep s2 else (ok2, s2))
              in if ok3 then port_recv_take p m sz s3 else fault_in_call s3)))"

definition port_recv ::
  "int \<Rightarrow> nat \<Rightarrow> nat \<Rightarrow> nat \<Rightarrow> nat \<Rightarrow> kstate \<Rightarrow> (result \<times> kstate) option" where
  "port_recv dst srcp msg sz codep s =
     (let p = rsrc_find RSRC_PORT dst s in
      if p = 0 then Some (Done ERR_RECVPORT, s)
      else if tteam (tasks s (current s)) \<noteq> kernel_team s \<and> msg > 0x400000
      then Some (Done ERR_MEMORY, s)
      else port_recv_loop p srcp msg sz codep s)"

definition port_recv_resume ::
  "nat \<Rightarrow> nat \<Rightarrow> nat \<Rightarrow> nat \<Rightarrow> nat \<Rightarrow> kstate \<Rightarrow> (result \<times> kstate) option" where
  "port_recv_resume p srcp msg sz codep s =
     (let st = status (tasks s (current s)) in
      if st \<noteq> 0 then Some (Done st, s) else port_recv_loop p srcp msg sz codep s)"

end
