(* ===== verification/TaskTeam.thy ===== *)
theory TaskTeam
  imports Sem Port Aspace
begin

text \<open>
  Tasks and teams: \<^verbatim>\<open>kernel/task.c\<close>, \<^verbatim>\<open>kernel/team.c\<close>, and \<open>new_thread\<close>, \<open>brk\<close> and
  the reaper of \<^verbatim>\<open>kernel/kernel.c\<close>.
\<close>

section \<open>Teams\<close>

definition team_create :: "kstate \<Rightarrow> (nat \<times> kstate) option" where
  "team_create s = do {
     (team, s) \<leftarrow> kmalloc sizeof_team s;
     (a, s) \<leftarrow> aspace_create s;
     let s = upd_team team (\<lambda>_. \<lparr>resources = [], team_refcount = 0, taspace = a, heap_id = 0,
                text_area = 0\<rparr>) s;
     s \<leftarrow> rsrc_bind team RSRC_TEAM (kernel_team s) s;
     s \<leftarrow> rsrc_set_owner a team s;
     Some (team, s)
   }"

text \<open>One resource of a dying team. A task is only reported, and the case then falls through
  to \<open>port_destroy\<close> with the task's id.\<close>

definition team_reclaim :: "nat \<Rightarrow> kstate \<Rightarrow> kstate option" where
  "team_reclaim r s =
     (let i = int (rid (rsrcs s r)) in
      case rtype (rsrcs s r) of
        RSRC_TASK \<Rightarrow> do { (e, s) \<leftarrow> port_destroy i s; Some s }
      | RSRC_PORT \<Rightarrow> do { (e, s) \<leftarrow> port_destroy i s; Some s }
      | RSRC_SEM \<Rightarrow> do { (e, s) \<leftarrow> sem_destroy i s; Some s }
      | RSRC_ASPACE \<Rightarrow> aspace_destroy r s
      | _ \<Rightarrow> Some s)"

partial_function (option) team_reclaim_all :: "nat \<Rightarrow> kstate \<Rightarrow> kstate option" where
  "team_reclaim_all team s = do {
     (r, l, m) \<leftarrow> kl_remove_head (resources (teams s team)) (km s);
     let s = upd_team team (\<lambda>t. t\<lparr>resources := l\<rparr>) (s\<lparr>km := m\<rparr>);
     if r = 0 then Some s
     else do {
       s \<leftarrow> team_reclaim r (upd_rsrc r (\<lambda>x. x\<lparr>rowner := 0\<rparr>) s);
       team_reclaim_all team s
     }
   }"

definition team_destroy :: "nat \<Rightarrow> kstate \<Rightarrow> kstate option" where
  "team_destroy team s = do {
     s \<leftarrow> team_reclaim_all team s;
     s \<leftarrow> rsrc_release team s;
     kfree sizeof_team team s
   }"

section \<open>Tasks\<close>

abbreviation (input) SEL_KCODE :: nat where "SEL_KCODE \<equiv> 8"
abbreviation (input) SEL_KDATA :: nat where "SEL_KDATA \<equiv> 16"
abbreviation (input) SEL_UCODE :: nat where "SEL_UCODE \<equiv> 32"
abbreviation (input) SEL_UDATA :: nat where "SEL_UDATA \<equiv> 40"

text \<open>The words \<open>task_create\<close> pushes on the new kernel stack, lowest address first: what
  \<open>_context_switch\<close> pops, then the frame \<open>thread_bootstrap\<close> returns through.\<close>

definition initial_frame :: "nat \<Rightarrow> nat \<Rightarrow> nat \<Rightarrow> bool \<Rightarrow> nat list" where
  "initial_frame bootstrap ip sp kern =
     [0, 0, 0, 0, 0x3002, bootstrap, ip] @
     (if kern then [SEL_KCODE, 0x3202, u32_sub sp (4 * 5), SEL_KDATA]
      else [SEL_UCODE OR 3, 0x3202, u32_sub sp (4 * 5), SEL_UDATA OR 3])"

definition task_create :: "nat \<Rightarrow> nat \<Rightarrow> nat \<Rightarrow> bool \<Rightarrow> kstate \<Rightarrow> (nat \<times> kstate) option" where
  "task_create team ip sp kern s = do {
     (t, s) \<leftarrow> kmalloc sizeof_task s;
     (kst, m) \<leftarrow> kgetpages 1 (km s);
     let s = s\<lparr>km := m\<rparr>;
     let tos = u32 (kst + 4092);
     let s = upd_task t (\<lambda>x. x\<lparr>kstack := kst, cr3 := pdirphys (aspaces s (taspace (teams s team))),
                esp := u32_sub tos (4 * 11), esp0 := tos, scount := 0, stack_area := 0, tteam := team,
                frame := initial_frame (thread_bootstrap s) ip sp kern,
                irq := 0, flags := tREADY, waiting_on := 0\<rparr>) s;
     Some (t, upd_team team (\<lambda>x. x\<lparr>team_refcount := s32 (team_refcount x + 1)\<rparr>) s)
   }"

definition task_destroy :: "nat \<Rightarrow> kstate \<Rightarrow> kstate option" where
  "task_destroy task s =
     (let team = rowner (rsrcs s task) in
      if task = current s then None
      else do {
        s \<leftarrow> (if stack_area (tasks s task) \<noteq> 0
              then do {
                (e, s) \<leftarrow> area_destroy (taspace (teams s team))
                           (int (rid (rsrcs s (stack_area (tasks s task))))) s;
                Some s
              } else Some s);
        s \<leftarrow> kfree_page (kstack (tasks s task)) s;
        s \<leftarrow> rsrc_release task s;
        s \<leftarrow> kfree sizeof_task task s;
        let s = upd_team team (\<lambda>x. x\<lparr>team_refcount := s32 (team_refcount x - 1)\<rparr>) s;
        if team_refcount (teams s team) = 0 then team_destroy team s else Some s
      })"

definition thr_wait :: "int \<Rightarrow> kstate \<Rightarrow> (result \<times> kstate) option" where
  "thr_wait thr_id s =
     (let task = rsrc_find RSRC_TASK thr_id s in
      if task \<noteq> 0 then wait_on K_thr_wait task s else Some (Done ERR_RESOURCE, s))"

text \<open>\<open>if(area = rsrc_find_area(id)) rsrc_set_owner(&area->rsrc, team);\<close>\<close>

definition give_area :: "int \<Rightarrow> nat \<Rightarrow> kstate \<Rightarrow> kstate option" where
  "give_area i team s =
     (let ar = rsrc_find RSRC_AREA i s in if ar \<noteq> 0 then rsrc_set_owner ar team s else Some s)"

definition thr_spawn :: "nat \<Rightarrow> nat \<Rightarrow> int \<Rightarrow> nat \<Rightarrow> int \<Rightarrow> nat \<Rightarrow> string option \<Rightarrow> kstate
    \<Rightarrow> (result \<times> kstate) option" where
  "thr_spawn ip sp area0 vaddr0 area1 vaddr1 name s = do {
     (team, s) \<leftarrow> team_create s;
     let a = taspace (teams s team);
     (task, s) \<leftarrow> task_create team ip sp False s;
     let s = upd_task task (\<lambda>x. x\<lparr>ustack := 0\<rparr>) s;
     s \<leftarrow> rsrc_bind task RSRC_TASK team s;
     (i, addr, s) \<leftarrow> area_clone a area0 vaddr0 0 s;
     s \<leftarrow> give_area i team (upd_team team (\<lambda>x. x\<lparr>heap_id := i\<rparr>) s);
     (i, addr, s) \<leftarrow> area_clone a area1 vaddr1 addr s;
     s \<leftarrow> give_area i team s;
     let s = rsrc_set_name task name s;
     let s = rsrc_set_name team name s;
     let s = rsrc_enqueue (run_queue s) task s;
     let s = s\<lparr>live_tasks := s32 (live_tasks s + 1)\<rparr>;
     Some (Done (int (rid (rsrcs s task))), s)
   }"

text \<open>\<open>for(i=1023;i>0;i--) if(!ptab[i]) break;\<close> leaves \<open>i = 0\<close> when every entry is in use.\<close>

definition free_top :: "(nat \<Rightarrow> nat) \<Rightarrow> nat" where
  "free_top tab = (case find (\<lambda>i. tab i = 0) (rev [1..<1024]) of Some i \<Rightarrow> i | None \<Rightarrow> 0)"

definition new_thread :: "nat \<Rightarrow> nat \<Rightarrow> bool \<Rightarrow> kstate \<Rightarrow> (nat \<times> kstate) option" where
  "new_thread team ip kernelspace s =
     (let a = taspace (teams s team); i = free_top (ptab (aspaces s a)) in do {
        (stack, addr, s) \<leftarrow> area_create a 4096 (i * 4096) 0 0 s;
        if stack = 0 then None
        else do {
          (t, s) \<leftarrow> task_create team ip (i * 4096 + 4092) kernelspace s;
          let s = upd_task t (\<lambda>x. x\<lparr>ustack := i * 4096, stack_area := rsrc_find RSRC_AREA stack s\<rparr>) s;
          s \<leftarrow> rsrc_bind t RSRC_TASK team s;
          let s = upd_task t (\<lambda>x. x\<lparr>flags := tREADY\<rparr>) s;
          Some (t, if kernelspace then s
                   else (let s = rsrc_enqueue (run_queue s) t s
                         in s\<lparr>live_tasks := s32 (live_tasks s + 1)\<rparr>))
        }
      })"

definition brk :: "nat \<Rightarrow> kstate \<Rightarrow> (int \<times> kstate) option" where
  "brk addr s =
     (let team = rowner (rsrcs s (current s));
          ar = rsrc_find RSRC_AREA (heap_id (teams s team)) s
      in if ar \<noteq> 0
         then area_resize (taspace (teams s team)) (heap_id (teams s team))
                (u32 (0x1000 + (u32_sub addr (virt_addr (area_st s ar)) AND 0xFFFFF000))) s
         else Some (ERR_MEMORY, s))"

section \<open>The reaper\<close>

definition reaper_reap :: "kstate \<Rightarrow> kstate option" where
  "reaper_reap s =
     (let (task, s1) = rsrc_dequeue (reaper_queue s) s in
      if task = 0 then None
      else do { s2 \<leftarrow> task_destroy task s1; Some (set_kont (current s2) K_reaper_loop s2) })"

text \<open>\<open>sem_acquire(reaper_sem)\<close> at the head of the loop; its result is ignored.\<close>

definition reaper_turn :: "kstate \<Rightarrow> kstate option" where
  "reaper_turn s = do {
     (r, s1) \<leftarrow> sem_acquire (reaper_sem s) s;
     case r of
       Blocked \<Rightarrow> Some (set_kont (current s) K_reaper s1)
     | Done _ \<Rightarrow> reaper_reap s1
   }"

end
