(* ===== verification/Syscall.thy ===== *)
theory Syscall
  imports TaskTeam
begin

text \<open>
  The system call dispatcher of \<^verbatim>\<open>kernel/syscall.c\<close>, \<^verbatim>\<open>kernel/rights.c\<close>, the boot
  sequence of \<^verbatim>\<open>kernel/kernel.c\<close>, and the kernel as a transition system: a running task
  makes a call, continues one that had blocked, faults, or is interrupted.
\<close>

section \<open>Arguments in user memory\<close>

text \<open>\<open>rsrc_set_name\<close> looks at up to 32 characters of a name. The dispatcher of the model reads
  them before the call instead of during it.\<close>

primrec read_str :: "nat \<Rightarrow> nat \<Rightarrow> kstate \<Rightarrow> string option" where
  "read_str 0 a s = do { p \<leftarrow> translate s a; Some [] }"
| "read_str (Suc n) a s = do {
     p \<leftarrow> translate s a;
     if phys_mem s p = 0 then Some []
     else do { cs \<leftarrow> read_str n (a + 1) s; Some (char_of (phys_mem s p) # cs) }
   }"

definition with_name :: "nat \<Rightarrow> (string option \<Rightarrow> (result \<times> kstate) option) \<Rightarrow> kstate
    \<Rightarrow> (result \<times> kstate) option" where
  "with_name ptr f s =
     (if ptr = 0 then f None
      else (case read_str 31 ptr s of None \<Rightarrow> fault_in_call s | Some n \<Rightarrow> f (Some n)))"

definition word_le :: "nat list \<Rightarrow> nat" where
  "word_le bs = foldr (\<lambda>b v. b + 256 * v) bs 0"

text \<open>The \<open>void **addr\<close> argument: read before and written after a successful call.\<close>

definition with_addr :: "nat \<Rightarrow> (nat \<Rightarrow> (int \<times> nat \<times> kstate) option) \<Rightarrow> kstate
    \<Rightarrow> (result \<times> kstate) option" where
  "with_addr ptr f s =
     (case copy_in 4 ptr s of
        None \<Rightarrow> fault_in_call s
      | Some bs \<Rightarrow> do {
          (r, addr, s1) \<leftarrow> f (word_le bs);
          (let (ok, s2) = copy_out (le32 addr) ptr s1
           in if ok then Some (Done r, s2) else fault_in_call s2)
        })"

section \<open>The dispatcher\<close>

definition right_create :: "nat \<Rightarrow> nat \<Rightarrow> kstate \<Rightarrow> int \<times> kstate" where
  "right_create rsrc_id flgs s = (ERR_NONE, s)"

definition right_destroy :: "nat \<Rightarrow> kstate \<Rightarrow> int \<times> kstate" where
  "right_destroy right_id s = (ERR_NONE, s)"

definition right_revoke :: "nat \<Rightarrow> nat \<Rightarrow> kstate \<Rightarrow> int \<times> kstate" where
  "right_revoke right_id thread_id s = (ERR_NONE, s)"

definition right_grant :: "nat \<Rightarrow> nat \<Rightarrow> kstate \<Rightarrow> int \<times> kstate" where
  "right_grant right_id thread_id s = (ERR_NONE, s)"

definition metacall :: "nat \<Rightarrow> int" where
  "metacall request = (if request = 0 then 0 else -1)"

definition ret :: "(int \<times> kstate) option \<Rightarrow> (result \<times> kstate) option" where
  "ret r = do { (v, s) \<leftarrow> r; Some (Done v, s) }"

definition yield :: "kstate \<Rightarrow> (result \<times> kstate) option" where
  "yield s = do { s1 \<leftarrow> swtch (set_kont (current s) K_user s); Some (Blocked, s1) }"

definition os_handle_irq :: "nat \<Rightarrow> kstate \<Rightarrow> kstate" where
  "os_handle_irq n s =
     (if n > 0 \<and> n < 16
      then (upd_task (current s) (\<lambda>x. x\<lparr>irq := n\<rparr>) s)\<lparr>irq_task_map := (irq_task_map s)(n := current s)\<rparr>
      else s)"

definition os_sleep_irq :: "kstate \<Rightarrow> (result \<times> kstate) option" where
  "os_sleep_irq s =
     yield (if irq (tasks s (current s)) \<noteq> 0
            then upd_task (current s) (\<lambda>x. x\<lparr>flags := tSLEEP_IRQ\<rparr>) s else s)"

definition inherit_name :: "string \<Rightarrow> string" where
  "inherit_name n = (let m = take 31 n in if length m < 30 then m @ ''+'' else m)"

definition thr_create :: "nat \<Rightarrow> nat \<Rightarrow> string option \<Rightarrow> kstate \<Rightarrow> (result \<times> kstate) option" where
  "thr_create ip arg name s = do {
     (t, s) \<leftarrow> new_thread (rowner (rsrcs s (current s))) ip False s;
     (let (ok, s) = copy_out (le32 arg) (ustack (tasks s t) + 0xfec) s in
      if \<not> ok then fault_in_call s
      else
        (let s = (case name of
                    None \<Rightarrow> upd_rsrc t (\<lambda>x. x\<lparr>rname := inherit_name (rname (rsrcs s (current s)))\<rparr>) s
                  | Some n \<Rightarrow> rsrc_set_name t name s)
         in Some (Done (int (rid (rsrcs s t))), s)))
   }"

definition os_call :: "nat \<Rightarrow> (nat \<Rightarrow> nat) \<Rightarrow> kstate \<Rightarrow> (result \<times> kstate) option" where
  "os_call eax p s =
     (if eax = 0 then Some (Done (metacall (p 0)), s)
      else if eax = 1 then do { s1 \<leftarrow> terminate s; Some (Blocked, s1) }
      else if eax = 2 then Some (Done (int eax), s)
      else if eax = 3 then ret (brk (p 1) s)
      else if eax = 4 then Some (Done (int eax), os_handle_irq (p 1) s)
      else if eax = 5 then os_sleep_irq s
      else if eax = 6 then Some (Done (int eax), s)
      else sleep (s32 (int (p 1))) s)"

definition ipc_call :: "nat \<Rightarrow> (nat \<Rightarrow> nat) \<Rightarrow> kstate \<Rightarrow> (result \<times> kstate) option" where
  "ipc_call eax p s =
     (let i = (\<lambda>n. s32 (int (p n))) in
      if eax = 8 then with_name (p 2) (\<lambda>nm. sem_create (i 1) nm s) s
      else if eax = 9 then sem_destroy (i 1) s
      else if eax = 10 then sem_acquire (i 1) s
      else if eax = 11 then sem_release (i 1) s
      else if eax = 12 then with_name (p 2) (\<lambda>nm. port_create (i 1) nm s) s
      else if eax = 13 then port_destroy (i 1) s
      else if eax = 14 then port_option (p 1) (p 2) (p 3) s
      else if eax = 15 then port_send (i 1) (i 2) (p 3) (p 4) (p 5) s
      else if eax = 16 then port_recv (i 1) (p 2) (p 3) (p 4) (p 5) s
      else ret (do { v \<leftarrow> rsrc_identify (p 1) s; Some (v, s) }))"

definition area_call :: "nat \<Rightarrow> (nat \<Rightarrow> nat) \<Rightarrow> kstate \<Rightarrow> (result \<times> kstate) option" where
  "area_call eax p s =
     (let a = taspace (teams s (rowner (rsrcs s (current s)))); i = (\<lambda>n. s32 (int (p n))) in
      if eax = 30 then with_addr (p 3) (\<lambda>addr. area_create a (p 1) (p 2) addr (p 4) s) s
      else if eax = 31 then with_addr (p 3) (\<lambda>addr. area_clone a (i 1) (p 2) addr s) s
      else if eax = 32 then ret (area_destroy a (i 1) s)
      else ret (area_resize a (i 1) (p 2) s))"

text \<open>Calls that do not set \<open>res\<close> leave \<open>eax\<close> as it was. Numbers 21 and 23 and those above 33
  have no case.\<close>

definition syscall :: "nat \<Rightarrow> (nat \<Rightarrow> nat) \<Rightarrow> kstate \<Rightarrow> (result \<times> kstate) option" where
  "syscall eax p s =
     (let i = (\<lambda>n. s32 (int (p n))) in
      if eax < 8 then os_call eax p s
      else if eax < 18 then ipc_call eax p s
      else if eax = 18 then ret (Some (right_create (p 1) (p 1) s))
      else if eax = 19 then ret (Some (right_destroy (p 1) s))
      else if eax = 20 then ret (Some (right_revoke (p 1) (p 2) s))
      else if eax = 22 then ret (Some (right_grant (p 1) (p 2) s))
      else if eax = 24 then with_name (p 3) (\<lambda>nm. thr_create (p 1) (p 2) nm s) s
      else if eax = 25
      then with_name (p 7) (\<lambda>nm. thr_spawn (p 1) (p 2) (i 3) (p 4) (i 5) (p 6) nm s) s
      else if eax = 26 \<or> eax = 27 \<or> eax = 28 then Some (Done (int eax), s)
      else if eax = 29 then thr_wait (i 1) s
      else if 30 \<le> eax \<and> eax \<le> 33 then area_call eax p s
      else Some (Done (-1), s))"

section \<open>Boot\<close>

record boot_entry =
  be_name :: string
  be_offset :: nat
  be_type :: nat
  be_size :: nat

abbreviation (input) BE_TYPE_NONE :: nat where "BE_TYPE_NONE \<equiv> 0"
abbreviation (input) BE_TYPE_CODE :: nat where "BE_TYPE_CODE \<equiv> 3"

text \<open>The segment descriptors, the task state segment and the interrupt table are set up in
  machine registers and pages the rest of the kernel does not read.\<close>

definition init_kspace :: "nat \<Rightarrow> nat \<Rightarrow> kstate \<Rightarrow> kstate option" where
  "init_kspace memsize membottom s = do {
     m \<leftarrow> memory_init membottom (memsize - 3) (km s);
     (toppage, m) \<leftarrow> kgetpages 3 m;
     (gdt, m) \<leftarrow> kgetpages 1 m;
     (tab, m) \<leftarrow> kgetpages 6 m;
     let s = rsrc_init (4096 * 6) (s\<lparr>km := m, memtotal := memsize\<rparr>);
     (k, s) \<leftarrow> kmalloc sizeof_task s;
     (tss, m) \<leftarrow> kgetpages 1 (km s);
     let s = upd_task k (\<lambda>x. x\<lparr>flags := tKERNEL\<rparr>) (s\<lparr>km := m\<rparr>);
     let s = upd_rsrc k (\<lambda>x. x\<lparr>rid := 0, rowner := 0, rights := [], rqueue := []\<rparr>) s;
     let s = s\<lparr>kernel_task := k, current := k\<rparr>;
     (idt, m) \<leftarrow> kgetpages 1 (km s);
     Some (s\<lparr>km := m, irq_task_map := (\<lambda>n. if n < 16 then 0 else irq_task_map s n)\<rparr>)
   }"

text \<open>One executable of the boot directory becomes a team with one thread, its text mapped in
  place and a heap behind it. The team named \<open>namer\<close> gets the uberport.\<close>

definition start_team :: "nat \<Rightarrow> boot_entry \<Rightarrow> kstate \<Rightarrow> kstate option" where
  "start_team uberport e s = do {
     (team, s) \<leftarrow> team_create s;
     (t, s) \<leftarrow> new_thread team 0x1074 False s;
     let s = s\<lparr>current := t\<rparr>;
     let a = taspace (teams s team);
     (tx, addr, s) \<leftarrow> area_create a (be_size e * 0x1000) 0x1000
                        (be_offset e * 0x1000 + 0x100000) AREA_PHYSMAP s;
     let s = upd_team team (\<lambda>x. x\<lparr>text_area := tx\<rparr>) s;
     (hp, addr, s) \<leftarrow> area_create a 0x2000 (0x1000 + be_size e * 0x1000) 0 0 s;
     let s = upd_team team (\<lambda>x. x\<lparr>heap_id := hp\<rparr>) s;
     s \<leftarrow> (if be_name e = ''namer'' then rsrc_set_owner uberport team s else Some s);
     let s = rsrc_set_name t (Some (be_name e)) s;
     Some (rsrc_set_name team (Some (be_name e)) s)
   }"

primrec start_teams :: "nat \<Rightarrow> boot_entry list \<Rightarrow> kstate \<Rightarrow> kstate option" where
  "start_teams uberport [] s = Some s"
| "start_teams uberport (e # es) s =
     (if be_type e = BE_TYPE_NONE then Some s
      else if be_type e \<noteq> BE_TYPE_CODE then start_teams uberport es s
      else do { s1 \<leftarrow> start_team uberport e s; start_teams uberport es s1 })"

definition done_val :: "result \<Rightarrow> int" where
  "done_val r = (case r of Done v \<Rightarrow> v | Blocked \<Rightarrow> 0)"

text \<open>The kernel threads; \<open>ips\<close> holds the addresses of \<open>idler\<close>, \<open>reaper\<close> and \<open>pager\<close>.\<close>

definition start_threads :: "nat \<times> nat \<times> nat \<Rightarrow> kstate \<Rightarrow> kstate option" where
  "start_threads ips s =
     (let (idler, reaper, pager) = ips in do {
        (t, s) \<leftarrow> new_thread (kernel_team s) idler True s;
        let s = rsrc_set_name t (Some ''idler'') (s\<lparr>idle_task := t\<rparr>);
        (t, s) \<leftarrow> new_thread (kernel_team s) reaper True s;
        let s = rsrc_set_name t (Some ''grim reaper'') (s\<lparr>current := t\<rparr>);
        (r, s) \<leftarrow> sem_create 0 (Some ''death toll'') s;
        let s = rsrc_enqueue (run_queue s) t (s\<lparr>reaper_sem := done_val r\<rparr>);
        let s = set_kont t K_reaper_loop (s\<lparr>live_tasks := s32 (live_tasks s + 1)\<rparr>);
        (t, s) \<leftarrow> new_thread (kernel_team s) pager True s;
        let s = rsrc_set_name t (Some ''pager'') (s\<lparr>current := t, pager_task := t\<rparr>);
        (r, s) \<leftarrow> port_create 0 (Some ''pager port'') s;
        let s = s\<lparr>pager_port_no := done_val r\<rparr>;
        (r, s) \<leftarrow> sem_create 0 (Some ''pager sem'') s;
        let s = rsrc_enqueue (run_queue s) t (s\<lparr>pager_sem_no := done_val r\<rparr>);
        Some (s\<lparr>live_tasks := s32 (live_tasks s + 1)\<rparr>)
      })"

definition go_kernel :: "boot_entry list \<Rightarrow> nat \<times> nat \<times> nat \<Rightarrow> kstate \<Rightarrow> kstate option" where
  "go_kernel bdir ips s =
     (let len = (1 + sum_list (map be_size (takeWhile (\<lambda>e. be_type e \<noteq> BE_TYPE_NONE) bdir))) * 0x1000
      in do {
        (r, s) \<leftarrow> port_create 0 (Some ''uberport'') s;
        let uberport = rsrc_find RSRC_PORT (done_val r) s;
        (r, s) \<leftarrow> area_create_uber len 0x100000 s;
        let uberarea = rsrc_find RSRC_AREA r s;
        (kt, s) \<leftarrow> team_create s;
        let s = rsrc_set_name kt (Some ''kernel team'') (s\<lparr>kernel_team := kt\<rparr>);
        (q, s) \<leftarrow> queue_create (Some ''run queue'') kt s;
        let s = s\<lparr>run_queue := rsrc_find RSRC_QUEUE q s\<rparr>;
        (q, s) \<leftarrow> queue_create (Some ''reaper queue'') kt s;
        let s = s\<lparr>reaper_queue := rsrc_find RSRC_QUEUE q s\<rparr>;
        (q, s) \<leftarrow> queue_create (Some ''timer queue'') kt s;
        let s = s\<lparr>timer_queue := rsrc_find RSRC_QUEUE q s\<rparr>;
        s \<leftarrow> rsrc_set_owner uberarea kt s;
        s \<leftarrow> rsrc_set_owner uberport kt s;
        s \<leftarrow> start_teams uberport (drop 3 bdir) s;
        s \<leftarrow> start_threads ips s;
        let s = rsrc_set_name (kernel_task s) (Some ''kernel'') s;
        let s = upd_task (kernel_task s) (\<lambda>x. x\<lparr>flags := tDEAD, waiting_on := 0\<rparr>)
                  (s\<lparr>current := kernel_task s\<rparr>);
        swtch s
      })"

section \<open>The kernel as a transition system\<close>

definition resume :: "kcont \<Rightarrow> kstate \<Rightarrow> (result \<times> kstate) option" where
  "resume k s =
     (case k of
        K_sem_acquire \<Rightarrow> sem_acquire_resume s
      | K_port_send p src dst msg sz code \<Rightarrow> port_send_resume p src dst msg sz code s
      | K_port_recv p srcp msg sz codep \<Rightarrow> port_recv_resume p srcp msg sz codep s
      | K_thr_wait \<Rightarrow> Some (Done ERR_NONE, s)
      | K_return v \<Rightarrow> Some (Done v, s)
      | K_user \<Rightarrow> Some (Done 0, s)
      | K_reaper \<Rightarrow> do { s1 \<leftarrow> reaper_reap s; Some (Blocked, s1) }
      | K_reaper_loop \<Rightarrow> do { s1 \<leftarrow> reaper_turn s; Some (Blocked, s1) }
      | K_terminated \<Rightarrow> None)"

definition clear_kont :: "kstate \<Rightarrow> kstate" where
  "clear_kont s = s\<lparr>kont := (kont s)(current s := None)\<rparr>"

text \<open>Interrupts are off inside the kernel: a task is interrupted in user mode, the idle task
  at any time.\<close>

definition interruptible :: "kstate \<Rightarrow> bool" where
  "interruptible s \<longleftrightarrow> current s = idle_task s \<or> kont s (current s) = None"

inductive kstep :: "kstate \<Rightarrow> kstate \<Rightarrow> bool" where
  call: "kont s (current s) = None \<Longrightarrow> current s \<noteq> idle_task s \<Longrightarrow>
    syscall eax p s = Some (r, s') \<Longrightarrow> kstep s s'"
| continue: "kont s (current s) = Some k \<Longrightarrow> resume k (clear_kont s) = Some (r, s') \<Longrightarrow> kstep s s'"
| exception: "kont s (current s) = None \<Longrightarrow> current s \<noteq> idle_task s \<Longrightarrow>
    fault n s = Some s' \<Longrightarrow> kstep s s'"
| timer: "interruptible s \<Longrightarrow> timer_irq u s = Some s' \<Longrightarrow> kstep s s'"
| interrupt: "interruptible s \<Longrightarrow> irq_dispatch n s = Some s' \<Longrightarrow> kstep s s'"

end
