(* ===== verification/SemInv.thy ===== *)
theory SemInv
  imports Sem
begin

text \<open>
  Correctness of the counting semaphores: \<open>sem_ok\<close> relates the count of a semaphore to its
  wait queue; \<open>sem_acquire\<close> and \<open>sem_release\<close> keep it on every branch and keep the
  scheduler's invariant \<open>sched_ok\<close>.
\<close>

section \<open>The count and the queue\<close>

text \<open>A semaphore's count is the number of acquisitions that will not wait or, when negative, the
  number of tasks that wait.\<close>

definition sem_ok :: "nat \<Rightarrow> kstate \<Rightarrow> bool" where
  "sem_ok p s \<longleftrightarrow> int (length (rqueue (rsrcs s p))) = max 0 (- sem_count (sems s p))"

section \<open>Properties\<close>

text \<open>
  C16. \<open>sem_acquire\<close> keeps the relation between count and queue. With a positive count the
  caller takes a unit and goes on; otherwise it is blocked at the end of the queue, another
  task runs, and it will go on in \<open>sem_acquire\<close>. No other semaphore changes. An id that names
  no semaphore gives \<open>ERR_RESOURCE\<close> and changes nothing.
\<close>

theorem sem_acquire_correct:
  assumes ok: "sched_ok s" and ni: "current s \<noteq> idle_task s" and live: "live_tasks s \<noteq> 0"
    and idle: "flags (tasks s (idle_task s)) \<noteq> tDEAD"
    and p: "p = rsrc_find RSRC_SEM i s" and sem: "p \<noteq> 0 \<Longrightarrow> sem_ok p s"
    and range: "-2147483648 < sem_count (sems s p)" "sem_count (sems s p) < 2147483648"
  shows "\<exists>r s'. sem_acquire i s = Some (r, s') \<and>
    (if p = 0 then r = Done ERR_RESOURCE \<and> s' = s
     else sem_count (sems s' p) = sem_count (sems s p) - 1 \<and> sem_ok p s' \<and> sched_ok s' \<and>
       (\<forall>p'. p' \<noteq> p \<longrightarrow> sems s' p' = sems s p') \<and>
       (if 0 < sem_count (sems s p)
        then r = Done ERR_NONE \<and> current s' = current s \<and> rqueue (rsrcs s' p) = rqueue (rsrcs s p)
        else r = Blocked \<and> rqueue (rsrcs s' p) = rqueue (rsrcs s p) @ [current s] \<and>
          kont s' (current s) = Some K_sem_acquire))"
proof (cases "p = 0")
  case True
  then show ?thesis using p by (simp add: sem_acquire_def)
next
  case False
  let ?c = "sem_count (sems s p)"
  let ?s1 = "upd_sem p (\<lambda>x. x\<lparr>sem_count := s32 (sem_count x - 1)\<rparr>) s"
  have ok1: "sched_ok ?s1" using ok same_sched_ok [OF same_sched_upd(1)] by blast
  have c1: "sem_count (sems ?s1 p) = ?c - 1" and o1: "\<And>p'. p' \<noteq> p \<Longrightarrow> sems ?s1 p' = sems s p'"
    and f1: "current ?s1 = current s" "idle_task ?s1 = idle_task s" "run_queue ?s1 = run_queue s"
      "rsrcs ?s1 = rsrcs s" "live_tasks ?s1 = live_tasks s" "tasks ?s1 = tasks s"
    using range by (auto simp: upd_defs)
  have l: "int (length (rqueue (rsrcs s p))) = max 0 (- ?c)" using sem False by (simp add: sem_ok_def)
  have eq: "sem_acquire i s = (if 0 < ?c then Some (Done ERR_NONE, ?s1) else wait_on K_sem_acquire p ?s1)"
    using p False by (simp add: sem_acquire_def Let_def)
  show ?thesis
  proof (cases "0 < ?c")
    case True
    have "sem_ok p ?s1" using l True unfolding sem_ok_def c1 f1 by simp
    then show ?thesis using eq True False ok1 c1 o1 f1 by auto
  next
    case neg: False
    have "p \<notin> set (sys_queues s)"
      using find_not_sys [of s RSRC_SEM i] ok p False by (simp add: sched_ok_def)
    then have pr: "p \<noteq> run_queue ?s1" using f1(3) sys_queues_mem(1) [of s] by metis
    obtain r s' where w: "wait_on K_sem_acquire p ?s1 = Some (r, s')"
      using wait_on_total [OF ok1, of K_sem_acquire p] ni live idle f1 by auto
    have e: "r = Blocked" "sched_ok s'" "rqueue (rsrcs s' p) = rqueue (rsrcs s p) @ [current s]"
      "kont s' (current s) = Some K_sem_acquire" "sems s' = sems ?s1"
      using wait_on_effect [OF ok1 _ pr w] ni f1 by auto
    have "sem_ok p s'" unfolding sem_ok_def e(3,5) c1 using l neg by simp
    then show ?thesis using eq neg False w e c1 o1 by auto
  qed
qed

text \<open>A semaphore at address 64 with id 1 in the scheduler state of the witnesses.\<close>

definition sample_sem :: "int \<Rightarrow> nat list \<Rightarrow> kstate" where
  "sample_sem c q = (sample_sched [])\<lparr>rmax := 4, rmap_resource := (\<lambda>_. null_resource)(1 := 64),
     rsrcs := (rsrcs (sample_sched []))(64 := \<lparr>rid = 1, rtype = RSRC_SEM, rowner = 0, rights = [],
       rqueue = q, rname = []\<rparr>),
     tasks := (tasks (sample_sched []))(11 := sample_task tWAITING 64 0),
     sems := (\<lambda>_. \<lparr>sem_count = c\<rparr>)\<rparr>"

lemma sample_sem_queues: "rqueue (rsrcs (sample_sem c q) r) =
    (if r = 64 then q else if r = 48 then [8, 9] else [])"
  by (simp add: sample_sem_def sample_queues)

lemma sample_sem_fields: "current (sample_sem c q) = 7" "idle_task (sample_sem c q) = 6"
  "sys_queues (sample_sem c q) = [48, 50, 52]" "run_queue (sample_sem c q) = 48"
  "irq_task_map (sample_sem c q) n = 0" "live_tasks (sample_sem c q) = 4"
  "r \<in> {48, 50, 52} \<Longrightarrow> rtype (rsrcs (sample_sem c q) r) = RSRC_QUEUE"
  "rsrc_find RSRC_SEM 1 (sample_sem c q) = 64" "sem_count (sems (sample_sem c q) p) = c"
  "flags (tasks (sample_sem c q) t) = (if t = 7 then tRUNNING else if t \<in> {8, 9, 10, 11} then tWAITING else 0)"
  "waiting_on (tasks (sample_sem c q) 8) = 48" "waiting_on (tasks (sample_sem c q) 9) = 48"
  "waiting_on (tasks (sample_sem c q) 11) = 64"
  by (auto simp: sample_sem_def sample_sched_def sample_queue_def sample_task_def kstate_boot_def
      rsrc_find_def u32_of_int_def sys_queues_def)

lemma sample_sem_ok:
  assumes "q = [] \<or> q = [11]"
  shows "sched_ok (sample_sem c q)"
proof -
  have "queues_ok (sample_sem c q)"
    using assms unfolding queues_ok_def sample_sem_queues sample_sem_fields by (auto simp: sample_sem_fields)
  then show ?thesis
    using assms by (auto simp: sched_ok_def sched_inv_def unqueued_def sample_sem_queues sample_sem_fields)
qed

theorem sem_acquire_correct_witness:
  "\<exists>s'. sched_ok (sample_sem 0 []) \<and> sem_acquire 1 (sample_sem 0 []) = Some (Blocked, s') \<and>
    rqueue (rsrcs s' 64) = [7] \<and> sem_count (sems s' 64) = -1"
proof -
  have "sem_ok 64 (sample_sem 0 [])"
    by (simp add: sem_ok_def sample_sem_queues sample_sem_fields)
  with sem_acquire_correct [of "sample_sem 0 []" 64 1] sample_sem_ok [of "[]" 0] show ?thesis
    by (auto simp: sample_sem_fields sample_sem_queues)
qed

text \<open>
  C17. \<open>sem_release\<close> keeps the relation between count and queue. If tasks wait, the one that has
  waited longest leaves the queue and runs at once with status 0, and the caller is ready at
  the end of the run queue to return \<open>ERR_NONE\<close> later; otherwise the caller goes on. No other
  semaphore changes. An id that names no semaphore gives \<open>ERR_RESOURCE\<close> and changes nothing.
\<close>

theorem sem_release_correct:
  assumes ok: "sched_ok s" and p: "p = rsrc_find RSRC_SEM i s" and sem: "p \<noteq> 0 \<Longrightarrow> sem_ok p s"
    and range: "-2147483648 \<le> sem_count (sems s p)" "sem_count (sems s p) < 2147483647"
    and ptr: "tDEAD \<notin> set (rqueue (rsrcs s p))"
  shows "\<exists>r s'. sem_release i s = Some (r, s') \<and>
    (if p = 0 then r = Done ERR_RESOURCE \<and> s' = s
     else sem_count (sems s' p) = sem_count (sems s p) + 1 \<and> sem_ok p s' \<and> sched_ok s' \<and>
       (\<forall>p'. p' \<noteq> p \<longrightarrow> sems s' p' = sems s p') \<and>
       (case rqueue (rsrcs s p) of
          [] \<Rightarrow> r = Done ERR_NONE \<and> current s' = current s
        | t # ts \<Rightarrow> r = Blocked \<and> current s' = t \<and> status (tasks s' t) = 0 \<and> rqueue (rsrcs s' p) = ts \<and>
            kont s' (current s) = Some (K_return ERR_NONE) \<and>
            (current s \<noteq> idle_task s \<longrightarrow>
               rqueue (rsrcs s' (run_queue s)) = rqueue (rsrcs s (run_queue s)) @ [current s])))"
proof (cases "p = 0")
  case True
  then show ?thesis using p by (simp add: sem_release_def)
next
  case False
  let ?c = "sem_count (sems s p)"
  let ?s1 = "upd_sem p (\<lambda>x. x\<lparr>sem_count := s32 (sem_count x + 1)\<rparr>) s"
  let ?s2 = "snd (rsrc_dequeue p ?s1)"
  let ?s3 = "set_kont (current s) (K_return ERR_NONE) ?s2"
  have ok1: "sched_ok ?s1" using ok same_sched_ok [OF same_sched_upd(1)] by blast
  have c1: "sem_count (sems ?s1 p) = ?c + 1" and o1: "\<And>p'. p' \<noteq> p \<Longrightarrow> sems ?s1 p' = sems s p'"
    and f1: "current ?s1 = current s" "idle_task ?s1 = idle_task s" "run_queue ?s1 = run_queue s"
      "rsrcs ?s1 = rsrcs s" "sys_queues ?s1 = sys_queues s"
    using range by (auto simp: upd_defs sys_queues_def)
  have l: "int (length (rqueue (rsrcs s p))) = max 0 (- ?c)" using sem False by (simp add: sem_ok_def)
  have eq: "sem_release i s = (if fst (rsrc_dequeue p ?s1) \<noteq> 0
      then do { s3 \<leftarrow> preempt (fst (rsrc_dequeue p ?s1)) ERR_NONE ?s3; Some (Blocked, s3) }
      else Some (Done ERR_NONE, ?s2))"
    using False by (simp add: sem_release_def Let_def split_beta f1 flip: p)
  have "p \<notin> set (sys_queues s)"
    using find_not_sys [of s RSRC_SEM i] ok p False by (simp add: sched_ok_def)
  then have pr: "p \<noteq> run_queue s" using sys_queues_mem(1) [of s] by metis
  show ?thesis
  proof (cases "rqueue (rsrcs s p)")
    case Nil
    then have d: "rsrc_dequeue p ?s1 = (0, ?s1)" using dequeue_Nil [of ?s1 p] f1 by simp
    have "sem_ok p ?s1" using l Nil unfolding sem_ok_def c1 f1 by simp
    then show ?thesis using eq d Nil False ok1 c1 o1 f1 by auto
  next
    case (Cons t ts)
    then have q1: "rqueue (rsrcs ?s1 p) = t # ts" by (simp add: f1)
    note d = dequeue_sched_ok [OF ok1 q1]
    have nz: "t \<noteq> 0" using d by simp
    note dc = dequeue_Cons' [OF q1 nz]
    have f3: "current ?s3 = current s" "idle_task ?s3 = idle_task s" "run_queue ?s3 = run_queue s"
      "sems ?s3 = sems ?s1" "sys_queues ?s3 = sys_queues s" "rsrcs ?s3 = rsrcs ?s2"
      "kont ?s3 (current s) = Some (K_return ERR_NONE)"
      by (simp_all add: set_kont_def f1) (simp add: sys_queues_def upd_defs)
    have "t \<noteq> 3" using ptr Cons by auto
    then obtain s' where pe: "preempt t ERR_NONE ?s3 = Some s'" by (simp add: preempt_def Let_def)
    have ok3: "sched_ok ?s3" "unqueued t ?s3"
      using d same_sched_ok [OF same_sched_upd(3)] same_sched_unqueued [OF same_sched_upd(3)] by blast+
    have "sched_ok s'"
      using preempt_ok [OF ok3 nz _ _ pe] d f1 f3 by auto
    moreover have e: "current s' = t" "status (tasks s' t) = 0" "sems s' = sems ?s1"
      "kont s' (current s) = Some (K_return ERR_NONE)" "rqueue (rsrcs s' p) = ts"
      "current s \<noteq> idle_task s \<longrightarrow>
         rqueue (rsrcs s' (run_queue s)) = rqueue (rsrcs s (run_queue s)) @ [current s]"
      using preempt_effect [OF pe] f3 dc(2) pr f1 by auto
    moreover have "sem_ok p s'" unfolding sem_ok_def e(3,5) c1 using l Cons by simp
    ultimately show ?thesis using eq dc(1) nz pe Cons False c1 o1 by auto
  qed
qed

theorem sem_release_correct_witness:
  "\<exists>s'. sched_ok (sample_sem (-1) [11]) \<and> sem_release 1 (sample_sem (-1) [11]) = Some (Blocked, s') \<and>
    current s' = 11 \<and> rqueue (rsrcs s' 64) = [] \<and> rqueue (rsrcs s' 48) = [8, 9, 7]"
proof -
  have "sem_ok 64 (sample_sem (-1) [11])"
    by (simp add: sem_ok_def sample_sem_queues sample_sem_fields)
  with sem_release_correct [of "sample_sem (-1) [11]" 64 1] sample_sem_ok [of "[11]" "-1"] show ?thesis
    by (auto simp: sample_sem_fields sample_sem_queues)
qed

end
