(* ===== verification/PortInv.thy ===== *)
theory PortInv
  imports Port
begin

text \<open>
  Correctness of the message ports: lemmas on the access to the caller's memory, the
  invariant \<open>port_ok\<close> of a port's message queue, the effect of delivering and of taking a
  message, and the properties of \<open>port_send\<close>, \<open>port_recv\<close> and \<open>port_destroy\<close>.
\<close>

section \<open>Copying\<close>

lemma copy_in_length: "copy_in n a s = Some bs \<Longrightarrow> length bs = n"
  by (induction n arbitrary: a bs) (auto split: bind_splits)

text \<open>Below the kernel's half of the address space a translation depends on the page table of the
  current team only.\<close>

lemma translate_low:
  assumes "a < 0x80000000" and "current s' = current s" and "tteam (tasks s' (current s)) = tteam (tasks s (current s))"
    and "teams s' = teams s" and "aspaces s' = aspaces s"
  shows "translate s' a = translate s a"
  using assms by (simp add: translate_def Let_def)

lemma copy_in_low:
  assumes "a + n \<le> 0x80000000" and "current s' = current s" and "tteam (tasks s' (current s)) = tteam (tasks s (current s))"
    and "teams s' = teams s" and "aspaces s' = aspaces s" and "phys_mem s' = phys_mem s"
  shows "copy_in n a s' = copy_in n a s"
  using assms(1)
proof (induction n arbitrary: a)
  case (Suc n)
  then show ?case using translate_low [of a s' s] assms by simp
qed simp

lemma translate_phys_mem [simp]: "translate (s\<lparr>phys_mem := pm\<rparr>) = translate s"
  by (simp add: translate_def fun_eq_iff)

lemma copy_out_state: "\<exists>pm. snd (copy_out bs a s) = s\<lparr>phys_mem := pm\<rparr>"
proof (induction bs arbitrary: a s)
  case Nil
  have "s = s\<lparr>phys_mem := phys_mem s\<rparr>" by simp
  then show ?case by (metis copy_out.simps(1) snd_conv)
next
  case (Cons b bs)
  show ?case
  proof (cases "translate s a")
    case None
    have "s = s\<lparr>phys_mem := phys_mem s\<rparr>" by simp
    with None show ?thesis by (metis copy_out.simps(2) option.simps(4) snd_conv)
  next
    case (Some p)
    obtain pm where "snd (copy_out bs (a + 1) (s\<lparr>phys_mem := (phys_mem s)(p := b)\<rparr>)) =
        s\<lparr>phys_mem := (phys_mem s)(p := b), phys_mem := pm\<rparr>" using Cons by blast
    with Some show ?thesis by auto
  qed
qed

text \<open>No two of the \<open>n\<close> addresses from \<open>a\<close> share a byte of physical memory.\<close>

definition unshared :: "kstate \<Rightarrow> nat \<Rightarrow> nat \<Rightarrow> bool" where
  "unshared s a n \<longleftrightarrow> inj_on (translate s) {a..<a + n} \<and> (\<forall>x \<in> {a..<a + n}. translate s x \<noteq> None)"

lemma unshared_tl: "unshared s a (Suc n) \<Longrightarrow> unshared s (a + 1) n"
  by (auto simp: unshared_def inj_on_def)

lemma copy_in_skip:
  "\<forall>x \<in> {a..<a + n}. translate s x \<noteq> Some p \<Longrightarrow>
   copy_in n a (s\<lparr>phys_mem := (phys_mem s)(p := b)\<rparr>) = copy_in n a s"
  by (induction n arbitrary: a) (auto split: bind_split)

lemma copy_out_other:
  "\<forall>x \<in> {a..<a + length bs}. translate s x \<noteq> Some p \<Longrightarrow>
   phys_mem (snd (copy_out bs a s)) p = phys_mem s p"
proof (induction bs arbitrary: a s)
  case (Cons b bs)
  then show ?case
    using Cons.IH [of "a + 1" "s\<lparr>phys_mem := (phys_mem s)(q := b)\<rparr>" for q]
    by (cases "translate s a") auto
qed simp

text \<open>What was written can be read back.\<close>

lemma copy_out_in:
  "unshared s a (length bs) \<Longrightarrow>
   fst (copy_out bs a s) \<and> copy_in (length bs) a (snd (copy_out bs a s)) = Some bs"
proof (induction bs arbitrary: a s)
  case (Cons b bs)
  then obtain p where p: "translate s a = Some p" by (fastforce simp: unshared_def)
  let ?s = "s\<lparr>phys_mem := (phys_mem s)(p := b)\<rparr>"
  have u: "unshared ?s (a + 1) (length bs)"
    using Cons.prems unshared_tl [of s a "length bs"] by (simp add: unshared_def)
  have ne: "\<forall>x \<in> {a + 1..<a + 1 + length bs}. translate ?s x \<noteq> Some p"
  proof
    fix x assume x: "x \<in> {a + 1..<a + 1 + length bs}"
    have "inj_on (translate s) {a..<a + length (b # bs)}"
      using Cons.prems by (simp only: unshared_def)
    then have "translate s x \<noteq> translate s a" using x inj_onD [of "translate s" _ x a] by force
    then show "translate ?s x \<noteq> Some p" using p by simp
  qed
  obtain pm where pm: "snd (copy_out bs (a + 1) ?s) = ?s\<lparr>phys_mem := pm\<rparr>" using copy_out_state by blast
  have "translate (snd (copy_out bs (a + 1) ?s)) a = Some p" unfolding pm using p by simp
  moreover have "phys_mem (snd (copy_out bs (a + 1) ?s)) p = b"
    using copy_out_other [OF ne] by simp
  ultimately show ?case using Cons.IH [OF u] p by simp
qed simp

section \<open>The message queue\<close>

text \<open>The count is the length of the chain, at most 16, and every message has its stated size, at
  most a page.\<close>

definition port_ok :: "nat \<Rightarrow> kstate \<Rightarrow> bool" where
  "port_ok p s \<longleftrightarrow> msgcount (ports s p) = int (length (msgs (ports s p))) \<and>
     length (msgs (ports s p)) \<le> 16 \<and>
     (\<forall>m \<in> set (msgs (ports s p)). length (mbytes m) = msize m \<and> msize m \<le> 4096)"

lemma wake_one_eq: "wake_one r s = dequeue_wake r ERR_NONE s"
  by (simp add: wake_one_def dequeue_wake_def)

lemma dequeue_wake_Nil: "rqueue (rsrcs s r) = [] \<Longrightarrow> dequeue_wake r st s = s"
  by (simp add: dequeue_wake_def dequeue_Nil)

lemma dequeue_wake_Cons:
  assumes q: "rqueue (rsrcs s r) = t # ts" and nz: "t \<noteq> 0" and r: "r \<noteq> run_queue s"
  shows "rqueue (rsrcs (dequeue_wake r st s) r) = ts"
    "rqueue (rsrcs (dequeue_wake r st s) (run_queue s)) = rqueue (rsrcs s (run_queue s)) @ [t]"
    "status (tasks (dequeue_wake r st s) t) = st"
proof -
  have "dequeue_wake r st s = task_wake t st (snd (rsrc_dequeue r s))"
    using dequeue_Cons'(1) [OF q nz] nz by (simp add: dequeue_wake_def split_beta)
  then show "rqueue (rsrcs (dequeue_wake r st s) r) = ts"
    "rqueue (rsrcs (dequeue_wake r st s) (run_queue s)) = rqueue (rsrcs s (run_queue s)) @ [t]"
    "status (tasks (dequeue_wake r st s) t) = st"
    using r dequeue_Cons'(2) [OF q nz] by (simp_all add: task_wake_eq woken_def)
qed

lemma dequeue_wake_frame:
  "ports (dequeue_wake r st s) = ports s" "sems (dequeue_wake r st s) = sems s"
  "kont (dequeue_wake r st s) = kont s" "same_ids s (dequeue_wake r st s)"
  "current (dequeue_wake r st s) = current s" "idle_task (dequeue_wake r st s) = idle_task s"
  "run_queue (dequeue_wake r st s) = run_queue s" "phys_mem (dequeue_wake r st s) = phys_mem s"
  by (auto simp: dequeue_wake_def task_wake_eq rsrc_dequeue_def queue_detach_head_def upd_defs
      same_ids_def split: list.split)

lemma dequeue_wake_sched: "sched_ok s \<Longrightarrow> sched_ok (dequeue_wake r st s)"
  using dequeue_wake_ok [of s r _ _ st] by (simp add: dequeue_wake_def split: prod.split)

text \<open>Allocating a message changes nothing but the allocator and the pool of message pages.\<close>

lemma kmalloc_state: "kmalloc n s = Some (p, s') \<Longrightarrow> \<exists>m. s' = s\<lparr>km := m\<rparr>"
  by (auto simp: kmalloc_def split: bind_splits)

lemma kfree_state: "kfree n p s = Some s' \<Longrightarrow> \<exists>m. s' = s\<lparr>km := m\<rparr>"
  by (auto simp: kfree_def split: bind_splits)

lemma msg_buffer_state:
  assumes "msg_buffer sz s = Some (d, s')"
  shows "\<exists>m mp. s' = s\<lparr>km := m, msg_pool := mp\<rparr>"
proof -
  show ?thesis
  proof (cases "sz < 256")
    case True
    show ?thesis
    proof (cases "sz = 0")
      case True
      then have "s' = s" using assms by (simp add: msg_buffer_def)
      then show ?thesis by (intro exI [of _ "km s"] exI [of _ "msg_pool s"]) simp
    next
      case False
      then have "kmalloc sz s = Some (d, s')" using assms True by (simp add: msg_buffer_def)
      from kmalloc_state [OF this] obtain m where "s' = s\<lparr>km := m\<rparr>" by blast
      then show ?thesis by (intro exI [of _ m] exI [of _ "msg_pool s"]) simp
    qed
  next
    case False
    show ?thesis
    proof (cases "msg_pool s")
      case Nil
      then obtain m where "s' = s\<lparr>km := m\<rparr>"
        using assms False by (auto simp: msg_buffer_def split: bind_splits)
      then show ?thesis by (intro exI [of _ m] exI [of _ "msg_pool s"]) simp
    next
      case (Cons x xs)
      then have "s' = s\<lparr>msg_pool := xs\<rparr>" using assms False by (simp add: msg_buffer_def)
      then show ?thesis by (intro exI [of _ "km s"] exI [of _ xs]) simp
    qed
  qed
qed

lemma msg_alloc_state:
  assumes "kmalloc n s = Some (p, s1)" and "msg_buffer sz s1 = Some (d, s2)"
  shows "\<exists>m mp. s2 = s\<lparr>km := m, msg_pool := mp\<rparr>"
proof -
  from kmalloc_state [OF assms(1)] obtain m where m: "s1 = s\<lparr>km := m\<rparr>" by blast
  from msg_buffer_state [OF assms(2)] obtain m' mp where "s2 = s1\<lparr>km := m', msg_pool := mp\<rparr>" by blast
  then show ?thesis unfolding m by auto
qed

lemma same_sched_alloc: "same_sched s (s\<lparr>km := m, msg_pool := mp\<rparr>)"
  by (simp add: same_sched_def sys_queues_def)

lemma port_deliver_effect:
  assumes ok: "sched_ok s" and p: "p \<notin> set (sys_queues s)" and pok: "port_ok p s"
    and room: "length (msgs (ports s p)) < 16" and sl: "slaved (ports s p) = 0"
    and a: "msg \<le> 0x400000" and sz: "sz \<le> 4096" and c: "copy_in sz msg s = Some bytes"
    and r: "port_send_deliver p src dst msg sz code s = Some (res, s')"
  shows "res = Done (int sz) \<and> sched_ok s' \<and> port_ok p s' \<and>
    (\<exists>m. msgs (ports s' p) = msgs (ports s p) @ [m] \<and> mbytes m = bytes \<and> msize m = sz \<and>
       from_port m = src \<and> to_port m = dst \<and> mcode m = code) \<and>
    (\<forall>q. q \<noteq> p \<longrightarrow> ports s' q = ports s q) \<and>
    (case rqueue (rsrcs s p) of
       [] \<Rightarrow> \<forall>x. rqueue (rsrcs s' x) = rqueue (rsrcs s x)
     | t # ts \<Rightarrow> rqueue (rsrcs s' p) = ts \<and> status (tasks s' t) = ERR_NONE \<and>
         rqueue (rsrcs s' (run_queue s)) = rqueue (rsrcs s (run_queue s)) @ [t])"
proof -
  from r a sz obtain m s1 d s2 where al: "kmalloc sizeof_message s = Some (m, s1)"
    "msg_buffer sz s1 = Some (d, s2)"
    by (auto simp: port_send_deliver_def split: bind_splits if_splits)
  from msg_alloc_state [OF al] obtain k mp where s2: "s2 = s\<lparr>km := k, msg_pool := mp\<rparr>" by blast
  have c2: "copy_in sz msg s2 = Some bytes"
    using c copy_in_low [of msg sz s2 s] a sz by (simp add: s2)
  let ?m = "\<lparr>maddr = m, msize = sz, mcode = code, from_port = src, to_port = dst, mdata = d, mbytes = bytes\<rparr>"
  let ?s3 = "port_append p ?m s2"
  have s': "res = Done (int sz)" "s' = port_wake p ?s3"
    using r a sz al c2 by (simp_all add: port_send_deliver_def Let_def)
  have f3: "rsrcs ?s3 = rsrcs s" "run_queue ?s3 = run_queue s" "slaved (ports ?s3 p) = 0"
    by (simp_all add: port_append_def upd_defs s2 sl)
  have e: "s' = dequeue_wake p ERR_NONE ?s3"
    using s'(2) f3(3) by (simp add: port_wake_def wake_one_eq)
  have m3: "msgs (ports ?s3 p) = msgs (ports s p) @ [?m]" "\<forall>q. q \<noteq> p \<longrightarrow> ports ?s3 q = ports s q"
    "port_ok p ?s3"
    using pok room copy_in_length [OF c] sz
    by (auto simp: port_append_def upd_defs s2 port_ok_def)
  have "same_sched s ?s3"
    by (simp add: port_append_def s2 same_sched_def upd_defs sys_queues_def)
  then have ok3: "sched_ok ?s3" using ok same_sched_ok by blast
  have pr: "p \<noteq> run_queue ?s3" using p f3(2) sys_queues_mem(1) [of s] by metis
  have ports': "ports s' = ports ?s3" by (simp add: e dequeue_wake_frame)
  have "port_ok p s'" using m3(3) by (simp add: port_ok_def ports')
  moreover have "case rqueue (rsrcs s p) of
       [] \<Rightarrow> \<forall>x. rqueue (rsrcs s' x) = rqueue (rsrcs s x)
     | t # ts \<Rightarrow> rqueue (rsrcs s' p) = ts \<and> status (tasks s' t) = ERR_NONE \<and>
         rqueue (rsrcs s' (run_queue s)) = rqueue (rsrcs s (run_queue s)) @ [t]"
  proof (cases "rqueue (rsrcs s p)")
    case Nil
    then show ?thesis using dequeue_wake_Nil [of ?s3 p] by (simp add: e f3)
  next
    case (Cons t ts)
    then have q: "rqueue (rsrcs ?s3 p) = t # ts" by (simp add: f3)
    have "t \<noteq> 0" using dequeue_sched_ok [OF ok3 q] by simp
    from dequeue_wake_Cons [OF q this pr] show ?thesis by (simp add: Cons e f3)
  qed
  moreover have "sched_ok s'" unfolding e by (rule dequeue_wake_sched [OF ok3])
  moreover have "msgs (ports s' p) = msgs (ports s p) @ [?m]" "\<forall>q. q \<noteq> p \<longrightarrow> ports s' q = ports s q"
    using m3 unfolding ports' by blast+
  ultimately show ?thesis
    using s'(1) by (intro conjI exI [of _ ?m]) simp_all
qed

section \<open>Receiving\<close>

lemma dequeue_wake_memory:
  "tteam (tasks (dequeue_wake r st s) t) = tteam (tasks s t)" "teams (dequeue_wake r st s) = teams s"
  "aspaces (dequeue_wake r st s) = aspaces s" "km (dequeue_wake r st s) = km s"
  "msg_pool (dequeue_wake r st s) = msg_pool s"
  by (auto simp: dequeue_wake_def task_wake_eq rsrc_dequeue_def queue_detach_head_def upd_defs woken_def
      split: list.split)

lemma kfree_total:
  assumes "n < 256"
  shows "\<exists>m. kfree n p s = Some (s\<lparr>km := m\<rparr>)"
proof -
  obtain m where "kfreeB n p (km s) = Some m"
    using assms size_map_less [of n] by (simp add: kfreeB_def kfreeP_def Let_def)
  then show ?thesis by (auto simp: kfree_def)
qed

lemma msg_release_total:
  assumes "msize m \<le> 4096"
  shows "\<exists>mp k. msg_release m s = Some (s\<lparr>msg_pool := mp, km := k\<rparr>)"
proof -
  have f: "\<exists>k. kfree sizeof_message (maddr m) s1 = Some (s1\<lparr>km := k\<rparr>)" for s1
    using kfree_total [of sizeof_message "maddr m" s1] by simp
  consider "msize m = 0" | "0 < msize m" "msize m < 256" | "256 \<le> msize m" by linarith
  then show ?thesis
  proof cases
    case 1
    obtain k where "kfree sizeof_message (maddr m) s = Some (s\<lparr>km := k\<rparr>)" using f by blast
    with 1 show ?thesis
      by (intro exI [of _ "msg_pool s"] exI [of _ k]) (simp add: msg_release_def)
  next
    case 2
    obtain k1 where k1: "kfree (msize m) (mdata m) s = Some (s\<lparr>km := k1\<rparr>)"
      using kfree_total [OF 2(2)] by blast
    obtain k where "kfree sizeof_message (maddr m) (s\<lparr>km := k1\<rparr>) = Some (s\<lparr>km := k1, km := k\<rparr>)"
      using f by blast
    with 2 k1 show ?thesis
      by (intro exI [of _ "msg_pool s"] exI [of _ k]) (simp add: msg_release_def)
  next
    case 3
    obtain k where "kfree sizeof_message (maddr m) (s\<lparr>msg_pool := mdata m # msg_pool s\<rparr>) =
        Some (s\<lparr>msg_pool := mdata m # msg_pool s, km := k\<rparr>)" using f by blast
    with 3 show ?thesis
      by (intro exI [of _ "mdata m # msg_pool s"] exI [of _ k]) (simp add: msg_release_def)
  qed
qed

lemma port_take_effect:
  assumes ok: "sched_ok s" and q: "msgs (ports s p) = m # ms" and pok: "port_ok p s"
    and sq: "sendqueue (ports s p) \<noteq> run_queue s"
  shows "\<exists>s'. port_recv_take p m sz s = Some (Done (int (min sz (msize m))), s') \<and> sched_ok s' \<and>
    port_ok p s' \<and> msgs (ports s' p) = ms \<and> (\<forall>x. x \<noteq> p \<longrightarrow> ports s' x = ports s x) \<and>
    phys_mem s' = phys_mem s \<and> current s' = current s \<and> teams s' = teams s \<and> aspaces s' = aspaces s \<and>
    (\<forall>t. tteam (tasks s' t) = tteam (tasks s t)) \<and>
    (\<forall>t ts. rqueue (rsrcs s (sendqueue (ports s p))) = t # ts \<longrightarrow>
       rqueue (rsrcs s' (sendqueue (ports s p))) = ts \<and> status (tasks s' t) = ERR_NONE \<and>
       rqueue (rsrcs s' (run_queue s)) = rqueue (rsrcs s (run_queue s)) @ [t])"
proof -
  let ?s1 = "upd_port p (\<lambda>x. x\<lparr>msgs := tl (msgs x)\<rparr>) s" and ?q = "sendqueue (ports s p)"
  let ?s2 = "if rqueue (rsrcs ?s1 ?q) \<noteq> [] then dequeue_wake ?q ERR_NONE ?s1 else ?s1"
  let ?s3 = "upd_port p (\<lambda>x. x\<lparr>msgcount := s32 (msgcount x - 1)\<rparr>) ?s2"
  have le: "msgcount (ports s p) \<le> 16" "msize m \<le> 4096" using pok q by (auto simp: port_ok_def)
  have s1: "sendqueue (ports ?s1 p) = ?q" "msgcount (ports ?s1 p) = msgcount (ports s p)"
    "rsrcs ?s1 = rsrcs s" "run_queue ?s1 = run_queue s" by (simp_all add: upd_defs)
  obtain k mp where rel: "msg_release m ?s3 = Some (?s3\<lparr>msg_pool := mp, km := k\<rparr>)"
    using msg_release_total [OF le(2)] by blast
  let ?s4 = "?s3\<lparr>msg_pool := mp, km := k\<rparr>"
  have run: "port_recv_take p m sz s = Some (Done (int (min sz (msize m))), ?s4)"
    using rel le(1) unfolding port_recv_take_def Let_def s1 wake_one_eq by (simp add: min_def)
  have ok1: "sched_ok ?s1" using ok same_sched_ok [OF same_sched_upd(2)] by blast
  then have ok2: "sched_ok ?s2" using dequeue_wake_sched by auto
  have "same_sched ?s2 ?s4" by (simp add: same_sched_def upd_defs sys_queues_def)
  then have ok4: "sched_ok ?s4" using ok2 same_sched_ok by blast
  have ports4: "ports ?s4 = (ports s)(p := (ports s p)\<lparr>msgs := ms, msgcount := s32 (msgcount (ports s p) - 1)\<rparr>)"
    using q by (simp add: upd_defs dequeue_wake_frame)
  have "msgcount (ports s p) = int (Suc (length ms))" "length ms < 16"
    using pok q by (auto simp: port_ok_def)
  then have "port_ok p ?s4"
    using pok q unfolding port_ok_def ports4 by simp
  moreover have "\<forall>t ts. rqueue (rsrcs s ?q) = t # ts \<longrightarrow> rqueue (rsrcs ?s4 ?q) = ts \<and>
      status (tasks ?s4 t) = ERR_NONE \<and>
      rqueue (rsrcs ?s4 (run_queue s)) = rqueue (rsrcs s (run_queue s)) @ [t]"
  proof (intro allI impI)
    fix t ts assume "rqueue (rsrcs s ?q) = t # ts"
    then have q1: "rqueue (rsrcs ?s1 ?q) = t # ts" by (simp add: s1)
    then have nz: "t \<noteq> 0" using dequeue_sched_ok [OF ok1] by blast
    have "rsrcs ?s4 = rsrcs ?s2" "tasks ?s4 = tasks ?s2" by (simp_all add: upd_defs)
    then show "rqueue (rsrcs ?s4 ?q) = ts \<and> status (tasks ?s4 t) = ERR_NONE \<and>
      rqueue (rsrcs ?s4 (run_queue s)) = rqueue (rsrcs s (run_queue s)) @ [t]"
      using dequeue_wake_Cons [OF q1 nz, of ERR_NONE] q1 sq s1 by simp
  qed
  moreover have "phys_mem ?s4 = phys_mem s" "current ?s4 = current s" "teams ?s4 = teams s"
    "aspaces ?s4 = aspaces s" "\<forall>t. tteam (tasks ?s4 t) = tteam (tasks s t)"
    by (simp_all add: upd_defs dequeue_wake_frame dequeue_wake_memory)
  ultimately show ?thesis
    using run ok4 ports4 by (intro exI [of _ ?s4] conjI) simp_all
qed

section \<open>Frames of the release operations\<close>

lemma wake_all_ports:
  assumes "wake_all r s = Some s'"
  shows "ports s' = ports s"
  using assms
proof (rule wake_all.raw_induct [where P = "\<lambda>r s s'. ports s' = ports s", rotated])
  fix wa r s s'
  assume IH: "\<And>r s s'. wa r s = Some s' \<Longrightarrow> ports s' = ports s"
    and "(let (t, s1) = queue_detach_head r s in if t = 0 then Some s1 else wa r (task_wake t ERR_RESOURCE s1)) = Some s'"
  moreover have "ports (snd (queue_detach_head r s)) = ports s"
    by (simp add: queue_detach_head_def upd_defs split: list.split)
  ultimately show "ports s' = ports s"
    by (auto simp: split_beta task_wake_def upd_defs dest!: IH split: if_splits)
qed

lemma rsrc_release_ports:
  assumes "rsrc_release r s = Some s'"
  shows "ports s' = ports s"
proof -
  have *: "Option.bind (wake_all r s1) (\<lambda>s2. Some (give_id i (upd_rsrc r f s2))) = Some s' \<Longrightarrow> ports s' = ports s1"
    for s1 i f by (auto simp: give_id_def upd_defs dest!: wake_all_ports split: bind_splits)
  show ?thesis
    using assms unfolding rsrc_release_def Let_def
    by (auto simp: upd_defs dest!: * [unfolded upd_defs] split: bind_split_asm if_splits)
qed

lemma kfree_ports: "kfree n p s = Some s' \<Longrightarrow> ports s' = ports s"
  by (auto simp: kfree_def split: bind_splits)

lemma port_destroy_ports:
  assumes "port_destroy i s = Some (r, s')"
  shows "ports s' = ports s"
proof (cases "s' = s")
  case False
  obtain p s1 s2 s3 where "rsrc_release p s = Some s1" "rsrc_release (sendqueue (ports s1 p)) s1 = Some s2"
      "kfree sizeof_resource (sendqueue (ports s2 p)) s2 = Some s3" "kfree sizeof_port p s3 = Some s'"
    using assms False by (auto simp: port_destroy_def Let_def split: bind_splits if_splits)
  then show ?thesis by (simp add: rsrc_release_ports kfree_ports)
qed simp

section \<open>Properties\<close>


text \<open>The port of the witnesses: id 1 at address 64, its send queue at 66, and a team whose pages
  all map frame 5.\<close>

definition sample_port :: "message_t list \<Rightarrow> nat list \<Rightarrow> int \<Rightarrow> kstate" where
  "sample_port ms q nw = (sample_sched [])\<lparr>rmax := 4, rmap_resource := (\<lambda>_. null_resource)(1 := 64),
     rsrcs := (rsrcs (sample_sched []))(64 := \<lparr>rid = 1, rtype = RSRC_PORT, rowner = 0, rights = [],
       rqueue = q, rname = []\<rparr>),
     tasks := (tasks (sample_sched []))(11 := sample_task tWAITING 64 0),
     aspaces := (\<lambda>_. \<lparr>areas = [], pdir_page = 0, ptab_page = 0, pdir = \<lambda>_. 0, ptab = \<lambda>_. 0x5001, pdirphys = 0\<rparr>),
     phys_mem := (\<lambda>_. 65),
     ports := (\<lambda>_. \<lparr>msgcount = int (length ms), slaved = 0, msgs = ms, port_refcount = 1, nowait = nw,
       restrict_to = 0, sendqueue = 66\<rparr>)\<rparr>"

lemma sample_port_queues: "rqueue (rsrcs (sample_port ms q nw) r) =
    (if r = 64 then q else if r = 48 then [8, 9] else [])"
  by (simp add: sample_port_def sample_queues)

lemma sample_port_fields: "current (sample_port ms q nw) = 7" "idle_task (sample_port ms q nw) = 6"
  "sys_queues (sample_port ms q nw) = [48, 50, 52]" "run_queue (sample_port ms q nw) = 48"
  "irq_task_map (sample_port ms q nw) n = 0" "live_tasks (sample_port ms q nw) = 4"
  "r \<in> {48, 50, 52} \<Longrightarrow> rtype (rsrcs (sample_port ms q nw) r) = RSRC_QUEUE"
  "rsrc_find RSRC_PORT 1 (sample_port ms q nw) = 64"
  "flags (tasks (sample_port ms q nw) t) = (if t = 7 then tRUNNING else if t \<in> {8, 9, 10, 11} then tWAITING else 0)"
  "waiting_on (tasks (sample_port ms q nw) 8) = 48" "waiting_on (tasks (sample_port ms q nw) 9) = 48"
  "waiting_on (tasks (sample_port ms q nw) 11) = 64" "km (sample_port ms q nw) = kmem_boot"
  "ports (sample_port ms q nw) p = \<lparr>msgcount = int (length ms), slaved = 0, msgs = ms, port_refcount = 1,
     nowait = nw, restrict_to = 0, sendqueue = 66\<rparr>"
  by (auto simp: sample_port_def sample_sched_def sample_queue_def sample_task_def kstate_boot_def
      rsrc_find_def u32_of_int_def sys_queues_def)

lemma sample_port_ok:
  assumes "q = [] \<or> q = [11]"
  shows "sched_ok (sample_port ms q nw)"
proof -
  have "queues_ok (sample_port ms q nw)"
    using assms unfolding queues_ok_def sample_port_queues sample_port_fields by (auto simp: sample_port_fields)
  then show ?thesis
    using assms by (auto simp: sched_ok_def sched_inv_def unqueued_def sample_port_queues sample_port_fields)
qed

lemma sample_port_translate: "a < 0x400000 \<Longrightarrow> translate (sample_port ms q nw) a = Some (0x5000 + a mod 0x1000)"
  by (simp add: translate_def sample_port_def)




text \<open>
  C20. On a full port a non-blocking send fails with \<open>ERR_WOULD_BLOCK\<close> and changes nothing; a
  blocking send always suspends the caller at the end of the port's send queue, no message
  is lost or added, another task runs, and the caller will test the port again.
\<close>

theorem port_send_full:
  assumes ok: "sched_ok s" and ni: "current s \<noteq> idle_task s" and live: "live_tasks s \<noteq> 0"
    and idle: "flags (tasks s (idle_task s)) \<noteq> tDEAD" and f: "rsrc_find RSRC_PORT src s \<noteq> 0"
    and p: "p = rsrc_find RSRC_PORT dst s" "p \<noteq> 0" and sl: "slaved (ports s p) = 0"
    and full: "length (msgs (ports s p)) = 16" and pok: "port_ok p s"
    and q: "q = sendqueue (ports s p)" "q \<noteq> run_queue s"
  shows "\<exists>r s'. port_send src dst msg sz code s = Some (r, s') \<and> ports s' = ports s \<and> sched_ok s' \<and>
    (if nowait (ports s p) \<noteq> 0 then r = Done ERR_WOULD_BLOCK \<and> s' = s
     else r = Blocked \<and> rqueue (rsrcs s' q) = rqueue (rsrcs s q) @ [current s] \<and>
       kont s' (current s) = Some (K_port_send p src dst msg sz code))"
proof -
  have eq: "port_send src dst msg sz code s = (if nowait (ports s p) \<noteq> 0 then Some (Done ERR_WOULD_BLOCK, s)
      else wait_on (K_port_send p src dst msg sz code) q s)"
    using f p(2) sl full pok
    by (simp add: port_send_def port_send_loop_def port_ok_def q(1) flip: p(1))
  show ?thesis
  proof (cases "nowait (ports s p) = 0")
    case True
    obtain r s' where w: "wait_on (K_port_send p src dst msg sz code) q s = Some (r, s')"
      using wait_on_total [OF ok ni live idle] by blast
    show ?thesis
      using wait_on_effect [OF ok ni q(2) w] w True eq by auto
  qed (use eq ok in auto)
qed

theorem port_send_full_witness:
  "\<exists>ms s'. length ms = 16 \<and> port_send 1 1 0 0 0 (sample_port ms [] 0) = Some (Blocked, s') \<and>
    rqueue (rsrcs s' 66) = [7]"
proof -
  let ?m = "\<lparr>maddr = 0, msize = 0, mcode = 0, from_port = 1, to_port = 1, mdata = 0, mbytes = []\<rparr>"
  let ?ms = "replicate 16 ?m"
  let ?s = "sample_port ?ms [] 0"
  have h: "sched_ok ?s" "current ?s \<noteq> idle_task ?s" "live_tasks ?s \<noteq> 0"
    "flags (tasks ?s (idle_task ?s)) \<noteq> tDEAD" "rsrc_find RSRC_PORT 1 ?s \<noteq> 0" "64 = rsrc_find RSRC_PORT 1 ?s"
    "slaved (ports ?s 64) = 0" "length (msgs (ports ?s 64)) = 16" "port_ok 64 ?s"
    "66 = sendqueue (ports ?s 64)" "66 \<noteq> run_queue ?s"
    using sample_port_ok [of "[]" ?ms 0] by (simp_all add: sample_port_fields port_ok_def)
  have d: "rqueue (rsrcs ?s 66) = []" "current ?s = 7" "nowait (ports ?s 64) = 0"
    by (simp_all add: sample_port_queues sample_port_fields)
  from port_send_full [OF h(1-6) _ h(7-11), of 0 0 0, unfolded d] obtain s' where
    "port_send 1 1 0 0 0 ?s = Some (Blocked, s')" "rqueue (rsrcs s' 66) = [7]" by auto
  then show ?thesis by (intro exI [of _ ?ms] exI [of _ s']) simp
qed

text \<open>
  C21. A port call that returns a negative result, an error, has changed nothing: no message
  is queued or taken, no memory is allocated or written, no task is woken.
\<close>

theorem port_errors_atomic:
  assumes "port_send src dst msg sz code s = Some (Done e, s') \<or>
      port_recv dst srcp msg sz codep s = Some (Done e, s')" and "e < 0"
  shows "s' = s"
proof -
  have w: "wait_on k r s \<noteq> Some (Done e, s')" for k r
    by (auto simp: wait_on_def Let_def split: bind_splits)
  have f: "fault_in_call x \<noteq> Some (Done e, s')" for x
    by (auto simp: fault_in_call_def split: bind_splits)
  have "port_send_deliver p src dst msg sz code s = Some (Done e, s') \<Longrightarrow> s' = s" for p
    using \<open>e < 0\<close> by (auto simp: port_send_deliver_def Let_def f split: bind_splits if_splits option.splits)
  then have "port_send_loop p src dst msg sz code s = Some (Done e, s') \<Longrightarrow> s' = s" for p
    by (auto simp: port_send_loop_def w split: if_splits)
  moreover have t: "port_recv_take p m sz x \<noteq> Some (Done e, s')" for p m x
    using \<open>e < 0\<close> by (auto simp: port_recv_take_def Let_def split: bind_splits if_splits)
  have "port_recv_loop p srcp msg sz codep s = Some (Done e, s') \<Longrightarrow> s' = s" for p
    by (auto simp: port_recv_loop_def Let_def w t f split: if_splits list.splits prod.splits)
  ultimately show ?thesis
    using assms(1) by (auto simp: port_send_def port_recv_def Let_def split: if_splits)
qed

theorem port_errors_atomic_witness:
  "\<exists>s'. port_send 1 2 0 0 0 (sample_port [] [] 0) = Some (Done ERR_RECVPORT, s') \<and> s' = sample_port [] [] 0"
proof -
  have "rsrc_find RSRC_PORT 2 (sample_port [] [] 0) = 0"
    by (simp add: rsrc_find_def sample_port_def u32_of_int_def null_resource_def sample_sched_def
        sample_queue_def kstate_boot_def)
  then have "port_send 1 2 0 0 0 (sample_port [] [] 0) = Some (Done ERR_RECVPORT, sample_port [] [] 0)"
    by (simp add: port_send_def sample_port_fields)
  with port_errors_atomic show ?thesis by fastforce
qed

text \<open>
  A port that has been the master of another can never be destroyed: making \<open>p\<close> a slave of
  the master raises the master's reference count, destroying \<open>p\<close> does not lower it again, and
  \<open>port_destroy\<close> then refuses the master with \<open>ERR_RESOURCE\<close>.
\<close>

theorem port_master_leaks:
  assumes "port_option slave PORT_OPT_SLAVE master s = Some (Done ERR_NONE, s1)" and "master \<noteq> 0"
    and p: "p = rsrc_find RSRC_PORT (int slave) s" and m: "m = rsrc_find RSRC_PORT (int master) s"
    and "slaved (ports s p) = 0" and "p \<noteq> m"
    and cnt: "1 \<le> port_refcount (ports s m)" "port_refcount (ports s m) < 2147483647"
    and d: "port_destroy (int slave) s1 = Some (Done ERR_NONE, s2)"
    and m2: "rsrc_find RSRC_PORT (int master) s2 = m"
  shows "port_refcount (ports s2 m) = port_refcount (ports s m) + 1 \<and>
    port_destroy (int master) s2 = Some (Done ERR_RESOURCE, s2)"
proof -
  have "slaved (ports (upd_port m f s) p) = 0" for f
    using assms(5) \<open>p \<noteq> m\<close> by (simp add: upd_defs)
  then have "port_refcount (ports s1 m) = port_refcount (ports s m) + 1"
    using assms(1,2) cnt \<open>p \<noteq> m\<close>
    by (auto simp: port_option_def port_option_slave_def Let_def upd_defs simp flip: p m split: if_splits)
  then have r: "port_refcount (ports s2 m) = port_refcount (ports s m) + 1"
    using port_destroy_ports [OF d] by simp
  then have "port_destroy (int master) s2 = Some (Done ERR_RESOURCE, s2)"
    using cnt by (simp add: port_destroy_def m2)
  with r show ?thesis ..
qed

definition sample_slave :: kstate where
  "sample_slave = (sample_port [] [] 0)\<lparr>rmap_resource := (\<lambda>_. null_resource)(1 := 64, 2 := 80),
     rsrcs := (rsrcs (sample_port [] [] 0))(80 := \<lparr>rid = 2, rtype = RSRC_PORT, rowner = 0, rights = [],
       rqueue = [], rname = []\<rparr>)\<rparr>"

lemma sample_slave_find:
  assumes "rmax s = 4" "rmap_resource s 2 = 80" "rid (rsrcs s 80) = 2" "rtype (rsrcs s 80) = RSRC_PORT"
  shows "rsrc_find RSRC_PORT 2 s = 80"
  using assms by (simp add: rsrc_find_def u32_of_int_def)

theorem port_master_leaks_witness:
  "\<exists>s1 s2. port_option 1 PORT_OPT_SLAVE 2 sample_slave = Some (Done ERR_NONE, s1) \<and>
    port_destroy 1 s1 = Some (Done ERR_NONE, s2) \<and> port_destroy 2 s2 = Some (Done ERR_RESOURCE, s2)"
proof -
  let ?s = sample_slave
  have f: "rsrc_find RSRC_PORT 1 ?s = 64" "rsrc_find RSRC_PORT 2 ?s = 80"
    "ports ?s x = \<lparr>msgcount = 0, slaved = 0, msgs = [], port_refcount = 1, nowait = 0, restrict_to = 0, sendqueue = 66\<rparr>"
    "rowner (rsrcs ?s 64) = 0" "rowner (rsrcs ?s 80) = 0" "rowner (rsrcs ?s (current ?s)) = 0" for x
    by (simp_all add: rsrc_find_def u32_of_int_def sample_slave_def sample_port_def sample_sched_def
        sample_queue_def kstate_boot_def)
  define s1 where "s1 = upd_port 64 (\<lambda>x. x\<lparr>slaved := 2\<rparr>) (upd_port 80 (\<lambda>x. x\<lparr>port_refcount := 2\<rparr>) ?s)"
  have o: "port_option 1 PORT_OPT_SLAVE 2 ?s = Some (Done ERR_NONE, s1)"
    by (simp add: port_option_def port_option_slave_def f s1_def) (simp add: upd_defs f)
  have e: "rsrcs s1 = rsrcs ?s" "rmap_resource s1 = rmap_resource ?s" "rmax s1 = 4" "resource_list s1 = []"
    "run_queue s1 = 48" "km s1 = kmem_boot" "sendqueue (ports s1 64) = 66" "port_refcount (ports s1 64) = 1"
    "rsrc_find RSRC_PORT 1 s1 = 64"
    by (simp_all add: s1_def upd_defs f) (simp_all add: sample_slave_def sample_port_def sample_sched_def
        kstate_boot_def rsrc_find_def u32_of_int_def)
  have q: "rqueue (rsrcs ?s 64) = []" "rqueue (rsrcs ?s 66) = []" "rid (rsrcs ?s 64) = 1" "rid (rsrcs ?s 66) = 0"
    "rid (rsrcs ?s 80) = 2" "rtype (rsrcs ?s 80) = RSRC_PORT" "rmap_resource ?s 2 = 80"
    by (simp_all add: sample_slave_def sample_port_def sample_sched_def sample_queue_def kstate_boot_def)
  obtain sa where a: "rsrc_release 64 s1 = Some sa" "rsrcs sa 66 = rsrcs ?s 66" "rsrcs sa 80 = rsrcs ?s 80"
    "rmap_resource sa 2 = 80" "ports sa = ports s1" "rmax sa = 4" "run_queue sa = 48"
    by (rule rsrc_releaseE [of 64 s1]) (simp_all add: e q give_id_def wake_list_def upd_defs)
  obtain sb where b: "rsrc_release 66 sa = Some sb" "rsrcs sb 80 = rsrcs ?s 80"
    "rmap_resource sb 2 = 80" "ports sb = ports s1" "rmax sb = 4"
    by (rule rsrc_releaseE [of 66 sa]) (simp_all add: a q give_id_def wake_list_def upd_defs)
  obtain m1 where k: "kfree sizeof_resource 66 sb = Some (sb\<lparr>km := m1\<rparr>)"
    using kfree_total [of sizeof_resource 66 sb] by auto
  obtain m2 where l: "kfree sizeof_port 64 (sb\<lparr>km := m1\<rparr>) = Some (sb\<lparr>km := m2\<rparr>)"
    using kfree_total [of sizeof_port 64 "sb\<lparr>km := m1\<rparr>"] by auto
  let ?t = "sb\<lparr>km := m2\<rparr>"
  have d: "port_destroy (int 1) s1 = Some (Done ERR_NONE, ?t)"
    using a b k l by (simp add: port_destroy_def e)
  have m: "rsrc_find RSRC_PORT (int 2) ?t = 80" using b q by (simp add: sample_slave_find)
  have "port_destroy (int 2) ?t = Some (Done ERR_RESOURCE, ?t)"
    using port_master_leaks [OF o _ _ _ _ _ _ _ d m, of 64] by (simp add: f)
  with o d show ?thesis by auto
qed

end
