(* ===== verification/CString.thy ===== *)
theory CString
  imports Prelude
begin

text \<open>
  The string and memory routines of the C library: \<^verbatim>\<open>lib/libc/string.c\<close>, \<open>strlcpy\<close>,
  \<open>strlcat\<close>, \<open>atoi\<close> and the assembly routines \<open>strlen\<close>, \<open>strcpy\<close> and \<open>strcmp\<close>. Memory is a map
  from addresses to bytes; a routine takes it and returns it updated. A loop that only a
  NUL byte ends is a partial function, whose value is \<open>None\<close> when there is none.
\<close>

type_synonym byte = "8 word"
type_synonym mem = "nat \<Rightarrow> byte"

section \<open>Definitions\<close>

primrec strncpy :: "nat \<Rightarrow> nat \<Rightarrow> nat \<Rightarrow> mem \<Rightarrow> mem" where
  "strncpy dst src 0 m = m"
| "strncpy dst src (Suc n) m =
     (if m src \<noteq> 0 then strncpy (dst + 1) (src + 1) n (m(dst := m src)) else m(dst := 0))"

primrec strncmp :: "nat \<Rightarrow> nat \<Rightarrow> nat \<Rightarrow> mem \<Rightarrow> int" where
  "strncmp s1 s2 0 m = 0"
| "strncmp s1 s2 (Suc n) m =
     (if m s1 \<noteq> 0 \<and> m s2 \<noteq> 0
      then if m s1 \<noteq> m s2 then -1 else strncmp (s1 + 1) (s2 + 1) n m
      else -1)"

partial_function (option) strchr :: "nat \<Rightarrow> int \<Rightarrow> mem \<Rightarrow> nat option" where
  "strchr s c m =
     (if m s \<noteq> 0 then if sint (m s) = c then Some s else strchr (s + 1) c m else Some 0)"

primrec memset :: "nat \<Rightarrow> int \<Rightarrow> nat \<Rightarrow> mem \<Rightarrow> mem" where
  "memset u c 0 m = m"
| "memset u c (Suc n) m = memset (u + 1) c n (m(u := word_of_int c))"

primrec memmove_up :: "nat \<Rightarrow> nat \<Rightarrow> nat \<Rightarrow> mem \<Rightarrow> mem" where
  "memmove_up d s 0 m = m"
| "memmove_up d s (Suc n) m = memmove_up (d + 1) (s + 1) n (m(d := m s))"

primrec memmove_down :: "nat \<Rightarrow> nat \<Rightarrow> nat \<Rightarrow> mem \<Rightarrow> mem" where
  "memmove_down d s 0 m = m"
| "memmove_down d s (Suc n) m = memmove_down (d - 1) (s - 1) n (m(d - 1 := m (s - 1)))"

definition memmove :: "nat \<Rightarrow> nat \<Rightarrow> nat \<Rightarrow> mem \<Rightarrow> mem" where
  "memmove dest src n m =
     (if dest < src then memmove_up dest src n m else memmove_down (dest + n) (src + n) n m)"

primrec memcmp :: "nat \<Rightarrow> nat \<Rightarrow> nat \<Rightarrow> mem \<Rightarrow> int" where
  "memcmp dst src 0 m = 0"
| "memcmp dst src (Suc n) m = (if m dst \<noteq> m src then 1 else memcmp (dst + 1) (src + 1) n m)"

primrec memcpy :: "nat \<Rightarrow> nat \<Rightarrow> nat \<Rightarrow> mem \<Rightarrow> mem" where
  "memcpy dst src 0 m = m"
| "memcpy dst src (Suc n) m = memcpy (dst + 1) (src + 1) n (m(dst := m src))"

text \<open>\<open>repne scasb\<close>: the counter \<open>ecx\<close> is decremented for every byte read, up to and including
  the first NUL.\<close>

primrec scasb :: "nat \<Rightarrow> nat \<Rightarrow> mem \<Rightarrow> nat" where
  "scasb 0 edi m = 0"
| "scasb (Suc ecx) edi m = (if m edi = 0 then ecx else scasb ecx (edi + 1) m)"

definition strlen :: "nat \<Rightarrow> mem \<Rightarrow> nat" where
  "strlen a m = (4294967295 - scasb 4294967295 a m) - 1"

text \<open>\<open>strcpy\<close> moves up to eight bytes in a turn of its unrolled loop, \<open>strcmp\<close> compares up to
  eight. The registers are \<open>ecx\<close> and \<open>edx\<close> in the first, \<open>eax\<close> and \<open>edx\<close> in the second.\<close>

definition movb :: "nat \<Rightarrow> nat \<Rightarrow> nat \<Rightarrow> mem \<Rightarrow> byte \<times> mem" where
  "movb k ecx edx m = (let al = m (edx + k) in (al, m(ecx + k := al)))"

partial_function (option) strcpy :: "nat \<Rightarrow> nat \<Rightarrow> mem \<Rightarrow> mem option" where
  "strcpy ecx edx m =
     (let (al, m) = movb 0 ecx edx m in if al = 0 then Some m else
      let (al, m) = movb 1 ecx edx m in if al = 0 then Some m else
      let (al, m) = movb 2 ecx edx m in if al = 0 then Some m else
      let (al, m) = movb 3 ecx edx m in if al = 0 then Some m else
      let (al, m) = movb 4 ecx edx m in if al = 0 then Some m else
      let (al, m) = movb 5 ecx edx m in if al = 0 then Some m else
      let (al, m) = movb 6 ecx edx m in if al = 0 then Some m else
      let (al, m) = movb 7 ecx edx m in
      if al \<noteq> 0 then strcpy (ecx + 8) (edx + 8) m else Some m)"

definition cmpb :: "nat \<Rightarrow> nat \<Rightarrow> nat \<Rightarrow> mem \<Rightarrow> bool" where
  "cmpb k eax edx m \<longleftrightarrow> m (eax + k) = 0 \<or> m (eax + k) \<noteq> m (edx + k)"

definition strcmp_exit :: "nat \<Rightarrow> nat \<Rightarrow> mem \<Rightarrow> int" where
  "strcmp_exit eax edx m = uint (m eax) - uint (m edx)"

partial_function (option) strcmp :: "nat \<Rightarrow> nat \<Rightarrow> mem \<Rightarrow> int option" where
  "strcmp eax edx m =
     (if cmpb 0 eax edx m then Some (strcmp_exit eax edx m)
      else if cmpb 1 eax edx m then Some (strcmp_exit (eax + 1) (edx + 1) m)
      else if cmpb 2 eax edx m then Some (strcmp_exit (eax + 2) (edx + 2) m)
      else if cmpb 3 eax edx m then Some (strcmp_exit (eax + 3) (edx + 3) m)
      else if cmpb 4 eax edx m then Some (strcmp_exit (eax + 4) (edx + 4) m)
      else if cmpb 5 eax edx m then Some (strcmp_exit (eax + 5) (edx + 5) m)
      else if cmpb 6 eax edx m then Some (strcmp_exit (eax + 6) (edx + 6) m)
      else if cmpb 7 eax edx m then Some (strcmp_exit (eax + 7) (edx + 7) m)
      else strcmp (eax + 8) (edx + 8) m)"

text \<open>\<open>strlcpy\<close>: the copying loop, entered with \<open>n\<close> not 0, and the loop that finds the end of
  the source.\<close>

primrec strlcpy_copy :: "nat \<Rightarrow> nat \<Rightarrow> nat \<Rightarrow> mem \<Rightarrow> nat \<times> nat \<times> nat \<times> mem" where
  "strlcpy_copy 0 d s m = (0, d, s, m)"
| "strlcpy_copy (Suc n) d s m =
     (if m s = 0 then (Suc n, d + 1, s + 1, m(d := 0))
      else strlcpy_copy n (d + 1) (s + 1) (m(d := m s)))"

partial_function (option) skip_string :: "nat \<Rightarrow> mem \<Rightarrow> nat option" where
  "skip_string s m = (if m s \<noteq> 0 then skip_string (s + 1) m else Some (s + 1))"

definition strlcpy :: "nat \<Rightarrow> nat \<Rightarrow> nat \<Rightarrow> mem \<Rightarrow> (nat \<times> mem) option" where
  "strlcpy dst src siz m =
     (let (n, d, s, m) = (if siz \<noteq> 0 \<and> siz - 1 \<noteq> 0 then strlcpy_copy (siz - 1) dst src m
                          else (0, dst, src, m))
      in if n = 0
         then let m = (if siz \<noteq> 0 then m(d := 0) else m) in do {
           s \<leftarrow> skip_string s m;
           Some (s - src - 1, m)
         }
         else Some (s - src - 1, m))"

partial_function (option) strlcat_end :: "nat \<Rightarrow> nat \<Rightarrow> mem \<Rightarrow> nat option" where
  "strlcat_end n d m = (if m d \<noteq> 0 \<and> n \<noteq> 0 then strlcat_end n (d + 1) m else Some d)"

partial_function (option) strlcat_copy :: "nat \<Rightarrow> nat \<Rightarrow> nat \<Rightarrow> mem \<Rightarrow> (nat \<times> nat \<times> mem) option" where
  "strlcat_copy n d s m =
     (if m s \<noteq> 0
      then if n \<noteq> 1 then strlcat_copy (u32_sub n 1) (d + 1) (s + 1) (m(d := m s))
           else strlcat_copy n d (s + 1) m
      else Some (d, s, m))"

definition strlcat :: "nat \<Rightarrow> nat \<Rightarrow> nat \<Rightarrow> mem \<Rightarrow> (nat \<times> mem) option" where
  "strlcat dst src siz m = do {
     d \<leftarrow> strlcat_end siz dst m;
     let dlen = d - dst;
     let n = u32_sub siz dlen;
     if n = 0 then Some (dlen + strlen src m, m)
     else do {
       (d, s, m) \<leftarrow> strlcat_copy n d src m;
       Some (dlen + (s - src), m(d := 0))
     }
   }"

text \<open>\<open>atoi\<close> runs from the last character to the first; \<open>x + 1\<close> is the number of characters
  left.\<close>

primrec atoi_loop :: "nat \<Rightarrow> int \<Rightarrow> int \<Rightarrow> nat \<Rightarrow> mem \<Rightarrow> int" where
  "atoi_loop 0 i pw a m = i"
| "atoi_loop (Suc x) i pw a m =
     (let i = (if x = 0 \<and> m (a + x) = 45 then s32 (i * -1)
               else s32 (i + s32 (pw * (sint (m (a + x)) - 48))))
      in atoi_loop x i (s32 (pw * 10)) a m)"

definition atoi :: "nat \<Rightarrow> mem \<Rightarrow> int" where
  "atoi a m = atoi_loop (strlen a m) 0 1 a m"

section \<open>The heap limit\<close>

text \<open>\<open>_sbrk\<close> and \<open>__libc_init_memory\<close> of \<^verbatim>\<open>lib/libc/memory.c\<close>: the current and the greatest end of
  the heap, and the values passed to \<open>os_brk\<close>.\<close>

record sbrk_state =
  sbrk_max :: nat
  sbrk_cur :: nat
  brk_calls :: "nat list"

definition sbrk :: "int \<Rightarrow> sbrk_state \<Rightarrow> nat \<times> sbrk_state" where
  "sbrk sz s =
     (if sz < 0
      then let cur = u32_of_int (int (sbrk_cur s) - sz) in (cur, s\<lparr>sbrk_cur := cur\<rparr>)
      else
        (let tmp = sbrk_cur s; cur = u32_of_int (int (sbrk_cur s) + sz)
         in (tmp, if cur > sbrk_max s
                  then s\<lparr>sbrk_cur := cur, sbrk_max := cur, brk_calls := brk_calls s @ [cur]\<rparr>
                  else s\<lparr>sbrk_cur := cur\<rparr>)))"

definition libc_init_memory :: "nat \<Rightarrow> nat \<Rightarrow> nat \<Rightarrow> mem \<Rightarrow> sbrk_state \<times> mem" where
  "libc_init_memory top_of_binary start_bss bss_length m =
     (let tob = u32 ((top_of_binary div 4096 + 2) * 4096)
      in (\<lparr>sbrk_max = tob, sbrk_cur = tob, brk_calls = [tob]\<rparr>, memset start_bss 0 bss_length m))"

end
