(* ===== verification/CStringInv.thy ===== *)
theory CStringInv
  imports CString
begin

text \<open>
  Correctness of the string and memory routines. \<open>is_str\<close> says that a NUL-terminated string
  stands at an address; the properties state what each routine does to memory for every
  string and address.
\<close>

section \<open>Strings in memory\<close>

text \<open>\<open>is_str xs a m\<close>: the NUL-terminated string \<open>xs\<close> stands at address \<open>a\<close>; \<open>put xs a m\<close> writes bytes.\<close>

primrec is_str :: "byte list \<Rightarrow> nat \<Rightarrow> mem \<Rightarrow> bool" where
  "is_str [] a m \<longleftrightarrow> m a = 0"
| "is_str (x # xs) a m \<longleftrightarrow> m a = x \<and> x \<noteq> 0 \<and> is_str xs (a + 1) m"

primrec put :: "byte list \<Rightarrow> nat \<Rightarrow> mem \<Rightarrow> mem" where
  "put [] a m = m"
| "put (x # xs) a m = put xs (a + 1) (m(a := x))"

lemma is_str_iff: "is_str xs a m \<longleftrightarrow> (\<forall>i < length xs. m (a + i) = xs ! i \<and> xs ! i \<noteq> 0) \<and> m (a + length xs) = 0"
  by (induction xs arbitrary: a) (auto simp: All_less_Suc2)

lemma is_str_cong:
  assumes "\<And>i. i \<le> length xs \<Longrightarrow> m' (a + i) = m (a + i)"
  shows "is_str xs a m' = is_str xs a m"
  using assms by (simp add: is_str_iff)

lemma put_apply: "put xs a m b = (if a \<le> b \<and> b < a + length xs then xs ! (b - a) else m b)"
proof (induction xs arbitrary: a m)
  case (Cons x xs)
  show ?case by (auto simp: Cons nth_Cons' le_Suc_eq)
qed auto

lemma put_append: "put (xs @ ys) a m = put ys (a + length xs) (put xs a m)"
  by (induction xs arbitrary: a m) (simp_all add: add.assoc)

lemma put_is_str: "0 \<notin> set xs \<Longrightarrow> is_str xs a (put (xs @ [0]) a m)"
  by (auto simp: is_str_iff put_apply nth_append in_set_conv_nth)

lemma is_str_nonzero: "is_str xs a m \<Longrightarrow> 0 \<notin> set xs"
  by (auto simp: is_str_iff in_set_conv_nth)

lemma is_str_take: "is_str xs a m \<Longrightarrow> 0 \<notin> set (take n xs)"
  using is_str_nonzero in_set_takeD by metis

section \<open>Length and search\<close>

lemma scasb_str: "is_str xs a m \<Longrightarrow> length xs < ecx \<Longrightarrow> scasb ecx a m = ecx - length xs - 1"
proof (induction xs arbitrary: a ecx)
  case Nil
  then show ?case by (cases ecx) auto
next
  case (Cons x xs)
  then show ?case by (cases ecx) auto
qed

lemma strlen_str: "is_str xs a m \<Longrightarrow> length xs < 4294967295 \<Longrightarrow> strlen a m = length xs"
  by (simp only: strlen_def scasb_str)

lemma skip_string_str: "is_str xs a m \<Longrightarrow> skip_string a m = Some (a + length xs + 1)"
  by (induction xs arbitrary: a) (simp_all add: skip_string.simps [of a for a])

lemma strchr_str:
  assumes "is_str xs a m"
  shows "strchr a c m = Some (if c \<in> sint ` set xs then a + length (takeWhile (\<lambda>x. sint x \<noteq> c) xs) else 0)"
  using assms by (induction xs arbitrary: a) (auto simp: strchr.simps [of a for a])

section \<open>Comparing and copying\<close>

lemma strncmp_cases: "strncmp s1 s2 n m = 0 \<or> strncmp s1 s2 n m = -1"
  by (induction n arbitrary: s1 s2) auto

lemma strncmp_0: "strncmp s1 s2 n m = 0 \<longleftrightarrow> (\<forall>i < n. m (s1 + i) = m (s2 + i) \<and> m (s1 + i) \<noteq> 0)"
  by (induction n arbitrary: s1 s2) (auto simp: All_less_Suc2)

lemma memcmp_0: "memcmp a b n m = 0 \<longleftrightarrow> (\<forall>i < n. m (a + i) = m (b + i))"
  by (induction n arbitrary: a b) (auto simp: All_less_Suc2)

lemma memset_apply: "memset u c n m a = (if u \<le> a \<and> a < u + n then word_of_int c else m a)"
  by (induction n arbitrary: u m) (auto simp: le_Suc_eq)

lemma memmove_up_apply:
  assumes "d \<le> s \<or> s + n \<le> d"
  shows "memmove_up d s n m a = (if d \<le> a \<and> a < d + n then m (s + (a - d)) else m a)"
  using assms
proof (induction n arbitrary: d s m)
  case (Suc n)
  have "Suc d \<le> a \<Longrightarrow> Suc (s + a - Suc d) = s + a - d" by simp
  then show ?case by (cases "a = d") (use Suc in \<open>auto simp: Suc.IH\<close>)
qed auto

lemma memmove_down_apply:
  assumes "s + n \<le> d + n"
  shows "memmove_down (d + n) (s + n) n m a = (if d \<le> a \<and> a < d + n then m (s + (a - d)) else m a)"
  using assms
proof (induction n arbitrary: m)
  case (Suc n)
  show ?case by (cases "a = d + n") (use Suc in auto)
qed auto

lemma memcpy_up: "memcpy = memmove_up"
proof -
  have "memcpy d s n m = memmove_up d s n m" for d s n m by (induction n arbitrary: d s m) simp_all
  then show ?thesis by (simp add: fun_eq_iff)
qed

lemma memmove_apply: "memmove d s n m a = (if d \<le> a \<and> a < d + n then m (s + (a - d)) else m a)"
  by (simp add: memmove_def memmove_up_apply memmove_down_apply)

section \<open>The unrolled loops\<close>

text \<open>The destination \<open>[c, c + n]\<close> and the source \<open>[d, d + n]\<close> have no byte in common.\<close>

definition apart :: "nat \<Rightarrow> nat \<Rightarrow> nat \<Rightarrow> bool" where
  "apart c d n \<longleftrightarrow> c + n < d \<or> d + n < c"

lemma is_str_put_apart:
  assumes "apart c d (length xs + k)" and "length ys \<le> length xs + k" and "is_str xs (d + k) m"
  shows "is_str xs (d + k) (put ys c m)"
proof -
  have "is_str xs (d + k) (put ys c m) = is_str xs (d + k) m"
    using assms(1,2) by (intro is_str_cong) (auto simp: put_apply apart_def)
  then show ?thesis using assms(3) by simp
qed

text \<open>A turn of the loop of \<open>strcpy\<close> moves the rest of a short string, or eight bytes.\<close>

lemma movb_0: "movb 0 c d m = (m d, put [m d] c m)"
  by (simp add: movb_def Let_def)

lemma movb_put:
  assumes "length ys = k" and "apart c d k"
  shows "movb k c d (put ys c m) = (m (d + k), put (ys @ [m (d + k)]) c m)"
  using assms by (auto simp: movb_def Let_def put_append put_apply apart_def)

lemma strcpy_turn:
  assumes nz: "\<And>i. i < k \<Longrightarrow> m (d + i) \<noteq> 0" and ap: "apart c d k"
  shows "k < 8 \<Longrightarrow> m (d + k) = 0 \<Longrightarrow> strcpy c d m = Some (put (map (\<lambda>i. m (d + i)) [0..<k] @ [0]) c m)"
    and "8 \<le> k \<Longrightarrow> strcpy c d m = strcpy (c + 8) (d + 8) (put (map (\<lambda>i. m (d + i)) [0..<8]) c m)"
proof -
  have nz0: "0 < k \<Longrightarrow> m d \<noteq> 0" "Suc 0 < k \<Longrightarrow> m (Suc d) \<noteq> 0"
    "2 < k \<Longrightarrow> m (Suc (Suc d)) \<noteq> 0" using nz [of 0] nz [of 1] nz [of 2] by simp_all
  have ap': "i \<le> k \<Longrightarrow> apart c d i" for i using ap by (auto simp: apart_def)
  have up: "[0..<2] = [0, 1::nat]" "[0..<3] = [0, 1, 2::nat]" "[0..<4] = [0, 1, 2, 3::nat]"
    "[0..<5] = [0, 1, 2, 3, 4::nat]" "[0..<6] = [0, 1, 2, 3, 4, 5::nat]"
    "[0..<7] = [0, 1, 2, 3, 4, 5, 6::nat]" "[0..<8] = [0, 1, 2, 3, 4, 5, 6, 7::nat]"
    by (simp_all add: upt_rec)
  show "strcpy c d m = strcpy (c + 8) (d + 8) (put (map (\<lambda>i. m (d + i)) [0..<8]) c m)" if "8 \<le> k"
    using that
    by (subst strcpy.simps) (simp add: movb_0 movb_put nz nz0 up ap' del: put.simps)
  assume k: "k < 8" "m (d + k) = 0"
  then have "k = 0 \<or> k = 1 \<or> k = 2 \<or> k = 3 \<or> k = 4 \<or> k = 5 \<or> k = 6 \<or> k = 7" by linarith
  then show "strcpy c d m = Some (put (map (\<lambda>i. m (d + i)) [0..<k] @ [0]) c m)"
    using k
    by (elim disjE; subst strcpy.simps;
        simp add: movb_0 movb_put nz nz0 up ap' del: put.simps)
qed

lemma strcpy_str:
  assumes "is_str xs d m" and "apart c d (length xs)"
  shows "strcpy c d m = Some (put (xs @ [0]) c m)"
  using assms
proof (induction "length xs" arbitrary: xs c d m rule: less_induct)
  case less
  have nz: "\<And>i. i < length xs \<Longrightarrow> m (d + i) \<noteq> 0" and z: "m (d + length xs) = 0"
    and xs: "map (\<lambda>i. m (d + i)) [0..<length xs] = xs"
    using less.prems(1) by (auto simp: is_str_iff intro!: nth_equalityI)
  show ?case
  proof (cases "length xs < 8")
    case True
    then show ?thesis using strcpy_turn(1) [of "length xs" m d c] nz less.prems(2) True z xs z by simp
  next
    case False
    let ?ys = "take 8 xs" and ?zs = "drop 8 xs"
    have ys: "map (\<lambda>i. m (d + i)) [0..<8] = ?ys"
      using False arg_cong [OF xs, of "take 8"] by (simp add: take_map)
    have zs: "is_str ?zs (d + 8) m"
      using less.prems(1) False by (auto simp: is_str_iff add.assoc)
    have "strcpy c d m = strcpy (c + 8) (d + 8) (put ?ys c m)"
      using strcpy_turn(2) [of "length xs" m d c] nz less.prems(2) False by (simp add: ys)
    also have "\<dots> = Some (put (?zs @ [0]) (c + 8) (put ?ys c m))"
      using less.prems(2) False is_str_put_apart [of c d ?zs 8 ?ys m] zs
      by (intro less.hyps) (auto simp: apart_def)
    also have "\<dots> = Some (put (xs @ [0]) c m)"
      using False put_append [of ?ys "?zs @ [0]" c m] append_take_drop_id [of 8 xs]
      by (simp flip: append_assoc)
    finally show ?thesis .
  qed
qed

lemma strcmp_skip:
  assumes "\<And>i. i < 8 \<Longrightarrow> m (a + i) = m (b + i) \<and> m (a + i) \<noteq> 0"
  shows "strcmp a b m = strcmp (a + 8) (b + 8) m"
proof -
  have "\<not> cmpb i a b m" if "i < 8" for i using assms [OF that] by (auto simp: cmpb_def)
  then show ?thesis by (subst strcmp.simps) simp
qed

lemma strcmp_stop:
  assumes "\<And>i. i < k \<Longrightarrow> m (a + i) = m (b + i) \<and> m (a + i) \<noteq> 0" and "k < 8" and "cmpb k a b m"
  shows "strcmp a b m = Some (uint (m (a + k)) - uint (m (b + k)))"
proof -
  have "k = 0 \<or> k = 1 \<or> k = 2 \<or> k = 3 \<or> k = 4 \<or> k = 5 \<or> k = 6 \<or> k = 7" using assms(2) by linarith
  moreover have "\<not> cmpb i a b m" if "i < k" for i using assms(1) [OF that] by (auto simp: cmpb_def)
  ultimately show ?thesis using assms(3)
    by (elim disjE; subst strcmp.simps; simp add: strcmp_exit_def)
qed

text \<open>The comparison is decided by the first position at which the strings differ or end.\<close>

lemma strcmp_first:
  assumes "\<And>i. i < k \<Longrightarrow> m (a + i) = m (b + i) \<and> m (a + i) \<noteq> 0" and "cmpb k a b m"
  shows "strcmp a b m = Some (uint (m (a + k)) - uint (m (b + k)))"
  using assms
proof (induction k arbitrary: a b rule: less_induct)
  case (less k)
  show ?case
  proof (cases "k < 8")
    case False
    have "strcmp a b m = strcmp (a + 8) (b + 8) m"
      using less.prems(1) False by (intro strcmp_skip) (metis less_le_trans not_less)
    also have "\<dots> = Some (uint (m (a + 8 + (k - 8))) - uint (m (b + 8 + (k - 8))))"
    proof (rule less.IH)
      show "m (a + 8 + i) = m (b + 8 + i) \<and> m (a + 8 + i) \<noteq> 0" if "i < k - 8" for i
        using less.prems(1) [of "8 + i"] that by (auto simp: ac_simps less_diff_conv)
    qed (use False less.prems(2) in \<open>auto simp: cmpb_def\<close>)
    finally show ?thesis using False by simp
  qed (use less.prems strcmp_stop in blast)
qed

section \<open>Bounded copies\<close>

lemma is_str_upd: "is_str xs a m \<Longrightarrow> b < a \<or> a + length xs < b \<Longrightarrow> is_str xs a (m(b := x))"
  by (subst is_str_cong [of _ "m(b := x)" a m]) auto

lemma strlcpy_copy_all:
  assumes "is_str xs s m" and "length xs < n" and "d + n \<le> s \<or> s + length xs < d"
  shows "strlcpy_copy n d s m = (n - length xs, d + length xs + 1, s + length xs + 1, put (xs @ [0]) d m)"
  using assms
proof (induction xs arbitrary: n d s m)
  case Nil
  then show ?case by (cases n) auto
next
  case (Cons x xs)
  then obtain k where n: "n = Suc k" by (cases n) auto
  have "is_str xs (s + 1) (m(d := x))" using Cons.prems by (intro is_str_upd) auto
  from Cons.IH [OF this, of k "d + 1"] have "strlcpy_copy k (d + 1) (s + 1) (m(d := x)) =
      (k - length xs, d + 1 + length xs + 1, s + 1 + length xs + 1, put (xs @ [0]) (d + 1) (m(d := x)))"
    using Cons.prems(2,3) by (auto simp: n simp del: fun_upd_apply)
  then show ?case using Cons.prems(1) by (simp add: n)
qed

lemma strlcpy_copy_some:
  assumes "is_str xs s m" and "n \<le> length xs" and "d + n \<le> s \<or> s + length xs < d"
  shows "strlcpy_copy n d s m = (0, d + n, s + n, put (take n xs) d m)"
  using assms
proof (induction n arbitrary: xs d s m)
  case (Suc n)
  then obtain y ys where xs: "xs = y # ys" by (cases xs) auto
  have "is_str ys (s + 1) (m(d := y))" using Suc.prems by (intro is_str_upd) (auto simp: xs)
  from Suc.IH [OF this, of "d + 1"] have "strlcpy_copy n (d + 1) (s + 1) (m(d := y)) =
      (0, d + 1 + n, s + 1 + n, put (take n ys) (d + 1) (m(d := y)))"
    using Suc.prems(2,3) by (auto simp: xs simp del: fun_upd_apply)
  then show ?case using Suc.prems(1) by (simp add: xs)
qed simp

lemma is_str_drop: "is_str xs a m \<Longrightarrow> n \<le> length xs \<Longrightarrow> is_str (drop n xs) (a + n) m"
  by (auto simp: is_str_iff add.assoc)

lemma strlcpy_str:
  assumes s: "is_str xs src m" and d: "dst + siz \<le> src \<or> src + length xs < dst"
  shows "strlcpy dst src siz m =
    Some (length xs, if siz = 0 then m else put (take (siz - 1) xs @ [0]) dst m)"
proof (cases "length xs < siz - 1")
  case True
  then show ?thesis
    using strlcpy_copy_all [OF s True, of dst] d by (auto simp: strlcpy_def)
next
  case False
  let ?m = "if siz = 0 then m else put (take (siz - 1) xs @ [0]) dst m"
  have c: "(if siz \<noteq> 0 \<and> siz - 1 \<noteq> 0 then strlcpy_copy (siz - 1) dst src m else (0, dst, src, m)) =
      (0, dst + (siz - 1), src + (siz - 1), put (take (siz - 1) xs) dst m)"
    using strlcpy_copy_some [OF s, of "siz - 1" dst] d False by auto
  have "is_str xs src ?m = is_str xs src m"
    using d False by (intro is_str_cong) (auto simp: put_apply)
  then have "skip_string (src + (siz - 1)) ?m = Some (src + length xs + 1)"
    using skip_string_str [OF is_str_drop [of xs src ?m "siz - 1"]] s False by simp
  moreover have "(put (take (siz - 1) xs) dst m)(dst + (siz - 1) := 0) = put (take (siz - 1) xs @ [0]) dst m"
    using False by (simp add: put_append)
  ultimately show ?thesis
    unfolding strlcpy_def c by (cases "siz = 0") (auto simp: Let_def)
qed

lemma strlcat_end_str:
  assumes "is_str ys d m" and "siz \<noteq> 0"
  shows "strlcat_end siz d m = Some (d + length ys)"
  using assms by (induction ys arbitrary: d) (simp_all add: strlcat_end.simps [of siz])

lemma strlcat_copy_str:
  assumes "is_str xs s m" and "0 < n" "n < 4294967296"
    and "d + min (n - 1) (length xs) \<le> s \<or> s + length xs < d"
  shows "strlcat_copy n d s m = Some (d + min (n - 1) (length xs), s + length xs, put (take (n - 1) xs) d m)"
  using assms
proof (induction xs arbitrary: n d s m)
  case Nil
  then show ?case by (simp add: strlcat_copy.simps [of n])
next
  case (Cons x xs)
  show ?case
  proof (cases "n = 1")
    case True
    then show ?thesis
      using Cons.prems Cons.IH [of "s + 1" m n d] by (subst strlcat_copy.simps) auto
  next
    case False
    obtain k where n: "n = Suc (Suc k)" using Cons.prems(2) False by (metis One_nat_def gr0_conv_Suc not0_implies_Suc)
    have "is_str xs (s + 1) (m(d := x))" using Cons.prems False by (intro is_str_upd) auto
    from Cons.IH [OF this, of "n - 1" "d + 1"] have "strlcat_copy (n - 1) (d + 1) (s + 1) (m(d := x)) =
        Some (d + 1 + min k (length xs), s + 1 + length xs, put (take k xs) (d + 1) (m(d := x)))"
      using Cons.prems(2-) n by (auto simp del: fun_upd_apply)
    then show ?thesis using Cons.prems by (subst strlcat_copy.simps) (simp add: n)
  qed
qed

section \<open>Numbers\<close>

lemma s32_cong: "a mod 4294967296 = b mod 4294967296 \<Longrightarrow> s32 a = s32 b"
  unfolding s32_def by (drule mod_add_cong [OF _ refl, of _ _ _ 2147483648]) simp

lemma s32_mod: "s32 a mod 4294967296 = a mod 4294967296"
  by (simp add: s32_def mod_simps)

lemma s32_s32 [simp]: "s32 (s32 a) = s32 a"
  by (rule s32_cong) (rule s32_mod)

lemma s32_add: "s32 (s32 a + s32 b) = s32 (a + b)" "s32 (s32 a + b) = s32 (a + b)" "s32 (a + s32 b) = s32 (a + b)"
  by (rule s32_cong, metis s32_mod mod_add_eq)+

lemma s32_mult: "s32 (s32 a * b) = s32 (a * b)"
  by (rule s32_cong, metis s32_mod mod_mult_left_eq)

lemma s32_minus: "s32 (- s32 a) = s32 (- a)"
  by (rule s32_cong, metis s32_mod mod_minus_eq)

text \<open>The ASCII digits of a number, most significant first, and their value.\<close>

definition digit :: "nat \<Rightarrow> byte" where
  "digit d = word_of_nat (48 + d)"

definition dval :: "nat list \<Rightarrow> int" where
  "dval ds = foldl (\<lambda>v d. 10 * v + int d) 0 ds"

lemma dval_simps [simp]: "dval [] = 0" "dval (ds @ [d]) = 10 * dval ds + int d"
  by (simp_all add: dval_def)

lemma digit_cases: "d < 10 \<Longrightarrow> P 0 \<Longrightarrow> P 1 \<Longrightarrow> P 2 \<Longrightarrow> P 3 \<Longrightarrow> P 4 \<Longrightarrow> P 5 \<Longrightarrow> P 6 \<Longrightarrow> P 7 \<Longrightarrow> P 8 \<Longrightarrow> P 9 \<Longrightarrow> P (d::nat)"
proof -
  assume "d < 10" "P 0" "P 1" "P 2" "P 3" "P 4" "P 5" "P 6" "P 7" "P 8" "P 9"
  moreover from this(1) have "d = 0 \<or> d = 1 \<or> d = 2 \<or> d = 3 \<or> d = 4 \<or> d = 5 \<or> d = 6 \<or> d = 7 \<or> d = 8 \<or> d = 9"
    by presburger
  ultimately show "P d" by (elim disjE) simp_all
qed

lemma digit_facts: "d < 10 \<Longrightarrow> sint (digit d) = 48 + int d" "d < 10 \<Longrightarrow> digit d \<noteq> 45" "d < 10 \<Longrightarrow> digit d \<noteq> 0"
  by (rule digit_cases [where d = d]; simp add: digit_def)+

lemma atoi_loop_digits:
  assumes "\<And>i. i < length ds \<Longrightarrow> m (a + k + i) = digit (ds ! i)" and "\<forall>d \<in> set ds. d < 10" and "i = s32 i"
    and "k = 0 \<or> (k = 1 \<and> m a = 45)"
  shows "atoi_loop (k + length ds) i pw a m = (if k = 0 then s32 (i + pw * dval ds) else s32 (- (i + pw * dval ds)))"
  using assms(1,2,3)
proof (induction ds arbitrary: i pw rule: rev_induct)
  case Nil
  then show ?case using assms(4) by (auto simp: Let_def)
next
  case (snoc d ds)
  have c: "m (a + (k + length ds)) = digit d" "d < 10"
    using snoc.prems(1) [of "length ds"] snoc.prems(2) by (simp_all add: add.assoc)
  have "m (a + k + i) = digit (ds ! i)" if "i < length ds" for i
    using snoc.prems(1) [of i] that by (simp add: nth_append)
  note IH = snoc.IH [OF this, of "s32 (i + s32 (pw * int d))" "s32 (pw * 10)"]
  have "atoi_loop (k + length (ds @ [d])) i pw a m =
      atoi_loop (k + length ds) (s32 (i + s32 (pw * int d))) (s32 (pw * 10)) a m"
    using c assms(4) by (auto simp: Let_def digit_facts)
  also have "\<dots> = (let v = s32 (i + s32 (pw * int d)) + s32 (pw * 10) * dval ds in if k = 0 then s32 v else s32 (- v))"
    using IH snoc.prems(2) by (simp only: Let_def s32_s32) simp
  also have "\<dots> = (let v = i + pw * dval (ds @ [d]) in if k = 0 then s32 v else s32 (- v))"
  proof -
    have "s32 (s32 (i + s32 (pw * int d)) + s32 (pw * 10) * dval ds) = s32 (i + pw * dval (ds @ [d]))"
    proof -
      have "s32 (s32 (i + s32 (pw * int d)) + s32 (pw * 10) * dval ds)
          = s32 (s32 (i + s32 (pw * int d)) + s32 (s32 (pw * 10) * dval ds))" by (simp only: s32_add)
      also have "\<dots> = s32 (i + pw * int d + pw * 10 * dval ds)" by (simp only: s32_add s32_mult)
      finally show ?thesis by (simp add: algebra_simps)
    qed
    then show ?thesis unfolding Let_def by (metis s32_minus)
  qed
  finally show ?case by (simp only: Let_def)
qed

lemma atoi_digits:
  assumes "is_str (map digit ds) a m" and "\<forall>d \<in> set ds. d < 10" and "length ds < 4294967295"
  shows "atoi a m = s32 (dval ds)"
  using atoi_loop_digits [of ds m a 0 0 1] assms strlen_str [OF assms(1)]
  by (simp add: atoi_def is_str_iff s32_def)

lemma atoi_minus:
  assumes "is_str (45 # map digit ds) a m" and "\<forall>d \<in> set ds. d < 10" and "Suc (length ds) < 4294967295"
  shows "atoi a m = s32 (- dval ds)"
proof -
  have s: "m a = 45" "is_str (map digit ds) (a + 1) m" using assms(1) by simp_all
  have "atoi_loop (1 + length ds) 0 1 a m = s32 (- dval ds)"
    using atoi_loop_digits [of ds m a 1 0 1] s assms(2) by (simp add: is_str_iff s32_def del: atoi_loop.simps)
  then show ?thesis using strlen_str [OF assms(1)] assms(3) by (simp add: atoi_def del: atoi_loop.simps)
qed

section \<open>The order of strings\<close>

text \<open>The bytes at position \<open>k\<close> decide how two strings compare.\<close>

definition differ_at :: "nat \<Rightarrow> byte list \<Rightarrow> byte list \<Rightarrow> nat \<Rightarrow> nat \<Rightarrow> mem \<Rightarrow> bool" where
  "differ_at k xs ys a b m \<longleftrightarrow> (m (a + k) = m (b + k) \<longleftrightarrow> xs = ys) \<and>
     (m (a + k) < m (b + k) \<longleftrightarrow> (xs, ys) \<in> lexord {(x, y). x < y})"

lemma first_difference:
  assumes "is_str xs a m" and "is_str ys b m"
  shows "\<exists>k. (\<forall>i < k. m (a + i) = m (b + i) \<and> m (a + i) \<noteq> 0) \<and> cmpb k a b m \<and> differ_at k xs ys a b m"
  using assms
proof (induction xs arbitrary: a b ys)
  case Nil
  then have "differ_at 0 [] ys a b m" by (cases ys) (auto simp: differ_at_def word_gt_0)
  then show ?case using Nil by (intro exI [of _ 0]) (simp add: cmpb_def)
next
  case (Cons x xs)
  show ?case
  proof (cases "m b = x")
    case True
    then obtain zs where ys: "ys = x # zs" using Cons.prems by (cases ys) auto
    obtain k where k: "\<forall>i < k. m (a + 1 + i) = m (b + 1 + i) \<and> m (a + 1 + i) \<noteq> 0" "cmpb k (a + 1) (b + 1) m"
      "differ_at k xs zs (a + 1) (b + 1) m"
      using Cons.IH [of "a + 1" zs "b + 1"] Cons.prems by (auto simp: ys)
    have "differ_at (Suc k) (x # xs) ys a b m" using k(3) by (simp add: differ_at_def ys)
    moreover have "\<forall>i < Suc k. m (a + i) = m (b + i) \<and> m (a + i) \<noteq> 0"
      using k(1) Cons.prems True by (auto simp: All_less_Suc2)
    ultimately show ?thesis using k(2) by (intro exI [of _ "Suc k"] conjI) (auto simp: cmpb_def)
  next
    case False
    have "differ_at 0 (x # xs) ys a b m"
      using Cons.prems False by (cases ys) (auto simp: differ_at_def)
    then show ?thesis using Cons.prems False by (intro exI [of _ 0]) (simp add: cmpb_def)
  qed
qed

section \<open>Properties\<close>

text \<open>
  C23. \<open>memmove\<close> moves a block as if through a separate buffer, however source and destination
  overlap, and writes nothing else. \<open>memcpy\<close> agrees with it when the destination does not lie
  inside the source, above its start.
\<close>

theorem memmove_correct:
  "memmove dst src n m a = (if dst \<le> a \<and> a < dst + n then m (src + (a - dst)) else m a) \<and>
   (dst \<le> src \<or> src + n \<le> dst \<longrightarrow> memcpy dst src n m = memmove dst src n m)"
  by (auto simp: memmove_apply memcpy_up memmove_up_apply fun_eq_iff)

theorem memmove_correct_witness:
  "memcpy 4 5 3 (\<lambda>a. word_of_nat a) = memmove 4 5 3 (\<lambda>a. word_of_nat a) \<and>
   memmove 4 5 3 (\<lambda>a. word_of_nat a) 6 = (7 :: byte)"
  using memmove_correct [of 4 5 3 "\<lambda>a. word_of_nat a" 6] by simp

text \<open>
  C24. The unrolled assembly loops of \<open>strcpy\<close> and \<open>strcmp\<close> and the string scan of \<open>strlen\<close>
  agree: copying a string to a place apart from it returns, the copy reads back as the same
  string and compares equal, has the same length, and no byte outside it is written.
\<close>

theorem strcpy_round_trip:
  assumes s: "is_str xs src m" and "apart dst src (length xs)" and "length xs < 4294967295"
  shows "\<exists>m'. strcpy dst src m = Some m' \<and> is_str xs dst m' \<and> strlen dst m' = strlen src m \<and>
    strcmp dst src m' = Some 0 \<and> (\<forall>a. a < dst \<or> dst + length xs < a \<longrightarrow> m' a = m a)"
proof -
  let ?m = "put (xs @ [0]) dst m"
  have d: "is_str xs dst ?m" using put_is_str is_str_nonzero [OF s] by blast
  have s': "is_str xs src ?m" using is_str_put_apart [of dst src xs 0 "xs @ [0]" m] s assms(2)
    by (auto simp: is_str_iff put_apply apart_def)
  have "strcmp dst src ?m = Some (uint (?m (dst + length xs)) - uint (?m (src + length xs)))"
    using d s' by (intro strcmp_first) (auto simp: is_str_iff cmpb_def)
  also have "\<dots> = Some 0" using d s' unfolding is_str_iff by simp
  finally show ?thesis
    using strcpy_str [OF s assms(2)] d strlen_str [OF s] strlen_str [OF d] assms(3) by (auto simp: put_apply)
qed

theorem strcpy_round_trip_witness:
  "\<exists>m'. strcpy 100 0 ((\<lambda>_. 65)(12 := 0)) = Some m' \<and> is_str (replicate 12 65) 100 m'"
proof -
  have "is_str (replicate 12 65) 0 ((\<lambda>_. 65)(12 := 0))" by (simp add: is_str_iff)
  from strcpy_round_trip [OF this, of 100] show ?thesis by (auto simp: apart_def)
qed

text \<open>
  \<open>strcmp\<close> always returns on strings, and its result orders them: it is 0 exactly on equal
  strings and negative exactly when the first string comes first in the dictionary order of
  unsigned bytes.
\<close>

theorem strcmp_orders:
  assumes "is_str xs a m" and "is_str ys b m"
  shows "\<exists>r. strcmp a b m = Some r \<and> (r = 0 \<longleftrightarrow> xs = ys) \<and> (r < 0 \<longleftrightarrow> (xs, ys) \<in> lexord {(x, y). x < y})"
proof -
  obtain k where k: "\<forall>i < k. m (a + i) = m (b + i) \<and> m (a + i) \<noteq> 0" "cmpb k a b m" "differ_at k xs ys a b m"
    using first_difference [OF assms] by blast
  then have "strcmp a b m = Some (uint (m (a + k)) - uint (m (b + k)))"
    using strcmp_first [of k m a b] by blast
  then show ?thesis
    using k(3) by (intro exI [of _ "uint (m (a + k)) - uint (m (b + k))"])
      (simp add: differ_at_def word_less_def [of "m (a + k)"] flip: word_uint_eq_iff)
qed

theorem strcmp_orders_witness:
  "\<exists>r. strcmp 0 4 (put [65, 66, 0, 0, 65, 200, 0] 0 (\<lambda>_. 0)) = Some r \<and> r < 0"
proof -
  let ?m = "put [65, 66, 0, 0, 65, 200, 0] 0 (\<lambda>_. 0)"
  have "is_str [65, 66] 0 ?m" "is_str [65, 200] 4 ?m" by simp_all
  from strcmp_orders [OF this] show ?thesis by auto
qed

text \<open>
  \<open>strlcpy\<close> returns the length of the source and, when the buffer has any room, leaves in
  it the longest prefix of the source that fits with its NUL; it writes at most \<open>siz\<close> bytes
  and none outside the buffer, as its comment promises.
\<close>

theorem strlcpy_correct:
  assumes "is_str xs src m" and "dst + siz \<le> src \<or> src + length xs < dst"
  shows "\<exists>m'. strlcpy dst src siz m = Some (length xs, m') \<and> (siz \<noteq> 0 \<longrightarrow> is_str (take (siz - 1) xs) dst m') \<and>
    (\<forall>a. a < dst \<or> dst + siz \<le> a \<longrightarrow> m' a = m a)"
proof -
  have "is_str (take (siz - 1) xs) dst (put (take (siz - 1) xs @ [0]) dst m)"
    using put_is_str is_str_take [OF assms(1)] by blast
  then show ?thesis using strlcpy_str [OF assms] by (auto simp: put_apply)
qed

theorem strlcpy_correct_witness:
  "\<exists>m'. strlcpy 10 0 3 (put [72, 105, 33, 33, 0] 0 (\<lambda>_. 1)) = Some (4, m') \<and> is_str [72, 105] 10 m'"
proof -
  have "is_str [72, 105, 33, 33] 0 (put [72, 105, 33, 33, 0] 0 (\<lambda>_. 1))" by simp
  from strlcpy_correct [OF this, of 10 3] show ?thesis by auto
qed



text \<open>
  \<open>strncmp\<close> returns 0 exactly when the first \<open>n\<close> bytes agree and none of them is NUL, and
  -1 otherwise. So two equal strings shorter than \<open>n\<close> compare as different, and the sign of the
  result carries no order.
\<close>

theorem strncmp_characterised:
  "strncmp s1 s2 n m = (if \<forall>i < n. m (s1 + i) = m (s2 + i) \<and> m (s1 + i) \<noteq> 0 then 0 else -1) \<and>
   (is_str xs s1 m \<and> is_str xs s2 m \<and> length xs < n \<longrightarrow> strncmp s1 s2 n m = -1)"
  using strncmp_0 [of s1 s2 n m] strncmp_cases [of s1 s2 n m] unfolding is_str_iff by auto

theorem strncmp_characterised_witness:
  "strncmp 0 4 3 (put [65, 66, 0, 0, 65, 66, 0] 0 (\<lambda>_. 0)) = -1"
  using strncmp_characterised [of 0 4 3 "put [65, 66, 0, 0, 65, 66, 0] 0 (\<lambda>_. 0)" "[65, 66]"] by simp

end
