(* ===== verification/Snprintf.thy ===== *)
theory Snprintf
  imports CStringInv
begin

text \<open>
  \<open>va_snprintf\<close> of \<^verbatim>\<open>lib/libc/snprintf.c\<close>. The arguments are the 32-bit words of the
  variable argument list; reading past them is undefined and gives \<open>None\<close>, as does a run of
  \<open>l\<close> modifiers that no other byte ends. The state of the loop is the buffer pointer \<open>b\<close>, the
  room \<open>l\<close>, the arguments left and the memory.
\<close>

section \<open>Definitions\<close>

definition hexmap :: "nat \<Rightarrow> byte" where
  "hexmap d = (if d < 10 then word_of_nat (48 + d) else word_of_nat (87 + d))"

text \<open>The \<open>i\<close> lowest hexadecimal digits of \<open>u\<close>, stored from \<open>b[i - 1]\<close> down to \<open>b[0]\<close>.\<close>

primrec put_hex :: "nat \<Rightarrow> nat \<Rightarrow> nat \<Rightarrow> mem \<Rightarrow> mem" where
  "put_hex 0 u b m = m"
| "put_hex (Suc i) u b m = put_hex i (u div 16) b (m(b + i := hexmap (u mod 16)))"

text \<open>\<open>goto again\<close>: the modifiers \<open>l\<close> and \<open>ll\<close>.\<close>

partial_function (option) skip_mods :: "nat \<Rightarrow> bool \<Rightarrow> bool \<Rightarrow> mem \<Rightarrow> (nat \<times> bool \<times> bool) option" where
  "skip_mods fmt mod_l mod_ll m =
     (if m fmt = 108
      then if \<not> mod_l then skip_mods (fmt + 1) True mod_ll m
           else if \<not> mod_ll then skip_mods (fmt + 1) False True m
           else skip_mods (fmt + 1) mod_l mod_ll m
      else Some (fmt, mod_l, mod_ll))"

text \<open>The loop of \<open>%s\<close>.\<close>

primrec put_str :: "nat \<Rightarrow> nat \<Rightarrow> nat \<Rightarrow> mem \<Rightarrow> nat \<times> nat \<times> mem" where
  "put_str 0 t b m = (0, b, m)"
| "put_str (Suc l) t b m =
     (if m t \<noteq> 0 then put_str l (t + 1) (b + 1) (m(b := m t)) else (Suc l, b, m))"

text \<open>The decimal digits: \<open>dec_digits i u\<close> is what the first loop leaves in \<open>d[i + 1 .. 9]\<close> when it
  starts with index \<open>i\<close>; it stops when \<open>u\<close> is 0 or the array is full.\<close>

fun dec_digits :: "nat \<Rightarrow> nat \<Rightarrow> byte list \<Rightarrow> byte list" where
  "dec_digits 0 u ds = digit (u mod 10) # ds"
| "dec_digits (Suc i) u ds =
     (if u div 10 \<noteq> 0 then dec_digits i (u div 10) (digit (u mod 10) # ds) else digit (u mod 10) # ds)"

text \<open>\<open>while(++i < 10){ *b++ = d[i]; if(!(--l)) break; }\<close>, entered with \<open>l\<close> not 0.\<close>

fun put_digits :: "byte list \<Rightarrow> nat \<Rightarrow> nat \<Rightarrow> mem \<Rightarrow> nat \<times> nat \<times> mem" where
  "put_digits [] l b m = (l, b, m)"
| "put_digits (d # ds) l b m =
     (if l - 1 = 0 then (0, b + 1, m(b := d)) else put_digits ds (l - 1) (b + 1) (m(b := d)))"

text \<open>\<open>%U\<close> prints \<open>d[6 .. 9]\<close>, which the code blanks first except for the last.\<close>

definition last4 :: "byte list \<Rightarrow> byte list" where
  "last4 ds = (let n = length ds in if 4 \<le> n then drop (n - 4) ds else replicate (4 - n) 32 @ ds)"

definition convert ::
  "byte \<Rightarrow> bool \<Rightarrow> nat \<Rightarrow> nat \<Rightarrow> nat list \<Rightarrow> mem \<Rightarrow> (nat \<times> nat \<times> nat list \<times> mem) option" where
  "convert c mod_ll b l args m =
     (if c = 115 then
        (case args of [] \<Rightarrow> None | t # args \<Rightarrow> (let (l, b, m) = put_str l t b m in Some (b, l, args, m)))
      else if c = 99 then
        (case args of [] \<Rightarrow> None | n # args \<Rightarrow> Some (b + 1, l - 1, args, m(b := word_of_nat n)))
      else if c = 83 then
        (if l < 4 then Some (b, 0, args, m)
         else case args of [] \<Rightarrow> None | u # args \<Rightarrow> Some (b + 4, l - 4, args, put_hex 4 u b m))
      else if c = 120 \<or> c = 112 then
        (if \<not> mod_ll then
           (if l < 8 then Some (b, 0, args, m)
            else case args of [] \<Rightarrow> None | u # args \<Rightarrow> Some (b + 8, l - 8, args, put_hex 8 u b m))
         else
           (if l < 16 then Some (b, 0, args, m)
            else case args of lo # hi # args \<Rightarrow>
                Some (b + 16, l - 16, args, put_hex 16 (lo + 4294967296 * hi) b m) | _ \<Rightarrow> None))
      else if c = 100 then
        (case args of [] \<Rightarrow> None
         | w # args \<Rightarrow>
             (let n = s32 (int w) in
              if n < 0 then
                (let m = m(b := 45) in
                 if l - 1 = 0 then Some (b + 1, 0, args, m)
                 else (let (l, b, m) = put_digits (dec_digits 9 (u32_of_int (- n)) []) (l - 1) (b + 1) m
                       in Some (b, l, args, m)))
              else (let (l, b, m) = put_digits (dec_digits 9 (u32_of_int n) []) l b m in Some (b, l, args, m))))
      else if c = 117 then
        (case args of [] \<Rightarrow> None
         | u # args \<Rightarrow> (let (l, b, m) = put_digits (dec_digits 9 u []) l b m in Some (b, l, args, m)))
      else if c = 85 then
        (case args of [] \<Rightarrow> None
         | u # args \<Rightarrow> (let (l, b, m) = put_digits (last4 (dec_digits 9 u [])) l b m in Some (b, l, args, m)))
      else if c = 88 then
        (if l < 2 then Some (b, 0, args, m)
         else case args of [] \<Rightarrow> None
         | n # args \<Rightarrow> Some (b + 2, l - 2, args, m(b := hexmap (n div 16 mod 16), b + 1 := hexmap (n mod 16))))
      else Some (b + 1, l, args, m(b := c)))"

lemma put_str_room: "put_str l t b m = (l', b', m') \<Longrightarrow> l' \<le> l \<and> b \<le> b' \<and> b' + l' = b + l \<and>
    (\<forall>a. a < b \<or> b + l \<le> a \<longrightarrow> m' a = m a)"
  by (induction l arbitrary: t b m) (fastforce split: if_splits)+

lemma put_digits_room: "put_digits ds l b m = (l', b', m') \<Longrightarrow> 0 < l \<Longrightarrow> l' \<le> l \<and> b \<le> b' \<and> b' + l' = b + l \<and>
    (\<forall>a. a < b \<or> b + l \<le> a \<longrightarrow> m' a = m a)"
  by (induction ds l b m rule: put_digits.induct) (fastforce split: if_splits)+

lemma put_hex_frame: "a < b \<or> b + i \<le> a \<Longrightarrow> put_hex i u b m a = m a"
  by (induction i arbitrary: u m) auto

text \<open>A conversion writes from \<open>b\<close> on, at most one byte more than the room it reports as used.\<close>

lemma convert_room:
  assumes "convert c ll b l args m = Some (b', l', args', m')" and "0 < l"
  shows "l' \<le> l \<and> b \<le> b' \<and> b' + l' \<le> Suc (b + l) \<and> (\<forall>a. a < b \<or> Suc (b + l) \<le> a \<longrightarrow> m' a = m a)"
  using assms unfolding convert_def
  by (auto simp: Let_def put_hex_frame split: if_splits list.splits prod.splits
      dest!: put_str_room put_digits_room)

text \<open>The loop. \<open>mod_l\<close> and \<open>mod_ll\<close> are only reset by \<open>%x\<close> and \<open>%p\<close> that had room.\<close>

function va_snprintf_loop ::
  "nat \<Rightarrow> nat \<Rightarrow> nat \<Rightarrow> nat list \<Rightarrow> bool \<Rightarrow> bool \<Rightarrow> mem \<Rightarrow> (nat \<times> mem) option" where
  "va_snprintf_loop b l fmt args mod_l mod_ll m =
     (if l = 0 \<or> m fmt = 0 then Some (b, m)
      else if m fmt = 37 then
        (if l - 1 = 0 then Some (b, m)
         else do {
           (fmt, mod_l, mod_ll) \<leftarrow> skip_mods (fmt + 1) mod_l mod_ll m;
           let c = m fmt;
           (b, l1, args, m) \<leftarrow> convert c mod_ll b (l - 1) args m;
           let reset = ((c = 120 \<or> c = 112) \<and> \<not> (l - 1 < (if mod_ll then 16 else 8)));
           va_snprintf_loop b l1 (fmt + 1) args (mod_l \<and> \<not> reset) (mod_ll \<and> \<not> reset) m
         })
      else va_snprintf_loop (b + 1) (l - 1) (fmt + 1) args mod_l mod_ll (m(b := m fmt)))"
  by pat_completeness auto
termination
  by (relation "measure (\<lambda>(b, l, _). l)") (auto dest!: convert_room)

declare va_snprintf_loop.simps [simp del]

definition va_snprintf :: "nat \<Rightarrow> int \<Rightarrow> nat \<Rightarrow> nat list \<Rightarrow> mem \<Rightarrow> mem option" where
  "va_snprintf b l fmt args m =
     (if fmt = 0 \<or> b = 0 \<or> l < 1 then Some m
      else do {
        (b, m) \<leftarrow> va_snprintf_loop b (nat l) fmt args False False m;
        Some (m(b := 0))
      })"

end
