(* ===== verification/SnprintfInv.thy ===== *)
theory SnprintfInv
  imports Snprintf
begin

text \<open>
  Correctness of \<open>va_snprintf\<close>: the bytes it may write, the text it copies, and the decimal
  numbers it prints.
\<close>

section \<open>Bounds\<close>

lemma va_snprintf_loop_bounds:
  "va_snprintf_loop b l fmt args ml mll m = Some (b', m') \<Longrightarrow>
   b \<le> b' \<and> b' \<le> b + l \<and> (\<forall>a. a < b \<or> b + l \<le> a \<longrightarrow> m' a = m a)"
proof (induction b l fmt args ml mll m arbitrary: b' m' rule: va_snprintf_loop.induct)
  case (1 b l fmt args ml mll m)
  consider "l = 0 \<or> m fmt = 0 \<or> (m fmt = 37 \<and> l = 1)" | "l \<noteq> 0" "m fmt \<noteq> 0" "m fmt \<noteq> 37"
    | "1 < l" "m fmt = 37" by fastforce
  then show ?case
  proof cases
    case 1
    then show ?thesis using "1.prems" by (subst (asm) va_snprintf_loop.simps) auto
  next
    case 2
    then have "va_snprintf_loop (b + 1) (l - 1) (fmt + 1) args ml mll (m(b := m fmt)) = Some (b', m')"
      using "1.prems" by (subst (asm) va_snprintf_loop.simps) simp
    from "1.IH"(2) [OF _ _ this] 2 show ?thesis by auto
  next
    case 3
    then obtain fmt1 ml1 mll1 b1 l1 args1 m1 r where
      s: "skip_mods (fmt + 1) ml mll m = Some (fmt1, ml1, mll1)"
      and c: "convert (m fmt1) mll1 b (l - 1) args m = Some (b1, l1, args1, m1)"
      and r: "va_snprintf_loop b1 l1 (fmt1 + 1) args1 (ml1 \<and> \<not> r) (mll1 \<and> \<not> r) m1 = Some (b', m')"
      and rd: "r = ((m fmt1 = 120 \<or> m fmt1 = 112) \<and> \<not> (l - 1 < (if mll1 then 16 else 8)))"
      using "1.prems" by (subst (asm) va_snprintf_loop.simps) (auto simp: Let_def split: bind_splits)
    have "b1 \<le> b' \<and> b' \<le> b1 + l1 \<and> (\<forall>a. a < b1 \<or> b1 + l1 \<le> a \<longrightarrow> m' a = m1 a)"
      by (rule "1.IH"(1) [OF _ _ _ s refl refl refl c refl refl refl refl])
        (use 3 r rd in \<open>simp_all\<close>)
    then show ?thesis using convert_room [OF c] 3 by auto
  qed
qed

lemma va_snprintf_loop_text:
  assumes "is_str xs fmt m" and "37 \<notin> set xs" and "b + l \<le> fmt \<or> fmt + length xs < b"
  shows "va_snprintf_loop b l fmt args ml mll m = Some (b + min l (length xs), put (take l xs) b m)"
  using assms
proof (induction xs arbitrary: b l fmt m)
  case Nil
  then show ?case by (subst va_snprintf_loop.simps) simp
next
  case (Cons x xs)
  show ?case
  proof (cases l)
    case (Suc k)
    have "is_str xs (fmt + 1) (m(b := x))" using Cons.prems Suc by (intro is_str_upd) auto
    from Cons.IH [OF this, of "b + 1" k] show ?thesis
      using Cons.prems Suc by (subst va_snprintf_loop.simps) (auto simp del: fun_upd_apply)
  qed (subst va_snprintf_loop.simps, simp)
qed

section \<open>Decimal numbers\<close>

lemma dec_digits_value:
  "u < 10 ^ Suc i \<Longrightarrow> \<exists>ds. dec_digits i u acc = map digit ds @ acc \<and> (\<forall>d \<in> set ds. d < 10) \<and>
     dval ds = int u \<and> ds \<noteq> [] \<and> length ds \<le> Suc i"
proof (induction i arbitrary: u acc)
  case 0
  then show ?case by (intro exI [of _ "[u]"]) (simp add: dval_def)
next
  case (Suc i)
  show ?case
  proof (cases "u div 10 = 0")
    case True
    then show ?thesis by (intro exI [of _ "[u mod 10]"]) (simp add: dval_def)
  next
    case False
    have "u div 10 < 10 ^ Suc i" using Suc.prems by (simp add: less_mult_imp_div_less mult.commute)
    from Suc.IH [OF this, of "digit (u mod 10) # acc"] obtain ds where
      "dec_digits i (u div 10) (digit (u mod 10) # acc) = map digit ds @ digit (u mod 10) # acc"
      "\<forall>d \<in> set ds. d < 10" "dval ds = int (u div 10)" "length ds \<le> Suc i" by blast
    then show ?thesis using False
      by (intro exI [of _ "ds @ [u mod 10]"]) (auto simp: of_nat_mod of_nat_div)
  qed
qed

lemma put_digits_all:
  "length ds < l \<Longrightarrow> put_digits ds l b m = (l - length ds, b + length ds, put ds b m)"
  by (induction ds l b m rule: put_digits.induct) auto

lemma va_snprintf_loop_end: "m fmt = 0 \<Longrightarrow> va_snprintf_loop b l fmt args ml mll m = Some (b, m)"
  by (simp add: va_snprintf_loop.simps)

lemma convert_d:
  assumes "w < 4294967296" and "12 \<le> l"
  obtains ds where "\<forall>d \<in> set ds. d < 10" "ds \<noteq> []" "length ds \<le> 10"
    "s32 (int w) = (if s32 (int w) < 0 then - dval ds else dval ds)"
    "convert 100 mll b l (w # args) m =
      (let xs = (if s32 (int w) < 0 then [45] else []) @ map digit ds
       in Some (b + length xs, l - length xs, args, put xs b m))"
proof -
  let ?n = "s32 (int w)"
  have r: "- 2147483648 \<le> ?n" "?n < 2147483648" using s32_range [of "int w"] by auto
  let ?u = "u32_of_int (if ?n < 0 then - ?n else ?n)"
  have u: "int ?u = (if ?n < 0 then - ?n else ?n)" "?u < 10 ^ Suc 9" using r by (auto simp: u32_of_int_def)
  obtain ds where ds: "dec_digits 9 ?u [] = map digit ds" "\<forall>d \<in> set ds. d < 10" "dval ds = int ?u"
    "ds \<noteq> []" "length ds \<le> 10"
    using dec_digits_value [OF u(2), of "[]"] by auto
  have "convert 100 mll b l (w # args) m =
      (let xs = (if ?n < 0 then [45] else []) @ map digit ds
       in Some (b + length xs, l - length xs, args, put xs b m))"
    using ds(1,5) assms(2) by (auto simp: convert_def Let_def put_digits_all split: if_splits)
  then show thesis using that [OF ds(2,4,5)] ds(3) u(1) by (auto split: if_splits)
qed

section \<open>Properties\<close>

text \<open>
  C26. \<open>va_snprintf\<close> with a buffer of \<open>l\<close> bytes, whatever the format and the arguments, writes no
  byte outside \<open>b .. b + l\<close>: every conversion checks the room it needs, and the closing NUL can
  go at most one byte past the buffer.
\<close>

theorem va_snprintf_bounds:
  assumes "va_snprintf b l fmt args m = Some m'" and "a < b \<or> b + nat l < a"
  shows "m' a = m a"
  using assms by (auto simp: va_snprintf_def dest!: va_snprintf_loop_bounds split: if_splits bind_splits)

text \<open>
  That byte is written: a format without conversions that has at least \<open>l\<close> characters is
  copied for \<open>l\<close> characters and the NUL is stored at \<open>b + l\<close>, one byte past a buffer of \<open>l\<close> bytes.
\<close>

lemma va_snprintf_text:
  assumes "is_str xs fmt m" and "37 \<notin> set xs" and "0 < l" "b \<noteq> 0" "fmt \<noteq> 0"
    and "b + l \<le> fmt \<or> fmt + length xs < b"
  shows "va_snprintf b (int l) fmt args m = Some (put (take l xs @ [0]) b m)"
  using assms va_snprintf_loop_text [OF assms(1,2,6)] by (auto simp: va_snprintf_def put_append min.commute)

theorem va_snprintf_overruns:
  assumes "is_str xs fmt m" and "37 \<notin> set xs" and "0 < l" "l \<le> length xs" and "b \<noteq> 0" "fmt \<noteq> 0"
    and "b + l \<le> fmt \<or> fmt + length xs < b"
  shows "\<exists>m'. va_snprintf b (int l) fmt args m = Some m' \<and> is_str (take l xs) b m' \<and> m' (b + l) = 0"
proof -
  have "is_str (take l xs) b (put (take l xs @ [0]) b m)"
    using put_is_str is_str_take [OF assms(1)] by blast
  then show ?thesis
    using va_snprintf_text [OF assms(1-3,5-7)] assms(4) by (auto simp: is_str_iff)
qed

theorem va_snprintf_overruns_witness:
  "\<exists>m'. va_snprintf 100 3 1 [] (put [65, 66, 67, 68, 0] 1 (\<lambda>_. 7)) = Some m' \<and> m' 103 = 0"
proof -
  have "is_str [65, 66, 67, 68] 1 (put [65, 66, 67, 68, 0] 1 (\<lambda>_. 7))" by simp
  from va_snprintf_overruns [OF this, of 3 100 "[]"] show ?thesis by auto
qed

theorem va_snprintf_bounds_witness:
  "\<exists>m'. va_snprintf 100 3 1 [] (put [65, 66, 67, 68, 0] 1 (\<lambda>_. 7)) = Some m' \<and> m' 104 = 7"
proof -
  let ?m = "put [65, 66, 67, 68, 0] 1 (\<lambda>_. 7)"
  have "is_str [65, 66, 67, 68] 1 ?m" by simp
  from va_snprintf_text [OF this, of 3 100 "[]"]
  have r: "va_snprintf 100 3 1 [] ?m = Some (put (take 3 [65, 66, 67, 68] @ [0]) 100 ?m)" by simp
  from va_snprintf_bounds [OF this, of 104] r show ?thesis by simp
qed

text \<open>
  C27. Printing and reading a number round trip: \<open>%d\<close> of any 32-bit word, with room for twelve
  characters, leaves a string that \<open>atoi\<close> reads as the same signed number, the least one
  included.
\<close>

theorem print_read_round_trip:
  assumes f: "is_str [37, 100] fmt m" and w: "w < 4294967296" and l: "13 \<le> l" and nz: "b \<noteq> 0" "fmt \<noteq> 0"
    and ap: "b + l \<le> fmt \<or> fmt + 2 < b"
  shows "\<exists>m'. va_snprintf b (int l) fmt [w] m = Some m' \<and> atoi b m' = s32 (int w)"
proof -
  obtain ds where ds: "\<forall>d \<in> set ds. d < 10" "ds \<noteq> []" "length ds \<le> 10"
    "s32 (int w) = (if s32 (int w) < 0 then - dval ds else dval ds)"
    "convert 100 False b (l - 1) [w] m =
      (let xs = (if s32 (int w) < 0 then [45] else []) @ map digit ds
       in Some (b + length xs, l - 1 - length xs, [], put xs b m))"
    by (rule convert_d [OF w, of "l - 1" False b "[]" m]) (use l in simp)
  define xs where xs: "xs = (if s32 (int w) < 0 then [45] else []) @ map digit ds"
  have lx: "length xs \<le> 11" using ds(3) by (simp add: xs)
  have m: "m fmt = 37" "m (fmt + 1) = 100" "m (fmt + 2) = 0" using f by simp_all
  have z: "put xs b m (fmt + 2) = 0" using m(3) lx ap l unfolding put_apply by auto
  have "va_snprintf_loop b l fmt [w] False False m = Some (b + length xs, put xs b m)"
    using m z ds(5) [folded xs] l by (subst va_snprintf_loop.simps)
      (simp add: skip_mods.simps Let_def va_snprintf_loop_end)
  then have r: "va_snprintf b (int l) fmt [w] m = Some (put (xs @ [0]) b m)"
    using nz l unfolding put_append by (simp add: va_snprintf_def)
  have "0 \<notin> set xs" using ds(1) by (auto simp: xs digit_facts dest!: sym [of 0])
  then have s: "is_str xs b (put (xs @ [0]) b m)" by (rule put_is_str)
  have "atoi b (put (xs @ [0]) b m) = s32 (int w)"
  proof (cases "s32 (int w) < 0")
    case True
    then have "s32 (- dval ds) = s32 (int w)" using ds(4) s32_s32 [of "int w"] by simp
    then show ?thesis using atoi_minus [of ds b "put (xs @ [0]) b m"] s ds True by (simp add: xs)
  next
    case False
    then have "s32 (dval ds) = s32 (int w)" using ds(4) s32_s32 [of "int w"] by simp
    then show ?thesis using atoi_digits [of ds b "put (xs @ [0]) b m"] s ds False by (simp add: xs)
  qed
  with r show ?thesis by blast
qed

theorem print_read_round_trip_witness:
  "\<exists>m'. va_snprintf 100 16 1 [2147483648] (put [37, 100, 0] 1 (\<lambda>_. 7)) = Some m' \<and> atoi 100 m' = -2147483648"
proof -
  have "is_str [37, 100] 1 (put [37, 100, 0] 1 (\<lambda>_. 7))" by simp
  from print_read_round_trip [OF this, of 2147483648 16 100] show ?thesis by (simp add: s32_def)
qed

end
