(* ===== verification/Qsort.thy ===== *)
theory Qsort
  imports Prelude "HOL-Library.Multiset"
begin

text \<open>
  The quicksort of \<^verbatim>\<open>lib/libc/qsort.c\<close> (Bentley and McIlroy). The array is a map from
  indices to elements: the byte pointer \<open>a + i * es\<close> of the source is the index \<open>i\<close>, and the
  word-wise or byte-wise exchange of \<open>es\<close> bytes is the exchange of two elements. \<open>cmp\<close> is the
  caller's comparison function on the elements pointed to.
\<close>

section \<open>Definitions\<close>

definition swap_at :: "nat \<Rightarrow> nat \<Rightarrow> (nat \<Rightarrow> 'a) \<Rightarrow> nat \<Rightarrow> 'a" where
  "swap_at i j f = f(i := f j, j := f i)"

primrec vecswap :: "nat \<Rightarrow> nat \<Rightarrow> nat \<Rightarrow> (nat \<Rightarrow> 'a) \<Rightarrow> nat \<Rightarrow> 'a" where
  "vecswap a b 0 f = f"
| "vecswap a b (Suc n) f = vecswap (a + 1) (b + 1) n (swap_at a b f)"

definition med3 :: "('a \<Rightarrow> 'a \<Rightarrow> int) \<Rightarrow> (nat \<Rightarrow> 'a) \<Rightarrow> nat \<Rightarrow> nat \<Rightarrow> nat \<Rightarrow> nat" where
  "med3 cmp f a b c =
     (if cmp (f a) (f b) < 0
      then (if cmp (f b) (f c) < 0 then b else if cmp (f a) (f c) < 0 then c else a)
      else (if cmp (f b) (f c) > 0 then b else if cmp (f a) (f c) < 0 then a else c))"

text \<open>The insertion sort: the inner loop moves the element at \<open>a + k\<close> down.\<close>

primrec insert_down :: "('a \<Rightarrow> 'a \<Rightarrow> int) \<Rightarrow> nat \<Rightarrow> nat \<Rightarrow> (nat \<Rightarrow> 'a) \<Rightarrow> nat \<Rightarrow> 'a" where
  "insert_down cmp a 0 f = f"
| "insert_down cmp a (Suc k) f =
     (if cmp (f (a + k)) (f (a + Suc k)) > 0
      then insert_down cmp a k (swap_at (a + Suc k) (a + k) f) else f)"

definition insertion_sort :: "('a \<Rightarrow> 'a \<Rightarrow> int) \<Rightarrow> nat \<Rightarrow> nat \<Rightarrow> (nat \<Rightarrow> 'a) \<Rightarrow> nat \<Rightarrow> 'a" where
  "insertion_sort cmp a n f = fold (insert_down cmp a) [1..<n] f"

text \<open>The pivot: the middle element, the median of three, or the median of three medians.\<close>

definition pivot :: "('a \<Rightarrow> 'a \<Rightarrow> int) \<Rightarrow> nat \<Rightarrow> nat \<Rightarrow> (nat \<Rightarrow> 'a) \<Rightarrow> nat" where
  "pivot cmp a n f =
     (let pm = a + n div 2 in
      if n > 7 then
        (let pl = a; pn = a + (n - 1);
             d = n div 8;
             (pl, pm, pn) = (if n > 40 then (med3 cmp f pl (pl + d) (pl + 2 * d),
                               med3 cmp f (pm - d) pm (pm + d), med3 cmp f (pn - 2 * d) (pn - d) pn)
                             else (pl, pm, pn))
         in med3 cmp f pl pm pn)
      else pm)"

text \<open>The two scans of the partition and their outer loop. \<open>pc\<close> is never the index 0 while
  \<open>pb \<le> pc\<close>, since \<open>pb\<close> starts behind \<open>a\<close>.\<close>

function scan_up :: "('a \<Rightarrow> 'a \<Rightarrow> int) \<Rightarrow> nat \<Rightarrow> nat \<Rightarrow> nat \<Rightarrow> nat \<Rightarrow> bool \<Rightarrow> (nat \<Rightarrow> 'a) \<Rightarrow>
    nat \<times> nat \<times> bool \<times> (nat \<Rightarrow> 'a)" where
  "scan_up cmp a pa pb pc cnt f =
     (if pb \<le> pc \<and> cmp (f pb) (f a) \<le> 0
      then if cmp (f pb) (f a) = 0 then scan_up cmp a (pa + 1) (pb + 1) pc True (swap_at pa pb f)
           else scan_up cmp a pa (pb + 1) pc cnt f
      else (pa, pb, cnt, f))"
  by pat_completeness auto
termination by (relation "measure (\<lambda>(cmp, a, pa, pb, pc, _). Suc pc - pb)") auto

declare scan_up.simps [simp del]

function scan_down :: "('a \<Rightarrow> 'a \<Rightarrow> int) \<Rightarrow> nat \<Rightarrow> nat \<Rightarrow> nat \<Rightarrow> nat \<Rightarrow> bool \<Rightarrow> (nat \<Rightarrow> 'a) \<Rightarrow>
    nat \<times> nat \<times> bool \<times> (nat \<Rightarrow> 'a)" where
  "scan_down cmp a pb pc pd cnt f =
     (if 0 < pc \<and> pb \<le> pc \<and> cmp (f pc) (f a) \<ge> 0
      then if cmp (f pc) (f a) = 0 then scan_down cmp a pb (pc - 1) (pd - 1) True (swap_at pc pd f)
           else scan_down cmp a pb (pc - 1) pd cnt f
      else (pc, pd, cnt, f))"
  by pat_completeness auto
termination by (relation "measure (\<lambda>(cmp, a, pb, pc, _). pc)") auto

declare scan_down.simps [simp del]

lemma scan_up_bounds:
  "scan_up cmp a pa pb pc cnt f = (pa', pb', cnt', f') \<Longrightarrow>
   pa \<le> pa' \<and> pb \<le> pb' \<and> pa' + pb \<le> pa + pb' \<and> pb' \<le> max pb (Suc pc)"
proof (induction cmp a pa pb pc cnt f rule: scan_up.induct)
  case (1 cmp a pa pb pc cnt f)
  show ?case
    using "1.prems" "1.IH" by (subst (asm) scan_up.simps) (fastforce split: if_splits)
qed

lemma scan_down_bounds:
  "scan_down cmp a pb pc pd cnt f = (pc', pd', cnt', f') \<Longrightarrow>
   pc' \<le> pc \<and> pd' \<le> pd \<and> pd + pc' \<le> pd' + pc \<and> min (Suc pc) pb \<le> Suc pc'"
proof (induction cmp a pb pc pd cnt f rule: scan_down.induct)
  case (1 cmp a pb pc pd cnt f)
  show ?case
    using "1.prems" "1.IH" by (subst (asm) scan_down.simps) (fastforce split: if_splits)
qed

text \<open>Where both scans stop before they meet, they stop at different elements.\<close>

lemma scan_up_stop: "scan_up cmp a pa pb pc cnt f = (pa', pb', cnt', f') \<Longrightarrow> pb' \<le> pc \<Longrightarrow> 0 < cmp (f' pb') (f' a)"
proof (induction cmp a pa pb pc cnt f rule: scan_up.induct)
  case (1 cmp a pa pb pc cnt f)
  then show ?case by (subst (asm) (3) scan_up.simps) (auto split: if_splits)
qed

lemma scan_down_stop:
  "scan_down cmp a pb pc pd cnt f = (pc', pd', cnt', f') \<Longrightarrow> pc \<le> pd \<Longrightarrow> 0 < pb \<Longrightarrow>
   (pb \<le> pc' \<longrightarrow> cmp (f' pc') (f' a) < 0) \<and> (\<forall>x \<le> pc'. f' x = f x)"
proof (induction cmp a pb pc pd cnt f rule: scan_down.induct)
  case (1 cmp a pb pc pd cnt f)
  show ?case
  proof (cases "0 < pc \<and> pb \<le> pc \<and> 0 \<le> cmp (f pc) (f a)")
    case True
    show ?thesis
    proof (cases "cmp (f pc) (f a) = 0")
      case eq: True
      have r: "scan_down cmp a pb (pc - 1) (pd - 1) True (swap_at pc pd f) = (pc', pd', cnt', f')"
        using "1.prems"(1) True eq by (subst (asm) scan_down.simps) simp
      from scan_down_bounds [OF r] True "1.prems"(2) have "swap_at pc pd f x = f x" if "x \<le> pc'" for x
        using that by (auto simp: swap_at_def)
      moreover note ih = "1.IH"(1) [OF True eq r diff_le_mono [OF "1.prems"(2)] "1.prems"(3)]
      ultimately show ?thesis using conjunct1 [OF ih] conjunct2 [OF ih] by auto
    next
      case False
      have r: "scan_down cmp a pb (pc - 1) pd cnt f = (pc', pd', cnt', f')"
        using "1.prems"(1) True False by (subst (asm) scan_down.simps) simp
      have "pc - 1 \<le> pd" using "1.prems"(2) by simp
      from "1.IH"(2) [OF True False r this "1.prems"(3)] show ?thesis .
    qed
  qed (use "1.prems" in \<open>subst (asm) scan_down.simps, auto\<close>)
qed

function partition_loop :: "('a \<Rightarrow> 'a \<Rightarrow> int) \<Rightarrow> nat \<Rightarrow> nat \<Rightarrow> nat \<Rightarrow> nat \<Rightarrow> nat \<Rightarrow> bool \<Rightarrow> (nat \<Rightarrow> 'a) \<Rightarrow>
    nat \<times> nat \<times> nat \<times> nat \<times> bool \<times> (nat \<Rightarrow> 'a)" where
  "partition_loop cmp a pa pb pc pd cnt f =
     (case scan_up cmp a pa pb pc cnt f of (pa, pb, cnt, f) \<Rightarrow>
      case scan_down cmp a pb pc pd cnt f of (pc, pd, cnt, f) \<Rightarrow>
      if pb > pc then (pa, pb, pc, pd, cnt, f)
      else partition_loop cmp a pa (pb + 1) (pc - 1) pd True (swap_at pb pc f))"
  by pat_completeness auto
termination
  by (relation "measure (\<lambda>(cmp, a, pa, pb, pc, _). Suc pc - pb)")
    (auto dest!: sym [of _ "scan_up _ _ _ _ _ _ _"] sym [of _ "scan_down _ _ _ _ _ _ _"]
      scan_up_bounds scan_down_bounds)

declare partition_loop.simps [simp del]

lemma partition_loop_bounds:
  assumes "partition_loop cmp a pa pb pc pd cnt f = (pa', pb', pc', pd', cnt', f')"
    and "a < pa" "pa \<le> pb" "pb \<le> Suc pc" "pc \<le> pd"
  shows "a < pa' \<and> pa' \<le> pb' \<and> pb' = Suc pc' \<and> pc' \<le> pd' \<and> pd' \<le> pd \<and> pb' \<le> Suc pd"
  using assms
proof (induction cmp a pa pb pc pd cnt f rule: partition_loop.induct)
  case (1 cmp a pa pb pc pd cnt f)
  obtain pa1 pb1 c1 f1 where u: "scan_up cmp a pa pb pc cnt f = (pa1, pb1, c1, f1)" by (metis prod_cases4)
  obtain pc2 pd2 c2 f2 where d: "scan_down cmp a pb1 pc pd c1 f1 = (pc2, pd2, c2, f2)" by (metis prod_cases4)
  note b = scan_up_bounds [OF u] scan_down_bounds [OF d] "1.prems"(2-)
  show ?case
  proof (cases "pb1 > pc2")
    case True
    then show ?thesis using "1.prems"(1) b
      by (subst (asm) partition_loop.simps) (auto simp: u d)
  next
    case False
    have "pb1 \<noteq> pc2"
      using scan_up_stop [OF u] scan_down_stop [OF d] b False by force
    have "partition_loop cmp a pa1 (pb1 + 1) (pc2 - 1) pd2 True (swap_at pb1 pc2 f2) = (pa', pb', pc', pd', cnt', f')"
      using "1.prems"(1) False by (subst (asm) partition_loop.simps) (simp add: u d)
    note IH = "1.IH" [OF u [symmetric] refl refl d [symmetric] refl refl False this]
    have "a < pa1" "pa1 \<le> pb1 + 1" "pb1 + 1 \<le> Suc (pc2 - 1)" "pc2 - 1 \<le> pd2"
      using b False \<open>pb1 \<noteq> pc2\<close> by linarith+
    from IH [OF this] show ?thesis using b by linarith
  qed
qed

function (sequential) qsort :: "('a \<Rightarrow> 'a \<Rightarrow> int) \<Rightarrow> nat \<Rightarrow> nat \<Rightarrow> (nat \<Rightarrow> 'a) \<Rightarrow> nat \<Rightarrow> 'a" where
  "qsort cmp a n f =
     (if n < 7 then insertion_sort cmp a n f
      else
        (let f = swap_at a (pivot cmp a n f) f in
         case partition_loop cmp a (a + 1) (a + 1) (a + (n - 1)) (a + (n - 1)) False f of
           (pa, pb, pc, pd, cnt, f) \<Rightarrow>
             if \<not> cnt then insertion_sort cmp a n f
             else
               (let pn = a + n;
                    r = min (pa - a) (pb - pa);
                    f = vecswap a (pb - r) r f;
                    r = min (pd - pc) (pn - pd - 1);
                    f = vecswap pb (pn - r) r f;
                    f = (if pb - pa > 1 then qsort cmp a (pb - pa) f else f)
                in if pd - pc > 1 then qsort cmp (pn - (pd - pc)) (pd - pc) f else f)))"
  by pat_completeness auto
termination
  by (relation "measure (\<lambda>(cmp, a, n, f). n)")
    (auto dest!: sym [of _ "partition_loop _ _ _ _ _ _ _ _"] partition_loop_bounds)

declare qsort.simps [simp del]

end
