(* ===== verification/QsortInv.thy ===== *)
theory QsortInv
  imports Qsort
begin

text \<open>
  Correctness of \<open>qsort\<close>: it rearranges (\<open>rearr\<close>) only the elements of the array, the partition
  keeps its four-way invariant (\<open>part\<close>), and the result is ordered.
\<close>

section \<open>Rearrangements\<close>

text \<open>\<open>rearr S f g\<close>: \<open>g\<close> holds the elements of \<open>f\<close>, moved around within the indices \<open>S\<close> only.\<close>

definition rearr :: "nat set \<Rightarrow> (nat \<Rightarrow> 'a) \<Rightarrow> (nat \<Rightarrow> 'a) \<Rightarrow> bool" where
  "rearr S f g \<longleftrightarrow> (\<exists>p. bij p \<and> (\<forall>x. x \<notin> S \<longrightarrow> p x = x) \<and> g = f \<circ> p)"

lemma rearr_refl [simp]: "rearr S f f"
  unfolding rearr_def by (intro exI [of _ id]) simp

lemma rearr_trans [trans]:
  assumes "rearr S f g" and "rearr S g h"
  shows "rearr S f h"
proof -
  obtain p q where "bij p" "\<forall>x. x \<notin> S \<longrightarrow> p x = x" "g = f \<circ> p" "bij q" "\<forall>x. x \<notin> S \<longrightarrow> q x = x" "h = g \<circ> q"
    using assms by (auto simp: rearr_def)
  then show ?thesis
    unfolding rearr_def by (intro exI [of _ "p \<circ> q"]) (simp add: bij_comp comp_assoc)
qed

lemma rearr_mono: "rearr S f g \<Longrightarrow> S \<subseteq> T \<Longrightarrow> rearr T f g"
  unfolding rearr_def by blast

lemma rearr_swap: "i \<in> S \<Longrightarrow> j \<in> S \<Longrightarrow> rearr S f (swap_at i j f)"
  unfolding rearr_def
proof (intro exI conjI)
  let ?p = "\<lambda>x. if x = i then j else if x = j then i else x"
  show "bij ?p" by (rule o_bij [of ?p]) (auto simp: fun_eq_iff)
qed (auto simp: swap_at_def fun_eq_iff)

lemma rearr_outside: "rearr S f g \<Longrightarrow> x \<notin> S \<Longrightarrow> g x = f x"
  by (auto simp: rearr_def)

lemma rearr_all: "rearr S f g \<Longrightarrow> (\<forall>x \<in> S. P (f x)) \<Longrightarrow> x \<in> S \<Longrightarrow> P (g x)"
  unfolding rearr_def by (metis bij_is_inj comp_apply injD)

lemma rearr_mset:
  assumes "rearr {a..<b} f g"
  shows "mset (map g [a..<b]) = mset (map f [a..<b])"
proof -
  obtain p where p: "bij p" "\<And>x. x \<notin> {a..<b} \<Longrightarrow> p x = x" "g = f \<circ> p" using assms by (auto simp: rearr_def)
  have "p ` {a..<b} \<subseteq> {a..<b}"
  proof
    fix y assume "y \<in> p ` {a..<b}"
    then obtain x where "x \<in> {a..<b}" "y = p x" by blast
    then show "y \<in> {a..<b}" using p(2) [of y] bij_is_inj [OF p(1)] by (metis injD)
  qed
  then have "p ` {a..<b} = {a..<b}"
    using endo_inj_surj [of "{a..<b}" p] bij_is_inj [OF p(1)] inj_on_subset by blast
  moreover have "mset (map p [a..<b]) = image_mset p (mset_set {a..<b})"
    by (simp add: mset_upt)
  ultimately have "mset (map p [a..<b]) = mset_set {a..<b}"
    using image_mset_mset_set [of p "{a..<b}"] bij_is_inj [OF p(1)] inj_on_subset by (metis subset_UNIV)
  then have "image_mset f (mset (map p [a..<b])) = image_mset f (mset [a..<b])"
    by (simp add: mset_upt)
  then show ?thesis by (simp add: p(3) image_mset.compositionality)
qed

section \<open>Exchanging blocks\<close>

lemma vecswap_apply:
  assumes "a + n \<le> b"
  shows "vecswap a b n f x = (if a \<le> x \<and> x < a + n then f (b + (x - a))
    else if b \<le> x \<and> x < b + n then f (a + (x - b)) else f x)"
  using assms
proof (induction n arbitrary: a b f)
  case (Suc n)
  have "Suc a \<le> x \<Longrightarrow> Suc (b + x - Suc a) = b + x - a" "Suc b \<le> x \<Longrightarrow> Suc (a + x - Suc b) = a + x - b"
    by simp_all
  then show ?case using Suc by (auto simp: swap_at_def)
qed auto

lemma vecswap_rearr:
  assumes "{a..<a + n} \<subseteq> S" and "{b..<b + n} \<subseteq> S"
  shows "rearr S f (vecswap a b n f)"
  using assms
proof (induction n arbitrary: a b f)
  case (Suc n)
  have "rearr S f (swap_at a b f)" using Suc.prems by (intro rearr_swap) auto
  also have "rearr S (swap_at a b f) (vecswap (a + 1) (b + 1) n (swap_at a b f))"
    using Suc.prems by (intro Suc.IH) (auto simp: subset_iff)
  finally show ?case by simp
qed simp

section \<open>Order\<close>

text \<open>\<open>cmp\<close> compares by \<open>key\<close>, as the interface of \<open>qsort\<close> requires: its sign is the order of the
  keys.\<close>

definition cmp_by :: "('a \<Rightarrow> 'b::linorder) \<Rightarrow> ('a \<Rightarrow> 'a \<Rightarrow> int) \<Rightarrow> bool" where
  "cmp_by key cmp \<longleftrightarrow> (\<forall>x y. (cmp x y < 0 \<longleftrightarrow> key x < key y) \<and> (cmp x y = 0 \<longleftrightarrow> key x = key y))"

lemma cmp_byD:
  assumes "cmp_by key cmp"
  shows "cmp x y < 0 \<longleftrightarrow> key x < key y" "cmp x y = 0 \<longleftrightarrow> key x = key y" "0 < cmp x y \<longleftrightarrow> key y < key x"
    "cmp x y \<le> 0 \<longleftrightarrow> key x \<le> key y" "0 \<le> cmp x y \<longleftrightarrow> key y \<le> key x"
proof -
  have a: "cmp x y < 0 \<longleftrightarrow> key x < key y" and b: "cmp x y = 0 \<longleftrightarrow> key x = key y"
    using assms by (auto simp: cmp_by_def)
  show "cmp x y < 0 \<longleftrightarrow> key x < key y" "cmp x y = 0 \<longleftrightarrow> key x = key y" by (rule a, rule b)
  show "0 < cmp x y \<longleftrightarrow> key y < key x" "cmp x y \<le> 0 \<longleftrightarrow> key x \<le> key y" "0 \<le> cmp x y \<longleftrightarrow> key y \<le> key x"
    using a b by (metis not_less_iff_gr_or_eq, metis order_le_less, metis not_less)
qed

definition ordered :: "('a \<Rightarrow> 'b::linorder) \<Rightarrow> nat \<Rightarrow> nat \<Rightarrow> (nat \<Rightarrow> 'a) \<Rightarrow> bool" where
  "ordered key a b f \<longleftrightarrow> (\<forall>i j. a \<le> i \<longrightarrow> i \<le> j \<longrightarrow> j < b \<longrightarrow> key (f i) \<le> key (f j))"

lemma ordered_Suc:
  assumes "ordered key a b f" and "\<And>i. a \<le> i \<Longrightarrow> i < b \<Longrightarrow> key (f i) \<le> key (f b)"
  shows "ordered key a (Suc b) f"
  unfolding ordered_def
proof (intro allI impI)
  fix i j assume "a \<le> i" "i \<le> j" "j < Suc b"
  then consider "i = j" | "j = b" "i < b" | "j < b" by linarith
  then show "key (f i) \<le> key (f j)"
    using assms \<open>a \<le> i\<close> \<open>i \<le> j\<close> by cases (auto simp: ordered_def)
qed

lemma ordered_single [simp]: "ordered key a (Suc a) f"
  by (rule ordered_Suc) (auto simp: ordered_def)

lemma ordered_cong: "ordered key a b f \<Longrightarrow> (\<And>x. a \<le> x \<Longrightarrow> x < b \<Longrightarrow> g x = f x) \<Longrightarrow> ordered key a b g"
  by (simp add: ordered_def)

text \<open>Three ordered parts whose values increase from part to part.\<close>

lemma ordered_glue:
  assumes "ordered key a b f" "ordered key b c f" and "\<And>i j. a \<le> i \<Longrightarrow> i < b \<Longrightarrow> b \<le> j \<Longrightarrow> j < c \<Longrightarrow> key (f i) \<le> key (f j)"
  shows "ordered key a c f"
  unfolding ordered_def
proof (intro allI impI)
  fix i j assume "a \<le> i" "i \<le> j" "j < c"
  then show "key (f i) \<le> key (f j)"
    using assms by (cases "j < b"; cases "i < b") (auto simp: ordered_def)
qed

section \<open>Insertion sort\<close>

lemma insert_down_rearr: "rearr {a..a + k} f (insert_down cmp a k f)"
proof (induction k arbitrary: f)
  case (Suc k)
  have "rearr {a..a + Suc k} f (swap_at (a + Suc k) (a + k) f)" by (intro rearr_swap) auto
  also have "rearr {a..a + Suc k} (swap_at (a + Suc k) (a + k) f) (insert_down cmp a k (swap_at (a + Suc k) (a + k) f))"
    using Suc by (rule rearr_mono) auto
  finally show ?case by simp
qed simp

lemma insert_down_ordered:
  assumes "cmp_by key cmp" and "ordered key a (a + k) f"
  shows "ordered key a (a + Suc k) (insert_down cmp a k f)"
  using assms(2)
proof (induction k arbitrary: f)
  case 0
  then show ?case by simp
next
  case (Suc k)
  let ?g = "swap_at (a + Suc k) (a + k) f"
  show ?case
  proof (cases "key (f (a + Suc k)) < key (f (a + k))")
    case True
    let ?h = "insert_down cmp a k ?g"
    have "ordered key a (a + k) ?g" using Suc.prems by (auto simp: ordered_def swap_at_def)
    then have o: "ordered key a (a + Suc k) ?h" by (rule Suc.IH)
    have r: "rearr {a..a + k} ?g ?h" by (rule insert_down_rearr)
    have "\<forall>x \<in> {a..a + k}. key (?g x) \<le> key (f (a + k))"
      using Suc.prems True by (auto simp: ordered_def swap_at_def)
    then have "key (?h x) \<le> key (f (a + k))" if "a \<le> x" "x < a + Suc k" for x
      using rearr_all [OF r, of "\<lambda>y. key y \<le> key (f (a + k))"] that by auto
    moreover have "?h (a + Suc k) = f (a + k)"
      using rearr_outside [OF r, of "a + Suc k"] by (simp add: swap_at_def)
    ultimately have "ordered key a (Suc (a + Suc k)) ?h" using o by (intro ordered_Suc) auto
    then show ?thesis using True cmp_byD [OF assms(1)] by simp
  next
    case False
    have "ordered key a (Suc (a + Suc k)) f"
    proof (rule ordered_Suc [OF Suc.prems])
      fix i assume i: "a \<le> i" "i < a + Suc k"
      then have "key (f i) \<le> key (f (a + k))" using Suc.prems by (simp add: ordered_def)
      then show "key (f i) \<le> key (f (a + Suc k))" using False by simp
    qed
    then show ?thesis using False cmp_byD [OF assms(1)] by simp
  qed
qed

lemma insertion_sort_Suc: "0 < n \<Longrightarrow> insertion_sort cmp a (Suc n) f = insert_down cmp a n (insertion_sort cmp a n f)"
  by (simp add: insertion_sort_def)

lemma insertion_sort_correct:
  assumes "cmp_by key cmp"
  shows "ordered key a (a + n) (insertion_sort cmp a n f) \<and> rearr {a..<a + n} f (insertion_sort cmp a n f)"
proof (induction n)
  case 0
  then show ?case by (simp add: insertion_sort_def ordered_def)
next
  case (Suc n)
  show ?case
  proof (cases "n = 0")
    case True
    then show ?thesis by (simp add: insertion_sort_def)
  next
    case False
    let ?g = "insertion_sort cmp a n f"
    have "ordered key a (a + Suc n) (insert_down cmp a n ?g)"
      using insert_down_ordered [OF assms] Suc by blast
    moreover have "rearr {a..<a + Suc n} f ?g" using Suc rearr_mono [of "{a..<a + n}" f ?g "{a..<a + Suc n}"] by auto
    then have "rearr {a..<a + Suc n} f (insert_down cmp a n ?g)"
      using insert_down_rearr [of a n ?g cmp] rearr_mono [of "{a..a + n}" ?g _ "{a..<a + Suc n}"] rearr_trans by fastforce
    ultimately show ?thesis using insertion_sort_Suc False by (metis gr0I)
  qed
qed

section \<open>The partition\<close>

text \<open>While it runs, the elements equal to the pivot collect at both ends, the smaller ones
  behind the first and the greater ones before the last.\<close>

definition part :: "('a \<Rightarrow> 'b::linorder) \<Rightarrow> 'b \<Rightarrow> nat \<Rightarrow> nat \<Rightarrow> nat \<Rightarrow> nat \<Rightarrow> nat \<Rightarrow> nat \<Rightarrow> (nat \<Rightarrow> 'a) \<Rightarrow> bool" where
  "part key v a pa pb pc pd e f \<longleftrightarrow> a < pa \<and> pa \<le> pb \<and> pb \<le> Suc pc \<and> pc \<le> pd \<and> pd \<le> e \<and>
     (\<forall>x. a \<le> x \<longrightarrow> x < pa \<longrightarrow> key (f x) = v) \<and> (\<forall>x. pa \<le> x \<longrightarrow> x < pb \<longrightarrow> key (f x) < v) \<and>
     (\<forall>x. pc < x \<longrightarrow> x \<le> pd \<longrightarrow> v < key (f x)) \<and> (\<forall>x. pd < x \<longrightarrow> x \<le> e \<longrightarrow> key (f x) = v)"

lemma part_pivot: "part key v a pa pb pc pd e f \<Longrightarrow> key (f a) = v"
  by (simp add: part_def)

lemma part_up_eq:
  assumes "part key v a pa pb pc pd e f" and "pb \<le> pc" and "key (f pb) = v"
  shows "part key v a (pa + 1) (pb + 1) pc pd e (swap_at pa pb f)"
  using assms unfolding part_def swap_at_def by (auto simp: less_Suc_eq)

lemma part_up_less:
  assumes "part key v a pa pb pc pd e f" and "pb \<le> pc" and "key (f pb) < v"
  shows "part key v a pa (pb + 1) pc pd e f"
  using assms unfolding part_def by (auto simp: less_Suc_eq)

lemma part_down_eq:
  assumes "part key v a pa pb pc pd e f" and "pb \<le> pc" and "key (f pc) = v"
  shows "part key v a pa pb (pc - 1) (pd - 1) e (swap_at pc pd f)"
proof -
  obtain c d where "pc = Suc c" "pd = Suc d"
    using assms by (cases pc; cases pd) (auto simp: part_def)
  then show ?thesis using assms unfolding part_def swap_at_def
    by (auto simp: Suc_le_eq le_less_Suc_eq dest: Suc_lessI)
qed

lemma part_down_greater:
  assumes "part key v a pa pb pc pd e f" and "pb \<le> pc" and "v < key (f pc)"
  shows "part key v a pa pb (pc - 1) pd e f"
proof -
  have "v < key (f x)" if "pc - 1 < x" "x \<le> pd" for x
    using assms that by (cases "x = pc") (auto simp: part_def)
  then show ?thesis using assms(1,2) unfolding part_def by auto
qed

lemma part_exchange:
  assumes "part key v a pa pb pc pd e f" and "pb < pc" and "v < key (f pb)" and "key (f pc) < v"
  shows "part key v a pa (pb + 1) (pc - 1) pd e (swap_at pb pc f)"
proof -
  obtain c where "pc = Suc c" using assms(2) by (cases pc) auto
  then show ?thesis using assms unfolding part_def swap_at_def
    by (auto simp: less_Suc_eq dest: Suc_lessI)
qed

lemma scan_up_part:
  assumes "cmp_by key cmp" and "scan_up cmp a pa pb pc cnt f = (pa', pb', cnt', f')" and "part key v a pa pb pc pd e f"
  shows "part key v a pa' pb' pc pd e f' \<and> rearr {a..e} f f'"
  using assms
proof (induction cmp a pa pb pc cnt f rule: scan_up.induct)
  case (1 cmp a pa pb pc cnt f)
  note p = part_pivot [OF "1.prems"(3)] and c = cmp_byD [OF "1.prems"(1)]
  show ?case
  proof (cases "pb \<le> pc \<and> cmp (f pb) (f a) \<le> 0")
    case True
    show ?thesis
    proof (cases "cmp (f pb) (f a) = 0")
      case eq: True
      have r: "scan_up cmp a (pa + 1) (pb + 1) pc True (swap_at pa pb f) = (pa', pb', cnt', f')"
        using "1.prems"(2) True eq by (subst (asm) scan_up.simps) simp
      have "part key v a (pa + 1) (pb + 1) pc pd e (swap_at pa pb f)"
        using part_up_eq [OF "1.prems"(3)] True eq p c by simp
      from "1.IH"(1) [OF True eq "1.prems"(1) r this] rearr_swap [of pa "{a..e}" pb f] show ?thesis
        using "1.prems"(3) True by (auto simp: part_def intro: rearr_trans)
    next
      case False
      have r: "scan_up cmp a pa (pb + 1) pc cnt f = (pa', pb', cnt', f')"
        using "1.prems"(2) True False by (subst (asm) scan_up.simps) simp
      have "part key v a pa (pb + 1) pc pd e f"
        using part_up_less [OF "1.prems"(3)] True False p c by (simp add: order_le_less)
      from "1.IH"(2) [OF True False "1.prems"(1) r this] show ?thesis .
    qed
  next
    case False
    then show ?thesis using "1.prems"(2,3) by (subst (asm) scan_up.simps) auto
  qed
qed

lemma scan_down_part:
  assumes "cmp_by key cmp" and "scan_down cmp a pb pc pd cnt f = (pc', pd', cnt', f')" and "part key v a pa pb pc pd e f"
  shows "part key v a pa pb pc' pd' e f' \<and> rearr {a..e} f f'"
  using assms
proof (induction cmp a pb pc pd cnt f rule: scan_down.induct)
  case (1 cmp a pb pc pd cnt f)
  note p = part_pivot [OF "1.prems"(3)] and c = cmp_byD [OF "1.prems"(1)]
  show ?case
  proof (cases "0 < pc \<and> pb \<le> pc \<and> 0 \<le> cmp (f pc) (f a)")
    case True
    show ?thesis
    proof (cases "cmp (f pc) (f a) = 0")
      case eq: True
      have r: "scan_down cmp a pb (pc - 1) (pd - 1) True (swap_at pc pd f) = (pc', pd', cnt', f')"
        using "1.prems"(2) True eq by (subst (asm) scan_down.simps) simp
      have "part key v a pa pb (pc - 1) (pd - 1) e (swap_at pc pd f)"
        using part_down_eq [OF "1.prems"(3)] True eq p c by simp
      from "1.IH"(1) [OF True eq "1.prems"(1) r this] rearr_swap [of pc "{a..e}" pd f] show ?thesis
        using "1.prems"(3) True by (auto simp: part_def intro: rearr_trans)
    next
      case False
      have r: "scan_down cmp a pb (pc - 1) pd cnt f = (pc', pd', cnt', f')"
        using "1.prems"(2) True False by (subst (asm) scan_down.simps) simp
      have "part key v a pa pb (pc - 1) pd e f"
        using part_down_greater [OF "1.prems"(3)] True False p c by (simp add: order_le_less)
      from "1.IH"(2) [OF True False "1.prems"(1) r this] show ?thesis .
    qed
  next
    case False
    then show ?thesis using "1.prems"(2,3) by (subst (asm) scan_down.simps) auto
  qed
qed

lemma partition_loop_part:
  assumes "cmp_by key cmp" and "partition_loop cmp a pa pb pc pd cnt f = (pa', pb', pc', pd', cnt', f')"
    and "part key v a pa pb pc pd e f"
  shows "part key v a pa' pb' pc' pd' e f' \<and> pb' = Suc pc' \<and> rearr {a..e} f f'"
  using assms
proof (induction cmp a pa pb pc pd cnt f rule: partition_loop.induct)
  case (1 cmp a pa pb pc pd cnt f)
  obtain pa1 pb1 c1 f1 where u: "scan_up cmp a pa pb pc cnt f = (pa1, pb1, c1, f1)" by (metis prod_cases4)
  obtain pc2 pd2 c2 f2 where d: "scan_down cmp a pb1 pc pd c1 f1 = (pc2, pd2, c2, f2)" by (metis prod_cases4)
  note p1 = scan_up_part [OF "1.prems"(1) u "1.prems"(3)]
  note p2 = scan_down_part [OF "1.prems"(1) d conjunct1 [OF p1]]
  have r2: "rearr {a..e} f f2" using p1 p2 rearr_trans by blast
  show ?case
  proof (cases "pb1 > pc2")
    case True
    then show ?thesis using "1.prems"(2) p2 r2
      by (subst (asm) partition_loop.simps) (auto simp: u d part_def)
  next
    case False
    have b: "a < pb1" "pc \<le> pd" "pc2 \<le> e" "pc2 \<le> pc" using p1 p2 scan_down_bounds [OF d] by (auto simp: part_def)
    then have lt: "cmp (f2 pc2) (f2 a) < 0" "\<forall>x \<le> pc2. f2 x = f1 x"
      using scan_down_stop [OF d] False by auto
    have gt: "0 < cmp (f1 pb1) (f1 a)" using scan_up_stop [OF u] b False by simp
    have eq: "f1 pb1 = f2 pb1" "f1 a = f2 a" using lt(2) b False by auto
    then have "pb1 \<noteq> pc2" using lt(1) gt by auto
    then have "part key v a pa1 (pb1 + 1) (pc2 - 1) pd2 e (swap_at pb1 pc2 f2)"
      using part_exchange [of key v a pa1 pb1 pc2 pd2 e f2] p2 lt(1) gt eq False
        cmp_byD [OF "1.prems"(1)] part_pivot [of key v a pa1 pb1 pc2 pd2 e f2] by simp
    moreover have "partition_loop cmp a pa1 (pb1 + 1) (pc2 - 1) pd2 True (swap_at pb1 pc2 f2) = (pa', pb', pc', pd', cnt', f')"
      using "1.prems"(2) False by (subst (asm) partition_loop.simps) (simp add: u d)
    ultimately have "part key v a pa' pb' pc' pd' e f' \<and> pb' = Suc pc' \<and> rearr {a..e} (swap_at pb1 pc2 f2) f'"
      using "1.IH" [OF u [symmetric] refl refl d [symmetric] refl refl False "1.prems"(1)] by blast
    moreover have "rearr {a..e} f2 (swap_at pb1 pc2 f2)" using b False by (intro rearr_swap) auto
    ultimately show ?thesis using r2 rearr_trans by blast
  qed
qed

section \<open>Quicksort\<close>

lemma med3_in: "x \<in> S \<Longrightarrow> y \<in> S \<Longrightarrow> z \<in> S \<Longrightarrow> med3 cmp f x y z \<in> S"
  by (simp add: med3_def)

lemma pivot_range:
  assumes "7 \<le> n"
  shows "pivot cmp a n f \<in> {a..<a + n}"
proof -
  have "8 * (n div 8) \<le> n" "2 * (n div 2) \<le> n" "n < 2 * (n div 2) + 2" by simp_all
  then have "a + n div 2 - n div 8 \<in> {a..<a + n}" "a + n div 2 + n div 8 \<in> {a..<a + n}"
    "a + n div 8 \<in> {a..<a + n}" "a + 2 * (n div 8) \<in> {a..<a + n}" "a + (n - 1) - 2 * (n div 8) \<in> {a..<a + n}"
    "a + (n - 1) - n div 8 \<in> {a..<a + n}" "a + n div 2 \<in> {a..<a + n}" "a + (n - 1) \<in> {a..<a + n}" "a \<in> {a..<a + n}"
    using assms unfolding atLeastLessThan_iff by linarith+
  then show ?thesis
    using assms unfolding pivot_def Let_def by (auto intro!: med3_in [of _ "{a..<a + n}"] simp del: atLeastLessThan_iff)
qed

text \<open>The block exchange after the partition: two neighbouring blocks change places.\<close>

lemma vecswap_blocks:
  assumes "a \<le> b" "b \<le> c" and P: "\<And>x. a \<le> x \<Longrightarrow> x < b \<Longrightarrow> P (f x)" and Q: "\<And>x. b \<le> x \<Longrightarrow> x < c \<Longrightarrow> Q (f x)"
    and r: "r = min (b - a) (c - b)"
  shows "\<And>x. a \<le> x \<Longrightarrow> x < a + (c - b) \<Longrightarrow> Q (vecswap a (c - r) r f x)"
    and "\<And>x. a + (c - b) \<le> x \<Longrightarrow> x < c \<Longrightarrow> P (vecswap a (c - r) r f x)"
    and "rearr {a..<c} f (vecswap a (c - r) r f)"
proof -
  have "r \<le> b - a" "r \<le> c - b" "r = b - a \<or> r = c - b" using r by auto
  then have le: "a + r \<le> c - r" "c - r + r = c" and r': "r = b - a \<or> r = c - b" using assms(1,2) by linarith+
  note v = vecswap_apply [OF le(1), of f]
  show "Q (vecswap a (c - r) r f x)" if "a \<le> x" "x < a + (c - b)" for x
  proof (cases "x < a + r")
    case True
    then show ?thesis using that Q [of "c - r + (x - a)"] le assms(1,2) r' unfolding v by auto
  next
    case False
    then show ?thesis using that Q [of x] le assms(1,2) r' unfolding v by (auto split: if_splits)
  qed
  show "P (vecswap a (c - r) r f x)" if "a + (c - b) \<le> x" "x < c" for x
  proof (cases "c - r \<le> x")
    case True
    then show ?thesis using that P [of "a + (x - (c - r))"] le assms(1,2) r' unfolding v by auto
  next
    case False
    then show ?thesis using that P [of x] le assms(1,2) r' unfolding v by (auto split: if_splits)
  qed
  show "rearr {a..<c} f (vecswap a (c - r) r f)"
    using le by (intro vecswap_rearr) auto
qed

lemma ordered_three:
  assumes "ordered key a b f" "ordered key c d f" and "b \<le> c"
    and "\<And>x. a \<le> x \<Longrightarrow> x < b \<Longrightarrow> key (f x) < v" "\<And>x. b \<le> x \<Longrightarrow> x < c \<Longrightarrow> key (f x) = v"
    and "\<And>x. c \<le> x \<Longrightarrow> x < d \<Longrightarrow> v < key (f x)"
  shows "ordered key a d f"
proof (rule ordered_glue [OF assms(1)])
  show "ordered key b d f"
    by (rule ordered_glue [of _ b c]) (use assms in \<open>auto simp: ordered_def intro: less_imp_le\<close>)
  show "key (f i) \<le> key (f j)" if "a \<le> i" "i < b" "b \<le> j" "j < d" for i j
    using assms(4) [of i] assms(5) [of j] assms(6) [of j] that
    by (cases "j < c") (auto intro: less_imp_le less_trans)
qed

text \<open>What the partition and the block exchanges leave for the two recursive calls.\<close>

lemma partition_blocks:
  assumes cmp: "cmp_by key cmp" and n: "7 \<le> n"
    and p: "partition_loop cmp a (a + 1) (a + 1) (a + (n - 1)) (a + (n - 1)) False f = (pa, pb, pc, pd, cnt, g)"
    and h: "h = vecswap pb (a + n - r2) r2 (vecswap a (pb - r1) r1 g)"
    and r: "r1 = min (pa - a) (pb - pa)" "r2 = min (pd - pc) (a + n - pd - 1)"
  shows "\<exists>v. (\<forall>x. a \<le> x \<longrightarrow> x < a + (pb - pa) \<longrightarrow> key (h x) < v) \<and>
    (\<forall>x. a + (pb - pa) \<le> x \<longrightarrow> x < a + n - (pd - pc) \<longrightarrow> key (h x) = v) \<and>
    (\<forall>x. a + n - (pd - pc) \<le> x \<longrightarrow> x < a + n \<longrightarrow> v < key (h x)) \<and>
    a + (pb - pa) \<le> a + n - (pd - pc) \<and> pd - pc \<le> n \<and> rearr {a..<a + n} f h"
proof -
  let ?v = "key (f a)" and ?e = "a + (n - 1)"
  have "part key ?v a (a + 1) (a + 1) ?e ?e ?e f" using n by (auto simp: part_def less_Suc_eq_le dest: le_antisym)
  from partition_loop_part [OF cmp p this] have pt: "part key ?v a pa pb pc pd ?e g" "pb = Suc pc" "rearr {a..?e} f g"
    by auto
  let ?g1 = "vecswap a (pb - r1) r1 g"
  have b: "a \<le> pa" "pa \<le> pb" "pb \<le> Suc pd" "Suc pd \<le> a + n" using pt(1,2) n by (auto simp: part_def)
  have v: "\<And>x. a \<le> x \<Longrightarrow> x < pa \<Longrightarrow> key (g x) = ?v" "\<And>x. pa \<le> x \<Longrightarrow> x < pb \<Longrightarrow> key (g x) < ?v"
    "\<And>x. pb \<le> x \<Longrightarrow> x < Suc pd \<Longrightarrow> ?v < key (g x)" "\<And>x. Suc pd \<le> x \<Longrightarrow> x < a + n \<Longrightarrow> key (g x) = ?v"
    using pt(1,2) by (simp_all add: part_def)
  have l: "\<And>x. a \<le> x \<Longrightarrow> x < a + (pb - pa) \<Longrightarrow> key (?g1 x) < ?v" "\<And>x. a + (pb - pa) \<le> x \<Longrightarrow> x < pb \<Longrightarrow> key (?g1 x) = ?v"
    and r1: "rearr {a..<pb} g ?g1"
    using vecswap_blocks [where P = "\<lambda>y. key y = ?v" and Q = "\<lambda>y. key y < ?v" and f = g, OF b(1,2) v(1,2) r(1)] by blast+
  have up: "?g1 x = g x" if "pb \<le> x" for x using rearr_outside [OF r1, of x] that by simp
  have r2': "r2 = min (Suc pd - pb) (a + n - Suc pd)" using r(2) pt(2) by simp
  have w: "\<And>x. pb \<le> x \<Longrightarrow> x < Suc pd \<Longrightarrow> ?v < key (?g1 x)" "\<And>x. Suc pd \<le> x \<Longrightarrow> x < a + n \<Longrightarrow> key (?g1 x) = ?v"
    using v(3,4) up b(3) by simp_all
  have m: "pb + (a + n - Suc pd) = a + n - (pd - pc)" using b pt(2) by simp
  have u: "\<And>x. pb \<le> x \<Longrightarrow> x < a + n - (pd - pc) \<Longrightarrow> key (h x) = ?v" "\<And>x. a + n - (pd - pc) \<le> x \<Longrightarrow> x < a + n \<Longrightarrow> ?v < key (h x)"
    and r2: "rearr {pb..<a + n} ?g1 h"
    using vecswap_blocks [where P = "\<lambda>y. ?v < key y" and Q = "\<lambda>y. key y = ?v" and f = ?g1, OF b(3,4) w r2']
    unfolding h m [symmetric] by blast+
  have low: "h x = ?g1 x" if "x < pb" for x using rearr_outside [OF r2, of x] that by simp
  have "{a..?e} = {a..<a + n}" using n by auto
  then have "rearr {a..<a + n} f g" using pt(3) by simp
  also have "rearr {a..<a + n} g ?g1" using r1 by (rule rearr_mono) (use b in auto)
  also have "rearr {a..<a + n} ?g1 h" using r2 by (rule rearr_mono) (use b in auto)
  finally have "rearr {a..<a + n} f h" .
  moreover have "key (h x) = ?v" if "a + (pb - pa) \<le> x" "x < a + n - (pd - pc)" for x
    using that l(2) [of x] u(1) [of x] low [of x] by (cases "x < pb") auto
  moreover have "key (h x) < ?v" if "a \<le> x" "x < a + (pb - pa)" for x
    using that l(1) [of x] low [of x] b by simp
  ultimately show ?thesis using u(2) b m pt(2) by (intro exI [of _ ?v]) auto
qed

text \<open>The last step: both outer blocks are sorted in place.\<close>

lemma finish_blocks:
  assumes low: "\<forall>x. a \<le> x \<longrightarrow> x < a + k \<longrightarrow> key (h x) < v" and mid: "\<forall>x. a + k \<le> x \<longrightarrow> x < c \<longrightarrow> key (h x) = v"
    and high: "\<forall>x. c \<le> x \<longrightarrow> x < a + n \<longrightarrow> v < key (h x)" and "a + k \<le> c" "c \<le> a + n"
    and g: "ordered key a (a + k) g" "rearr {a..<a + k} h g"
    and s: "ordered key c (a + n) s" "rearr {c..<a + n} g s"
  shows "ordered key a (a + n) s \<and> rearr {a..<a + n} h s"
proof -
  have gx: "g x = h x" if "a + k \<le> x" for x using rearr_outside [OF g(2), of x] that by simp
  have sx: "s x = g x" if "x < c" for x using rearr_outside [OF s(2), of x] that by simp
  have "key (g x) < v" if "a \<le> x" "x < a + k" for x
    using rearr_all [OF g(2), of "\<lambda>y. key y < v" x] low that by simp
  then have 1: "key (s x) < v" if "a \<le> x" "x < a + k" for x using sx [of x] that assms(4) by simp
  have 2: "key (s x) = v" if "a + k \<le> x" "x < c" for x using sx [of x] gx [of x] mid that by simp
  have "\<forall>x \<in> {c..<a + n}. v < key (g x)" using gx high assms(4) by simp
  then have 3: "v < key (s x)" if "c \<le> x" "x < a + n" for x
    using rearr_all [OF s(2), of "\<lambda>y. v < key y" x] that by simp
  have "ordered key a (a + k) s" by (rule ordered_cong [OF g(1)]) (use sx assms(4) in simp)
  then have "ordered key a (a + n) s"
    by (rule ordered_three [OF _ s(1) assms(4), of a v]) (use 1 2 3 in simp_all)
  moreover have "rearr {a..<a + n} h g" by (rule rearr_mono [OF g(2)]) (use assms(4,5) in auto)
  moreover have "rearr {a..<a + n} g s" by (rule rearr_mono [OF s(2)]) (use assms(4) in auto)
  ultimately show ?thesis using rearr_trans by blast
qed

lemma qsort_correct:
  assumes "cmp_by key cmp"
  shows "ordered key a (a + n) (qsort cmp a n f) \<and> rearr {a..<a + n} f (qsort cmp a n f)"
proof (induction n arbitrary: a f rule: less_induct)
  case (less n)
  show ?case
  proof (cases "n < 7")
    case True
    then show ?thesis using insertion_sort_correct [OF assms] by (simp add: qsort.simps)
  next
    case False
    let ?f = "swap_at a (pivot cmp a n f) f"
    obtain pa pb pc pd cnt g where p: "partition_loop cmp a (a + 1) (a + 1) (a + (n - 1)) (a + (n - 1)) False ?f = (pa, pb, pc, pd, cnt, g)"
      by (metis prod_cases6)
    have f: "rearr {a..<a + n} f ?f" using pivot_range [of n cmp a f] False by (intro rearr_swap) auto
    show ?thesis
    proof (cases cnt)
      case False
      have "rearr {a..a + (n - 1)} ?f g"
        using partition_loop_part [OF assms p, of "key (?f a)" "a + (n - 1)"] \<open>\<not> n < 7\<close>
        by (auto simp: part_def less_Suc_eq_le dest: le_antisym)
      then have "rearr {a..<a + n} ?f g" by (rule rearr_mono) (use \<open>\<not> n < 7\<close> in auto)
      moreover have "qsort cmp a n f = insertion_sort cmp a n g"
        using False \<open>\<not> n < 7\<close> p by (subst qsort.simps) (simp add: Let_def)
      ultimately show ?thesis
        using insertion_sort_correct [OF assms, of a n g] f rearr_trans [of "{a..<a + n}"] by metis
    next
      case True
      define r1 r2 where "r1 = min (pa - a) (pb - pa)" and "r2 = min (pd - pc) (a + n - pd - 1)"
      define h where "h = vecswap pb (a + n - r2) r2 (vecswap a (pb - r1) r1 g)"
      define g2 where "g2 = (if pb - pa > 1 then qsort cmp a (pb - pa) h else h)"
      define s where "s = (if pd - pc > 1 then qsort cmp (a + n - (pd - pc)) (pd - pc) g2 else g2)"
      have q: "qsort cmp a n f = s"
        using False True p by (subst qsort.simps) (simp add: Let_def s_def g2_def h_def r1_def r2_def)
      obtain v where v: "\<forall>x. a \<le> x \<longrightarrow> x < a + (pb - pa) \<longrightarrow> key (h x) < v"
        "\<forall>x. a + (pb - pa) \<le> x \<longrightarrow> x < a + n - (pd - pc) \<longrightarrow> key (h x) = v"
        "\<forall>x. a + n - (pd - pc) \<le> x \<longrightarrow> x < a + n \<longrightarrow> v < key (h x)"
        "a + (pb - pa) \<le> a + n - (pd - pc)" "pd - pc \<le> n" "rearr {a..<a + n} ?f h"
        using partition_blocks [OF assms _ p h_def r1_def r2_def] False by auto
      have b: "pb - pa < n" "pd - pc < n"
        using partition_loop_bounds [OF p] False by auto
      have sm: "ordered key x (x + m) w" if "\<not> m > 1" for x m w
        using that ordered_single [of key x w] by (cases "m = 0") (auto simp: ordered_def)
      have 2: "ordered key a (a + (pb - pa)) g2 \<and> rearr {a..<a + (pb - pa)} h g2"
        using less.IH [OF b(1), of a h] sm [of "pb - pa" a h]
        by (cases "pb - pa > 1") (simp_all only: g2_def if_True if_False rearr_refl simp_thms)
      have 3: "ordered key (a + n - (pd - pc)) (a + n) s \<and> rearr {a + n - (pd - pc)..<a + n} g2 s"
      proof -
        have e: "a + n - (pd - pc) + (pd - pc) = a + n" using b(2) by simp
        show ?thesis
          using less.IH [OF b(2), of "a + n - (pd - pc)" g2] sm [of "pd - pc" "a + n - (pd - pc)" g2]
          unfolding e by (cases "pd - pc > 1") (simp_all only: s_def if_True if_False rearr_refl simp_thms)
      qed
      have "ordered key a (a + n) s \<and> rearr {a..<a + n} h s"
        using finish_blocks [OF v(1-4) _ conjunct1 [OF 2] conjunct2 [OF 2] conjunct1 [OF 3] conjunct2 [OF 3]] by simp
      then show ?thesis unfolding q using f v(6) rearr_trans by blast
    qed
  qed
qed

section \<open>Properties\<close>

text \<open>
  C22. \<open>qsort\<close> ends on every array and every comparison function, and when the function compares
  by a key it sorts: afterwards the keys of the \<open>n\<close> elements ascend, the elements are those of
  before, and nothing outside the array is touched.
\<close>

theorem qsort_sorts:
  assumes "cmp_by key cmp"
  shows "sorted (map (\<lambda>i. key (qsort cmp a n f i)) [a..<a + n]) \<and>
    mset (map (qsort cmp a n f) [a..<a + n]) = mset (map f [a..<a + n]) \<and>
    (\<forall>x. x < a \<or> a + n \<le> x \<longrightarrow> qsort cmp a n f x = f x)"
proof -
  have q: "ordered key a (a + n) (qsort cmp a n f)" "rearr {a..<a + n} f (qsort cmp a n f)"
    using qsort_correct [OF assms] by auto
  have "sorted (map (\<lambda>i. key (qsort cmp a n f i)) [a..<a + n])"
    using q(1) by (auto simp: ordered_def sorted_iff_nth_mono)
  then show ?thesis using rearr_mset [OF q(2)] rearr_outside [OF q(2)] by auto
qed

theorem qsort_sorts_witness:
  "sorted (map (\<lambda>i. qsort (\<lambda>x y. x - y) 3 100 (\<lambda>i. int (i * 37 mod 101)) i) [3..<3 + 100])"
proof -
  have "cmp_by (\<lambda>x. x) (\<lambda>x y. x - y :: int)" by (auto simp: cmp_by_def)
  from qsort_sorts [OF this, of 3 100 "\<lambda>i. int (i * 37 mod 101)"] show ?thesis by blast
qed

end
