(* ===== verification/Region.thy ===== *)
theory Region
  imports Prelude
begin

text \<open>
  The clipping regions of the window server, \<^verbatim>\<open>srv/window/Region.cpp\<close> and \<open>Rect.h\<close>. A region is
  its array of rectangles and the nesting level of operations; the rectangles are joined when
  the outermost operation ends. Coordinates are mathematical integers: they are at most
  \<open>COORD_MAX = 0x7ffffff0\<close> in size, which leaves room for the single steps the code takes past an
  edge. The array is a list, so \<open>AllocSpace\<close> has no counterpart, and the reference to the
  rectangle being split in \<open>Exclude\<close> reads the rectangle as it was.
\<close>

section \<open>Rectangles\<close>

record rect =
  rleft :: int
  rtop :: int
  rright :: int
  rbottom :: int

definition Rect :: "int \<Rightarrow> int \<Rightarrow> int \<Rightarrow> int \<Rightarrow> rect" where
  "Rect l t r b = \<lparr>rleft = l, rtop = t, rright = r, rbottom = b\<rparr>"

definition InsetBy :: "int \<Rightarrow> int \<Rightarrow> rect \<Rightarrow> rect" where
  "InsetBy h v r = Rect (rleft r + h) (rtop r + v) (rright r - h) (rbottom r - v)"

definition OffsetBy :: "int \<Rightarrow> int \<Rightarrow> rect \<Rightarrow> rect" where
  "OffsetBy h v r = Rect (rleft r + h) (rtop r + v) (rright r + h) (rbottom r + v)"

definition OffsetTo :: "int \<Rightarrow> int \<Rightarrow> rect \<Rightarrow> rect" where
  "OffsetTo h v r = Rect h v (rright r + (h - rleft r)) (rbottom r + (v - rtop r))"

definition Intersects :: "rect \<Rightarrow> rect \<Rightarrow> bool" where
  "Intersects a b \<longleftrightarrow> max (rleft a) (rleft b) \<le> min (rright a) (rright b) \<and>
     max (rtop a) (rtop b) \<le> min (rbottom a) (rbottom b)"

definition Valid :: "rect \<Rightarrow> bool" where
  "Valid r \<longleftrightarrow> rright r \<ge> rleft r \<and> rbottom r \<ge> rtop r"

definition Width :: "rect \<Rightarrow> int" where
  "Width r = rright r - rleft r"

definition Height :: "rect \<Rightarrow> int" where
  "Height r = rbottom r - rtop r"

definition Contains :: "int \<Rightarrow> int \<Rightarrow> rect \<Rightarrow> bool" where
  "Contains x y r \<longleftrightarrow> x \<ge> rleft r \<and> x \<le> rright r \<and> y \<ge> rtop r \<and> y \<le> rbottom r"

definition Contains_rect :: "rect \<Rightarrow> rect \<Rightarrow> bool" where
  "Contains_rect r rect \<longleftrightarrow> rleft rect \<ge> rleft r \<and> rright rect \<le> rright r \<and>
     rtop rect \<ge> rtop r \<and> rbottom rect \<le> rbottom r"

definition Intersect :: "rect \<Rightarrow> rect \<Rightarrow> rect" where
  "Intersect r a = Rect (max (rleft r) (rleft a)) (max (rtop r) (rtop a))
     (min (rright r) (rright a)) (min (rbottom r) (rbottom a))"

section \<open>Regions\<close>

abbreviation (input) COORD_MAX :: int where "COORD_MAX \<equiv> 0x7ffffff0"

record region =
  fRects :: "rect list"
  fOpLevel :: int

definition Region :: region where
  "Region = \<lparr>fRects = [], fOpLevel = 0\<rparr>"

definition SetTo :: "region \<Rightarrow> region \<Rightarrow> region" where
  "SetTo copyRegion r = r\<lparr>fRects := fRects copyRegion\<rparr>"

definition Bounds :: "region \<Rightarrow> rect" where
  "Bounds r = fold (\<lambda>rect b. Rect (min (rleft b) (rleft rect)) (min (rtop b) (rtop rect))
       (max (rright b) (rright rect)) (max (rbottom b) (rbottom rect)))
     (fRects r) (Rect COORD_MAX COORD_MAX (- COORD_MAX) (- COORD_MAX))"

definition AddRect :: "rect \<Rightarrow> region \<Rightarrow> region" where
  "AddRect rect r = r\<lparr>fRects := fRects r @ [rect]\<rparr>"

definition remove_nth :: "nat \<Rightarrow> 'a list \<Rightarrow> 'a list" where
  "remove_nth i xs = take i xs @ drop (Suc i) xs"

definition RemoveRect :: "nat \<Rightarrow> region \<Rightarrow> region" where
  "RemoveRect index r = r\<lparr>fRects := remove_nth index (fRects r)\<rparr>"

definition AddRegionRects :: "region \<Rightarrow> region \<Rightarrow> region" where
  "AddRegionRects region r = fold AddRect (fRects region) r"

text \<open>\<open>Consolidate\<close>: one step of the inner loop for the rectangles \<open>i < j\<close>, the inner loop, which
  runs downwards, and the outer loop.\<close>

definition join_rects :: "rect \<Rightarrow> rect \<Rightarrow> rect option" where
  "join_rects rect1 rect2 =
     (if rtop rect1 = rtop rect2 \<and> rbottom rect1 = rbottom rect2
      then if rright rect1 + 1 = rleft rect2 then Some (rect1\<lparr>rright := rright rect2\<rparr>)
           else if rright rect2 + 1 = rleft rect1 then Some (rect1\<lparr>rleft := rleft rect2\<rparr>)
           else None
      else if rleft rect1 = rleft rect2 \<and> rright rect1 = rright rect2
      then if rtop rect1 = rbottom rect2 + 1 then Some (rect1\<lparr>rtop := rtop rect2\<rparr>)
           else if rbottom rect1 + 1 = rtop rect2 then Some (rect1\<lparr>rbottom := rbottom rect2\<rparr>)
           else None
      else None)"

fun consolidate_inner :: "nat \<Rightarrow> nat \<Rightarrow> rect list \<Rightarrow> rect list" where
  "consolidate_inner i j rs =
     (if j > i
      then consolidate_inner i (j - 1)
        (case join_rects (rs ! i) (rs ! j) of
           None \<Rightarrow> rs
         | Some rect \<Rightarrow> remove_nth j (rs[i := rect]))
      else rs)"

declare consolidate_inner.simps [simp del]

lemma length_remove_nth [simp]: "i < length xs \<Longrightarrow> length (remove_nth i xs) = length xs - 1"
  by (simp add: remove_nth_def)

lemma remove_nth_length_le: "length (remove_nth i xs) \<le> length xs"
  by (simp add: remove_nth_def min_def)

lemma consolidate_inner_length: "length (consolidate_inner i j rs) \<le> length rs"
proof (induction i j rs rule: consolidate_inner.induct)
  case (1 i j rs)
  show ?case
  proof (cases "j > i")
    case True
    have "length (case join_rects (rs ! i) (rs ! j) of None \<Rightarrow> rs | Some rect \<Rightarrow> remove_nth j (rs[i := rect])) \<le> length rs"
      using remove_nth_length_le [of j "rs[i := r]" for r] by (auto split: option.split)
    then show ?thesis using 1 [OF True] True by (subst consolidate_inner.simps) simp
  qed (simp add: consolidate_inner.simps)
qed

function consolidate_outer :: "nat \<Rightarrow> rect list \<Rightarrow> rect list" where
  "consolidate_outer i rs =
     (if i < length rs then consolidate_outer (Suc i) (consolidate_inner i (length rs - 1) rs) else rs)"
  by pat_completeness auto
termination
proof (relation "measure (\<lambda>(i, rs). length rs - i)")
  fix i :: nat and rs :: "rect list"
  assume "i < length rs"
  then show "((Suc i, consolidate_inner i (length rs - 1) rs), i, rs) \<in> measure (\<lambda>(i, rs). length rs - i)"
    using consolidate_inner_length [of i "length rs - 1" rs] by simp
qed simp

declare consolidate_outer.simps [simp del]

definition Consolidate :: "region \<Rightarrow> region" where
  "Consolidate r = r\<lparr>fRects := consolidate_outer 0 (fRects r)\<rparr>"

definition BeginOperation :: "region \<Rightarrow> region" where
  "BeginOperation r = r\<lparr>fOpLevel := fOpLevel r + 1\<rparr>"

definition EndOperation :: "region \<Rightarrow> region" where
  "EndOperation r =
     (let r = r\<lparr>fOpLevel := fOpLevel r - 1\<rparr> in if fOpLevel r = 0 then Consolidate r else r)"

text \<open>\<open>Exclude\<close>: the pieces of a rectangle around the excluded one, each added if it passes
  \<open>SPLIT_TEST\<close>, and the loop over the rectangles present at the start.\<close>

definition SPLIT_TEST :: "rect \<Rightarrow> rect \<Rightarrow> bool" where
  "SPLIT_TEST rect1 rect2 \<longleftrightarrow>
     max (rleft rect1) (rleft rect2) < min (rright rect1) (rright rect2) \<and>
     max (rtop rect1) (rtop rect2) < min (rbottom rect1) (rbottom rect2)"

definition quads :: "rect \<Rightarrow> rect \<Rightarrow> rect list" where
  "quads excludeRect clipRect =
     [Rect (rleft clipRect) (rtop clipRect) (rleft excludeRect - 1) (rtop excludeRect - 1),
      Rect (rleft excludeRect) (rtop clipRect) (rright excludeRect) (rtop excludeRect - 1),
      Rect (rright excludeRect + 1) (rtop clipRect) (rright clipRect) (rtop excludeRect - 1),
      Rect (rleft clipRect) (rtop excludeRect) (rleft excludeRect - 1) (rbottom excludeRect),
      Rect (rright excludeRect + 1) (rtop excludeRect) (rright clipRect) (rbottom excludeRect),
      Rect (rleft clipRect) (rbottom excludeRect + 1) (rleft excludeRect - 1) (rbottom clipRect),
      Rect (rleft excludeRect) (rbottom excludeRect + 1) (rright excludeRect) (rbottom clipRect),
      Rect (rright excludeRect + 1) (rbottom excludeRect + 1) (rright clipRect) (rbottom clipRect)]"

definition split_rect :: "rect \<Rightarrow> rect \<Rightarrow> rect list" where
  "split_rect excludeRect clipRect =
     map (\<lambda>quad. Intersect quad clipRect) (filter (SPLIT_TEST clipRect) (quads excludeRect clipRect))"

function exclude_loop :: "rect \<Rightarrow> nat \<Rightarrow> nat \<Rightarrow> rect list \<Rightarrow> rect list" where
  "exclude_loop excludeRect index rectsToCheck rs =
     (if index < rectsToCheck
      then if \<not> Intersects excludeRect (rs ! index)
           then exclude_loop excludeRect (index + 1) rectsToCheck rs
           else exclude_loop excludeRect index (rectsToCheck - 1)
                  (remove_nth index (rs @ split_rect excludeRect (rs ! index)))
      else rs)"
  by pat_completeness auto
termination by (relation "measure (\<lambda>(ex, i, n, rs). n - i)") auto

declare exclude_loop.simps [simp del]

definition Exclude :: "rect \<Rightarrow> region \<Rightarrow> region" where
  "Exclude excludeRect r =
     (let r = BeginOperation r;
          r = r\<lparr>fRects := exclude_loop excludeRect 0 (length (fRects r)) (fRects r)\<rparr>
      in EndOperation r)"

definition Include :: "rect \<Rightarrow> region \<Rightarrow> region" where
  "Include rect r =
     (let r = BeginOperation r;
          temp = fold Exclude (fRects r) (AddRect rect Region)
      in EndOperation (AddRegionRects temp r))"

definition Include_region :: "region \<Rightarrow> region \<Rightarrow> region" where
  "Include_region region r = EndOperation (fold Include (fRects region) (BeginOperation r))"

definition Clear :: "region \<Rightarrow> region" where
  "Clear r = r\<lparr>fRects := []\<rparr>"

text \<open>\<open>ConstrainTo\<close> runs from the last rectangle to the first, so that removing one does not
  disturb the rest.\<close>

definition constrain_step :: "rect \<Rightarrow> nat \<Rightarrow> rect list \<Rightarrow> rect list" where
  "constrain_step rect i rs =
     (let c = Intersect rect (rs ! i); rs = rs[i := c] in if \<not> Valid c then remove_nth i rs else rs)"

definition ConstrainTo :: "rect \<Rightarrow> region \<Rightarrow> region" where
  "ConstrainTo rect r =
     (let r = BeginOperation r;
          r = r\<lparr>fRects := fold (constrain_step rect) (rev [0..<length (fRects r)]) (fRects r)\<rparr>
      in EndOperation r)"

definition Translate :: "int \<Rightarrow> int \<Rightarrow> region \<Rightarrow> region" where
  "Translate x y r = r\<lparr>fRects := map (OffsetBy x y) (fRects r)\<rparr>"

definition Intersect_region :: "region \<Rightarrow> region \<Rightarrow> region" where
  "Intersect_region intersectRegion r =
     (let r = BeginOperation r;
          newRegion = fold (\<lambda>a. fold (\<lambda>b n. if Intersects a b then AddRect (Intersect a b) n else n)
             (fRects intersectRegion)) (fRects r) Region
      in EndOperation (SetTo newRegion r))"

definition Invert :: "region \<Rightarrow> region" where
  "Invert r =
     (let r = BeginOperation r;
          temp = Include (Rect (- COORD_MAX) (- COORD_MAX) COORD_MAX COORD_MAX) Region;
          temp = fold Exclude (fRects r) temp
      in EndOperation (SetTo temp r))"

definition Exclude_region :: "region \<Rightarrow> region \<Rightarrow> region" where
  "Exclude_region ex r =
     (let r = BeginOperation r;
          temp = Invert (SetTo ex Region)
      in EndOperation (Intersect_region temp r))"

definition FindRect :: "int \<Rightarrow> int \<Rightarrow> region \<Rightarrow> rect option" where
  "FindRect x y r = find (Contains x y) (fRects r)"

end
