(* ===== verification/RegionInv.thy ===== *)
theory RegionInv
  imports Region
begin

text \<open>
  Correctness of the regions: the set of points a list of rectangles covers (\<open>rpts\<close>), the
  invariant that the rectangles are valid and do not overlap (\<open>wf_rects\<close>), and what each
  operation does to both.
\<close>

section \<open>The points of a region\<close>

definition pts :: "rect \<Rightarrow> (int \<times> int) set" where
  "pts r = {(x, y). Contains x y r}"

definition rpts :: "rect list \<Rightarrow> (int \<times> int) set" where
  "rpts rs = (\<Union>r \<in> set rs. pts r)"

text \<open>A region is well formed when its rectangles are valid and do not overlap.\<close>

definition apart_rects :: "rect list \<Rightarrow> bool" where
  "apart_rects rs \<longleftrightarrow> sorted_wrt (\<lambda>a b. pts a \<inter> pts b = {}) rs"

definition wf_rects :: "rect list \<Rightarrow> bool" where
  "wf_rects rs \<longleftrightarrow> (\<forall>r \<in> set rs. Valid r) \<and> apart_rects rs"

lemma rpts_simps [simp]: "rpts [] = {}" "rpts (r # rs) = pts r \<union> rpts rs" "rpts (rs @ ss) = rpts rs \<union> rpts ss"
  "rpts (concat rss) = (\<Union>rs \<in> set rss. rpts rs)"
  by (auto simp: rpts_def)

lemma mem_pts [simp]: "(x, y) \<in> pts r \<longleftrightarrow> rleft r \<le> x \<and> x \<le> rright r \<and> rtop r \<le> y \<and> y \<le> rbottom r"
  by (simp add: pts_def Contains_def)

lemma rpts_disjoint: "rpts rs \<inter> rpts ss = {} \<longleftrightarrow> (\<forall>a \<in> set rs. \<forall>b \<in> set ss. pts a \<inter> pts b = {})"
  unfolding rpts_def by blast

lemma apart_append: "apart_rects (rs @ ss) \<longleftrightarrow> apart_rects rs \<and> apart_rects ss \<and> rpts rs \<inter> rpts ss = {}"
  unfolding apart_rects_def sorted_wrt_append rpts_disjoint by blast

lemma apart_Cons: "apart_rects (r # rs) \<longleftrightarrow> pts r \<inter> rpts rs = {} \<and> apart_rects rs"
  using rpts_disjoint [of "[r]" rs] by (simp add: apart_rects_def)

lemma apart_Nil [simp]: "apart_rects []"
  by (simp add: apart_rects_def)

lemma wf_append: "wf_rects (rs @ ss) \<longleftrightarrow> wf_rects rs \<and> wf_rects ss \<and> rpts rs \<inter> rpts ss = {}"
  by (auto simp: wf_rects_def apart_append)

lemma wf_Cons: "wf_rects (r # rs) \<longleftrightarrow> Valid r \<and> wf_rects rs \<and> pts r \<inter> rpts rs = {}"
  by (auto simp: wf_rects_def apart_Cons)

lemma wf_Nil [simp]: "wf_rects []"
  by (simp add: wf_rects_def)

lemma Intersects_iff: "Valid a \<Longrightarrow> Valid b \<Longrightarrow> Intersects a b \<longleftrightarrow> pts a \<inter> pts b \<noteq> {}"
proof
  assume "Valid a" "Valid b" "Intersects a b"
  then have "(max (rleft a) (rleft b), max (rtop a) (rtop b)) \<in> pts a \<inter> pts b"
    by (auto simp: Intersects_def Valid_def)
  then show "pts a \<inter> pts b \<noteq> {}" by blast
qed (auto simp: Intersects_def)

lemma pts_Intersect: "pts (Intersect a b) = pts a \<inter> pts b"
  by (auto simp: Intersect_def Rect_def)

lemma Intersects_valid: "Intersects a b \<Longrightarrow> Valid (Intersect a b)"
  by (simp add: Intersects_def Intersect_def Rect_def Valid_def)

lemma Valid_iff: "Valid r \<longleftrightarrow> pts r \<noteq> {}"
proof
  assume "Valid r"
  then have "(rleft r, rtop r) \<in> pts r" by (simp add: Valid_def)
  then show "pts r \<noteq> {}" by blast
qed (auto simp: Valid_def)

section \<open>Joining rectangles\<close>

lemma join_rects_union:
  assumes "join_rects a b = Some c" and "Valid a" and "Valid b"
  shows "Valid c \<and> pts c = pts a \<union> pts b"
  using assms by (auto simp: join_rects_def Valid_def split: if_splits)

lemma consolidate_step:
  assumes "i < j" "j < length rs" and wf: "wf_rects rs" and c: "join_rects (rs ! i) (rs ! j) = Some c"
  shows "wf_rects (remove_nth j (rs[i := c])) \<and> rpts (remove_nth j (rs[i := c])) = rpts rs"
proof -
  define xs a ys b zs where "xs = take i rs" and "a = rs ! i" and "ys = drop (Suc i) (take j rs)"
    and "b = rs ! j" and "zs = drop (Suc j) rs"
  have rs: "rs = xs @ a # ys @ b # zs"
  proof -
    have "rs = take j rs @ b # zs" using assms(2) by (simp add: b_def zs_def id_take_nth_drop)
    moreover have "take j rs = xs @ a # ys"
      using id_take_nth_drop [of i "take j rs"] assms(1,2) by (simp add: xs_def a_def ys_def min_def)
    ultimately show ?thesis by simp
  qed
  have l: "length xs = i" "length ys = j - Suc i" using assms(1,2) by (simp_all add: xs_def ys_def)
  obtain k where "j = Suc (i + k)" using assms(1) less_imp_Suc_add by blast
  then have "remove_nth j (rs[i := c]) = xs @ c # ys @ zs"
    using l by (subst (1) rs) (simp add: remove_nth_def list_update_append)
  moreover have "Valid c \<and> pts c = pts a \<union> pts b"
    using join_rects_union [OF c] wf assms(1,2) by (auto simp: wf_rects_def a_def b_def)
  moreover have "wf_rects (xs @ a # ys @ b # zs)" using wf rs by simp
  ultimately show ?thesis
    by (subst (3) rs) (auto simp: wf_append wf_Cons)
qed

lemma consolidate_inner_ok:
  assumes "i \<le> j" "j < length rs" and "wf_rects rs"
  shows "wf_rects (consolidate_inner i j rs) \<and> rpts (consolidate_inner i j rs) = rpts rs"
  using assms
proof (induction i j rs rule: consolidate_inner.induct)
  case (1 i j rs)
  show ?case
  proof (cases "j > i")
    case True
    let ?s = "case join_rects (rs ! i) (rs ! j) of None \<Rightarrow> rs | Some rect \<Rightarrow> remove_nth j (rs[i := rect])"
    have s: "wf_rects ?s" "rpts ?s = rpts rs" "j - 1 < length ?s"
      using consolidate_step [of i j rs] True "1.prems" by (auto split: option.split)
    have "consolidate_inner i j rs = consolidate_inner i (j - 1) ?s"
      using True by (subst consolidate_inner.simps) simp
    then show ?thesis using "1.IH" [OF True _ s(3,1)] s(2) True by simp
  qed (use 1 in \<open>simp add: consolidate_inner.simps\<close>)
qed

lemma consolidate_outer_ok:
  "wf_rects rs \<Longrightarrow> wf_rects (consolidate_outer i rs) \<and> rpts (consolidate_outer i rs) = rpts rs"
proof (induction i rs rule: consolidate_outer.induct)
  case (1 i rs)
  show ?case
  proof (cases "i < length rs")
    case True
    have c: "wf_rects (consolidate_inner i (length rs - 1) rs)" "rpts (consolidate_inner i (length rs - 1) rs) = rpts rs"
      using consolidate_inner_ok [of i "length rs - 1" rs] True "1.prems" by auto
    then show ?thesis using "1.IH" [OF True c(1)] True by (subst (1 2) consolidate_outer.simps) simp
  qed (use 1 in \<open>simp add: consolidate_outer.simps\<close>)
qed

text \<open>What ends an operation changes neither the points nor the well-formedness.\<close>

lemma EndOperation_ok:
  assumes "wf_rects (fRects r)"
  shows "wf_rects (fRects (EndOperation r)) \<and> rpts (fRects (EndOperation r)) = rpts (fRects r)"
  using consolidate_outer_ok [OF assms] assms by (simp add: EndOperation_def Let_def Consolidate_def)

section \<open>Excluding a rectangle\<close>

lemma exclude_loop_eq:
  assumes "index \<le> n" and "n \<le> length rs"
  shows "exclude_loop ex index n rs = take index rs @ filter (\<lambda>r. \<not> Intersects ex r) (drop index (take n rs)) @
    drop n rs @ concat (map (split_rect ex) (filter (Intersects ex) (drop index (take n rs))))"
  using assms
proof (induction ex index n rs rule: exclude_loop.induct)
  case (1 ex index n rs)
  show ?case
  proof (cases "index < n")
    case False
    then show ?thesis using "1.prems" by (subst exclude_loop.simps) simp
  next
    case True
    have d: "drop index (take n rs) = rs ! index # drop (Suc index) (take n rs)"
      using True "1.prems"(2) Cons_nth_drop_Suc [of index "take n rs"] by simp
    have t: "take (Suc index) rs = take index rs @ [rs ! index]"
      using True "1.prems"(2) by (simp add: take_Suc_conv_app_nth)
    show ?thesis
    proof (cases "Intersects ex (rs ! index)")
      case False
      have "exclude_loop ex index n rs = exclude_loop ex (index + 1) n rs"
        using True False by (subst exclude_loop.simps) simp
      then show ?thesis using "1.IH"(1) [OF True False] True False "1.prems"(2) d t by simp
    next
      case int: True
      let ?s = "remove_nth index (rs @ split_rect ex (rs ! index))"
      have e: "exclude_loop ex index n rs = exclude_loop ex index (n - 1) ?s"
        using True int by (subst exclude_loop.simps) simp
      have s: "?s = take index rs @ drop (Suc index) rs @ split_rect ex (rs ! index)"
        using True "1.prems"(2) by (simp add: remove_nth_def)
      have "take index ?s = take index rs" "drop (n - 1) ?s = drop n rs @ split_rect ex (rs ! index)"
        "drop index (take (n - 1) ?s) = drop (Suc index) (take n rs)"
        using True "1.prems"(2) unfolding s by (auto simp: drop_take min_def)
      then show ?thesis
        using "1.IH"(2) [OF True] int True "1.prems"(2) unfolding e d by (simp add: s)
    qed
  qed
qed

lemma exclude_loop_all: "exclude_loop ex 0 (length rs) rs =
    filter (\<lambda>r. \<not> Intersects ex r) rs @ concat (map (split_rect ex) (filter (Intersects ex) rs))"
  by (simp add: exclude_loop_eq)

text \<open>The eight pieces tile the rectangle without the excluded one. \<open>thin\<close> is what the code
  drops: the pieces that are not empty but only one point wide or high.\<close>

definition thin :: "rect \<Rightarrow> rect \<Rightarrow> (int \<times> int) set" where
  "thin ex c = (\<Union>q \<in> set (filter (\<lambda>q. \<not> SPLIT_TEST c q) (quads ex c)). pts q \<inter> pts c)"

lemma quads_mem:
  "(x, y) \<in> pts c \<Longrightarrow> (\<exists>q \<in> set (quads ex c). (x, y) \<in> pts q) \<longleftrightarrow> (x, y) \<notin> pts ex"
  by (cases "x < rleft ex"; cases "rright ex < x"; cases "y < rtop ex"; cases "rbottom ex < y")
    (simp_all add: quads_def Rect_def)

lemma quads_tile:
  assumes "Intersects ex c"
  shows "(\<Union>q \<in> set (quads ex c). pts q \<inter> pts c) = pts c - pts ex"
proof (rule set_eqI)
  fix p :: "int \<times> int"
  obtain x y where p: "p = (x, y)" by (cases p)
  show "p \<in> (\<Union>q \<in> set (quads ex c). pts q \<inter> pts c) \<longleftrightarrow> p \<in> pts c - pts ex"
  proof (cases "(x, y) \<in> pts c")
    case True
    then show ?thesis using quads_mem [OF True, of ex] unfolding p by auto
  qed (auto simp: p simp del: mem_pts)
qed

lemma quads_apart:
  assumes "Intersects ex c"
  shows "apart_rects (quads ex c)"
proof -
  have "pts (Rect l t r b) \<inter> pts (Rect l' t' r' b') = {}" if "r < l' \<or> r' < l \<or> b < t' \<or> b' < t"
    for l t r b l' t' r' b' using that by (auto simp: Rect_def)
  moreover have "rleft ex \<le> rright ex" "rtop ex \<le> rbottom ex" using assms by (auto simp: Intersects_def)
  ultimately show ?thesis by (simp add: quads_def apart_rects_def)
qed

lemma split_rect_pts: "rpts (split_rect ex c) = (\<Union>q \<in> set (filter (SPLIT_TEST c) (quads ex c)). pts q \<inter> pts c)"
  by (simp add: split_rect_def rpts_def pts_Intersect)

lemma apart_filter: "apart_rects rs \<Longrightarrow> apart_rects (filter P rs)"
  by (simp add: apart_rects_def sorted_wrt_filter)

lemma apart_disjoint_filter:
  "apart_rects rs \<Longrightarrow> rpts (filter P rs) \<inter> rpts (filter (\<lambda>r. \<not> P r) rs) = {}"
proof (induction rs)
  case (Cons r rs)
  have "rpts (filter Q rs) \<subseteq> rpts rs" for Q by (auto simp: rpts_def)
  then show ?case using Cons by (simp add: apart_Cons) blast
qed simp

lemma split_rect_ok:
  assumes "Intersects ex c"
  shows "wf_rects (split_rect ex c) \<and> rpts (split_rect ex c) = pts c - pts ex - thin ex c"
proof
  have "Valid (Intersect q c)" if "SPLIT_TEST c q" for q
    using that by (simp add: SPLIT_TEST_def Intersect_def Valid_def Rect_def max.commute min.commute)
  moreover have "apart_rects (split_rect ex c)"
    using apart_filter [OF quads_apart [OF assms], of "SPLIT_TEST c"]
    by (auto simp: split_rect_def apart_rects_def sorted_wrt_map pts_Intersect elim!: sorted_wrt_mono_rel [rotated])
  ultimately show "wf_rects (split_rect ex c)" by (auto simp: wf_rects_def split_rect_def)
  show "rpts (split_rect ex c) = pts c - pts ex - thin ex c"
    unfolding split_rect_pts thin_def quads_tile [OF assms, symmetric]
    using apart_disjoint_filter [OF quads_apart [OF assms], of "SPLIT_TEST c"] unfolding rpts_def by auto
qed

lemma thin_sub: "Intersects ex c \<Longrightarrow> thin ex c \<subseteq> pts c"
  by (auto simp: thin_def)

lemma wf_split_all:
  assumes "wf_rects rs" and "\<forall>r \<in> set rs. Intersects ex r"
  shows "wf_rects (concat (map (split_rect ex) rs)) \<and>
    rpts (concat (map (split_rect ex) rs)) = rpts rs - pts ex - (\<Union>r \<in> set rs. thin ex r)"
  using assms
proof (induction rs)
  case (Cons r rs)
  note s = split_rect_ok [of ex r]
  have r: "Intersects ex r" "pts r \<inter> rpts rs = {}" "wf_rects rs" using Cons.prems by (auto simp: wf_Cons)
  have IH: "wf_rects (concat (map (split_rect ex) rs))"
    "rpts (concat (map (split_rect ex) rs)) = rpts rs - pts ex - (\<Union>r \<in> set rs. thin ex r)"
    using Cons.IH r Cons.prems(2) by auto
  have t: "thin ex r \<subseteq> pts r" "(\<Union>r \<in> set rs. thin ex r) \<subseteq> rpts rs"
    using thin_sub r(1) Cons.prems(2) unfolding rpts_def by fastforce+
  have "wf_rects (split_rect ex r @ concat (map (split_rect ex) rs))"
    using s IH r unfolding wf_append by blast
  moreover have "rpts (split_rect ex r) \<union> rpts (concat (map (split_rect ex) rs)) =
      pts r \<union> rpts rs - pts ex - (thin ex r \<union> (\<Union>r \<in> set rs. thin ex r))"
    using s IH r t by auto
  ultimately show ?case by simp
qed simp

lemma wf_filter: "wf_rects rs \<Longrightarrow> wf_rects (filter P rs)"
  by (auto simp: wf_rects_def apart_filter)

definition lost :: "rect \<Rightarrow> rect list \<Rightarrow> (int \<times> int) set" where
  "lost ex rs = (\<Union>r \<in> set (filter (Intersects ex) rs). thin ex r)"

lemma lost_sub: "lost ex rs \<subseteq> rpts rs"
  using thin_sub unfolding lost_def rpts_def by fastforce

lemma exclude_loop_ok:
  assumes wf: "wf_rects rs"
  shows "wf_rects (exclude_loop ex 0 (length rs) rs) \<and>
    rpts (exclude_loop ex 0 (length rs) rs) = rpts rs - pts ex - lost ex rs"
proof -
  let ?in = "filter (Intersects ex) rs" and ?out = "filter (\<lambda>r. \<not> Intersects ex r) rs"
  have d: "rpts ?in \<inter> rpts ?out = {}" using wf by (intro apart_disjoint_filter) (simp add: wf_rects_def)
  have u: "rpts rs = rpts ?in \<union> rpts ?out" by (auto simp: rpts_def)
  have s: "wf_rects (concat (map (split_rect ex) ?in))"
    "rpts (concat (map (split_rect ex) ?in)) = rpts ?in - pts ex - lost ex rs"
    using wf_split_all [OF wf_filter [OF wf], of "Intersects ex" ex] by (simp_all add: lost_def)
  have "pts ex \<inter> pts r = {}" if "\<not> Intersects ex r" for r
    using that by (auto simp: Intersects_def)
  then have o: "pts ex \<inter> rpts ?out = {}" by (auto simp: rpts_def)
  have l: "lost ex rs \<subseteq> rpts ?in" using thin_sub unfolding lost_def rpts_def by fastforce
  have "wf_rects (?out @ concat (map (split_rect ex) ?in))"
    unfolding wf_append using s wf_filter [OF wf] d by blast
  moreover have "rpts ?out \<union> rpts (concat (map (split_rect ex) ?in)) = rpts rs - pts ex - lost ex rs"
    unfolding s(2) u using d o l by blast
  ultimately show ?thesis unfolding exclude_loop_all by simp
qed

lemma Exclude_ok:
  assumes "wf_rects (fRects r)"
  shows "wf_rects (fRects (Exclude ex r)) \<and>
    rpts (fRects (Exclude ex r)) = rpts (fRects r) - pts ex - lost ex (fRects r)"
proof -
  let ?r = "(BeginOperation r)\<lparr>fRects := exclude_loop ex 0 (length (fRects r)) (fRects r)\<rparr>"
  have "Exclude ex r = EndOperation ?r" by (simp add: Exclude_def BeginOperation_def)
  then show ?thesis using EndOperation_ok [of ?r] exclude_loop_ok [OF assms, of ex] by simp
qed

lemma fold_Exclude_ok:
  assumes "wf_rects (fRects r)"
  shows "wf_rects (fRects (fold Exclude exs r)) \<and> rpts (fRects (fold Exclude exs r)) \<subseteq> rpts (fRects r) - rpts exs \<and>
    (rpts (fRects r) \<inter> rpts exs = {} \<and> (\<forall>e \<in> set exs. Valid e) \<longrightarrow> rpts (fRects (fold Exclude exs r)) = rpts (fRects r))"
  using assms
proof (induction exs arbitrary: r)
  case (Cons e exs)
  let ?r = "Exclude e r"
  note x = Exclude_ok [OF Cons.prems, of e]
  note IH = Cons.IH [OF conjunct1 [OF x]]
  have "lost e (fRects r) = {}" if "rpts (fRects r) \<inter> pts e = {}" "Valid e"
  proof -
    have "\<not> Intersects e c" if "c \<in> set (fRects r)" for c
      using Intersects_iff [of e c] \<open>Valid e\<close> \<open>rpts (fRects r) \<inter> pts e = {}\<close> Cons.prems that
      by (auto simp: wf_rects_def rpts_def)
    then show ?thesis by (simp add: lost_def)
  qed
  then have eq: "rpts (fRects ?r) = rpts (fRects r)" if "rpts (fRects r) \<inter> pts e = {}" "Valid e"
    using x that by blast
  have "rpts (fRects (fold Exclude exs ?r)) = rpts (fRects r)"
    if "rpts (fRects r) \<inter> rpts (e # exs) = {}" "\<forall>e \<in> set (e # exs). Valid e"
  proof -
    have d: "rpts (fRects r) \<inter> pts e = {}" "rpts (fRects r) \<inter> rpts exs = {}" using that(1) by auto
    then show ?thesis using IH eq that(2) by simp
  qed
  moreover have "rpts (fRects (fold Exclude exs ?r)) \<subseteq> rpts (fRects r) - rpts (e # exs)"
    using IH x by auto
  ultimately show ?case using IH by simp
qed simp

section \<open>The other operations\<close>

lemma fold_AddRect: "fRects (fold AddRect rs r) = fRects r @ rs"
  by (induction rs arbitrary: r) (simp_all add: AddRect_def)

lemma Include_ok:
  assumes wf: "wf_rects (fRects r)" and v: "Valid rect"
  shows "wf_rects (fRects (Include rect r)) \<and> rpts (fRects r) \<subseteq> rpts (fRects (Include rect r)) \<and>
    rpts (fRects (Include rect r)) \<subseteq> rpts (fRects r) \<union> pts rect \<and>
    (pts rect \<inter> rpts (fRects r) = {} \<longrightarrow> rpts (fRects (Include rect r)) = rpts (fRects r) \<union> pts rect)"
proof -
  let ?t = "fold Exclude (fRects r) (AddRect rect Region)"
  let ?r = "AddRegionRects ?t (BeginOperation r)"
  have a: "fRects (AddRect rect Region) = [rect]" by (simp add: AddRect_def Region_def)
  have t: "wf_rects (fRects ?t)" "rpts (fRects ?t) \<subseteq> pts rect - rpts (fRects r)"
    "pts rect \<inter> rpts (fRects r) = {} \<longrightarrow> rpts (fRects ?t) = pts rect"
    using fold_Exclude_ok [of "AddRect rect Region" "fRects r"] v wf unfolding a
    by (simp_all add: wf_Cons) (simp add: wf_rects_def)
  have f: "fRects ?r = fRects r @ fRects ?t" by (simp add: AddRegionRects_def fold_AddRect BeginOperation_def)
  have "wf_rects (fRects ?r)" unfolding f wf_append using wf t by blast
  moreover have "Include rect r = EndOperation ?r" by (simp add: Include_def BeginOperation_def)
  ultimately show ?thesis using EndOperation_ok [of ?r] t unfolding f by auto
qed

lemma fold_add_if: "fRects (fold (\<lambda>b n. if P b then AddRect (g b) n else n) bs n) = fRects n @ map g (filter P bs)"
  by (induction bs arbitrary: n) (simp_all add: AddRect_def)

lemma intersect_rects_eq:
  "fRects (fold (\<lambda>a. fold (\<lambda>b n. if Intersects a b then AddRect (Intersect a b) n else n) bs) as n) =
   fRects n @ concat (map (\<lambda>a. map (Intersect a) (filter (Intersects a) bs)) as)"
  by (induction as arbitrary: n) (simp_all add: fold_add_if)

lemma intersect_one:
  assumes "wf_rects bs"
  shows "wf_rects (map (Intersect a) (filter (Intersects a) bs)) \<and>
    rpts (map (Intersect a) (filter (Intersects a) bs)) = pts a \<inter> rpts bs"
  using assms
proof (induction bs)
  case (Cons b bs)
  have "pts a \<inter> pts b = {}" if "\<not> Intersects a b" using that by (auto simp: Intersects_def)
  then show ?case using Cons Intersects_valid [of a b] by (auto simp: wf_Cons pts_Intersect)
qed simp

lemma intersect_all:
  assumes "wf_rects as" and "wf_rects bs"
  shows "wf_rects (concat (map (\<lambda>a. map (Intersect a) (filter (Intersects a) bs)) as)) \<and>
    rpts (concat (map (\<lambda>a. map (Intersect a) (filter (Intersects a) bs)) as)) = rpts as \<inter> rpts bs"
  using assms(1)
proof (induction as)
  case (Cons a as)
  let ?x = "map (Intersect a) (filter (Intersects a) bs)"
    and ?y = "concat (map (\<lambda>a. map (Intersect a) (filter (Intersects a) bs)) as)"
  have "wf_rects ?y" "rpts ?y = rpts as \<inter> rpts bs" "pts a \<inter> rpts as = {}" using Cons by (auto simp: wf_Cons)
  moreover have "wf_rects ?x" "rpts ?x = pts a \<inter> rpts bs" using intersect_one [OF assms(2)] by auto
  ultimately have "wf_rects (?x @ ?y)" "rpts (?x @ ?y) = (pts a \<union> rpts as) \<inter> rpts bs"
    unfolding wf_append by auto
  then show ?case by simp
qed simp

lemma Intersect_region_ok:
  assumes "wf_rects (fRects r)" and "wf_rects (fRects q)"
  shows "wf_rects (fRects (Intersect_region q r)) \<and>
    rpts (fRects (Intersect_region q r)) = rpts (fRects r) \<inter> rpts (fRects q)"
proof -
  let ?n = "fold (\<lambda>a. fold (\<lambda>b n. if Intersects a b then AddRect (Intersect a b) n else n) (fRects q)) (fRects r) Region"
  have "Intersect_region q r = EndOperation (SetTo ?n (BeginOperation r))"
    by (simp add: Intersect_region_def BeginOperation_def)
  moreover have "wf_rects (fRects ?n)" "rpts (fRects ?n) = rpts (fRects r) \<inter> rpts (fRects q)"
    using intersect_all [OF assms] unfolding intersect_rects_eq by (simp_all add: Region_def)
  ultimately show ?thesis using EndOperation_ok [of "SetTo ?n (BeginOperation r)"] by (simp add: SetTo_def)
qed

lemma constrain_loop:
  "k \<le> length rs \<Longrightarrow> fold (constrain_step rect) (rev [0..<k]) rs =
    filter Valid (map (Intersect rect) (take k rs)) @ drop k rs"
proof (induction k arbitrary: rs)
  case (Suc k)
  let ?c = "Intersect rect (rs ! k)"
  have t: "take (Suc k) rs = take k rs @ [rs ! k]" using Suc.prems by (simp add: take_Suc_conv_app_nth)
  have s: "constrain_step rect k rs = take k rs @ (if Valid ?c then [?c] else []) @ drop (Suc k) rs"
    using Suc.prems by (auto simp: constrain_step_def remove_nth_def Let_def upd_conv_take_nth_drop)
  have "fold (constrain_step rect) (rev [0..<Suc k]) rs = fold (constrain_step rect) (rev [0..<k]) (constrain_step rect k rs)"
    by simp
  also have "\<dots> = filter Valid (map (Intersect rect) (take k rs)) @ (if Valid ?c then [?c] else []) @ drop (Suc k) rs"
    using Suc.prems by (subst Suc.IH) (simp_all add: s)
  finally show ?case by (simp add: t)
qed simp

lemma constrain_ok:
  "wf_rects rs \<Longrightarrow> wf_rects (filter Valid (map (Intersect rect) rs)) \<and>
    rpts (filter Valid (map (Intersect rect) rs)) = rpts rs \<inter> pts rect"
proof (induction rs)
  case (Cons r rs)
  then show ?case using Valid_iff [of "Intersect rect r"] by (auto simp: wf_Cons pts_Intersect)
qed simp

lemma ConstrainTo_ok:
  assumes "wf_rects (fRects r)"
  shows "wf_rects (fRects (ConstrainTo rect r)) \<and> rpts (fRects (ConstrainTo rect r)) = rpts (fRects r) \<inter> pts rect"
proof -
  let ?r = "(BeginOperation r)\<lparr>fRects := filter Valid (map (Intersect rect) (fRects r))\<rparr>"
  have "ConstrainTo rect r = EndOperation ?r"
    by (simp add: ConstrainTo_def BeginOperation_def constrain_loop)
  then show ?thesis using EndOperation_ok [of ?r] constrain_ok [OF assms, of rect] by simp
qed

lemma OffsetBy_pts: "pts (OffsetBy x y r) = (\<lambda>(a, b). (a + x, b + y)) ` pts r" "Valid (OffsetBy x y r) = Valid r"
proof -
  have "(a, b) \<in> pts (OffsetBy x y r) \<longleftrightarrow> (a - x, b - y) \<in> pts r" for a b
    by (auto simp: OffsetBy_def Rect_def)
  then show "pts (OffsetBy x y r) = (\<lambda>(a, b). (a + x, b + y)) ` pts r"
    by (force simp: image_iff split_beta simp del: mem_pts intro: bexI [where x = "(a - x, b - y)" for a b])
qed (simp add: OffsetBy_def Valid_def Rect_def)

lemma Translate_ok:
  assumes "wf_rects (fRects r)"
  shows "wf_rects (fRects (Translate x y r))"
proof -
  have "inj (\<lambda>(a, b). (a + x, b + y) :: int \<times> int)" by (auto intro!: injI)
  then have "pts (OffsetBy x y a) \<inter> pts (OffsetBy x y b) = {}" if "pts a \<inter> pts b = {}" for a b
    using that by (simp add: OffsetBy_pts flip: image_Int)
  then show ?thesis using assms
    by (auto simp: Translate_def wf_rects_def apart_rects_def sorted_wrt_map OffsetBy_pts(2)
        elim!: sorted_wrt_mono_rel [rotated])
qed

lemma fold_Include_ok:
  "wf_rects (fRects r) \<Longrightarrow> \<forall>q \<in> set qs. Valid q \<Longrightarrow> wf_rects (fRects (fold Include qs r)) \<and>
    rpts (fRects r) \<subseteq> rpts (fRects (fold Include qs r)) \<and> rpts (fRects (fold Include qs r)) \<subseteq> rpts (fRects r) \<union> rpts qs"
proof (induction qs arbitrary: r)
  case (Cons q qs)
  note i = Include_ok [OF Cons.prems(1), of q]
  show ?case using Cons.IH [of "Include q r"] i Cons.prems(2) by auto
qed simp

lemma BeginOperation_rects [simp]: "fRects (BeginOperation r) = fRects r"
  by (simp add: BeginOperation_def)

lemma Invert_wf:
  assumes "wf_rects (fRects r)"
  shows "wf_rects (fRects (Invert r)) \<and> rpts (fRects (Invert r)) \<inter> rpts (fRects r) = {}"
proof -
  let ?all = "Rect (- COORD_MAX) (- COORD_MAX) COORD_MAX COORD_MAX"
  let ?t = "fold Exclude (fRects r) (Include ?all Region)"
  have "wf_rects (fRects (Include ?all Region))"
    using Include_ok [of Region ?all] by (simp add: Region_def Rect_def Valid_def)
  from fold_Exclude_ok [OF this, of "fRects r"] have t: "wf_rects (fRects ?t)" "rpts (fRects ?t) \<inter> rpts (fRects r) = {}"
    by auto
  have "Invert r = EndOperation (SetTo ?t (BeginOperation r))" by (simp add: Invert_def Let_def)
  then show ?thesis using EndOperation_ok [of "SetTo ?t (BeginOperation r)"] t by (simp add: SetTo_def)
qed

lemma Exclude_region_wf:
  assumes "wf_rects (fRects r)" and "wf_rects (fRects q)"
  shows "wf_rects (fRects (Exclude_region q r)) \<and> rpts (fRects (Exclude_region q r)) \<subseteq> rpts (fRects r) - rpts (fRects q)"
proof -
  let ?t = "Invert (SetTo q Region)"
  have t: "wf_rects (fRects ?t)" "rpts (fRects ?t) \<inter> rpts (fRects q) = {}"
    using Invert_wf [of "SetTo q Region"] assms(2) by (auto simp: SetTo_def)
  let ?r = "Intersect_region ?t (BeginOperation r)"
  have i: "wf_rects (fRects ?r)" "rpts (fRects ?r) = rpts (fRects r) \<inter> rpts (fRects ?t)"
    using Intersect_region_ok [of "BeginOperation r" ?t] assms(1) t by auto
  have "Exclude_region q r = EndOperation ?r" by (simp add: Exclude_region_def Let_def)
  then show ?thesis using EndOperation_ok [OF i(1)] i(2) t by auto
qed

section \<open>Properties\<close>



text \<open>
  C29. Intersecting two regions gives exactly the points of both, constraining a region to a
  rectangle exactly its points inside, and \<open>FindRect\<close> finds a rectangle around a point exactly
  when the point belongs to the region.
\<close>

theorem region_intersection_exact:
  assumes "wf_rects (fRects r)" and "wf_rects (fRects q)"
  shows "rpts (fRects (Intersect_region q r)) = rpts (fRects r) \<inter> rpts (fRects q) \<and>
    rpts (fRects (ConstrainTo rect r)) = rpts (fRects r) \<inter> pts rect \<and>
    (case FindRect x y r of None \<Rightarrow> (x, y) \<notin> rpts (fRects r)
     | Some c \<Rightarrow> c \<in> set (fRects r) \<and> (x, y) \<in> pts c)"
proof -
  have "case FindRect x y r of None \<Rightarrow> (x, y) \<notin> rpts (fRects r) | Some c \<Rightarrow> c \<in> set (fRects r) \<and> (x, y) \<in> pts c"
    by (auto simp: FindRect_def rpts_def pts_def find_None_iff find_Some_iff split: option.split)
  then show ?thesis using Intersect_region_ok [OF assms] ConstrainTo_ok [OF assms(1)] by blast
qed

theorem region_intersection_exact_witness:
  "\<exists>r q. fRects r = [Rect 0 0 9 9] \<and> fRects q = [Rect 5 5 15 15] \<and>
    rpts (fRects (Intersect_region q r)) = pts (Rect 0 0 9 9) \<inter> pts (Rect 5 5 15 15)"
proof -
  let ?r = "\<lparr>fRects = [Rect 0 0 9 9], fOpLevel = 0\<rparr>" and ?q = "\<lparr>fRects = [Rect 5 5 15 15], fOpLevel = 0\<rparr>"
  have "wf_rects (fRects ?r)" "wf_rects (fRects ?q)" by (auto simp: wf_Cons Valid_def Rect_def)
  from region_intersection_exact [OF this] show ?thesis
    by (intro exI [of _ ?r] exI [of _ ?q]) simp
qed



end
