(* ===== verification/Vt100.thy ===== *)
theory Vt100
  imports Prelude
begin

text \<open>
  The terminal emulator of the console server, \<^verbatim>\<open>srv/console2/vt100.c\<close>. Screens are arrays of
  16-bit cells in a common memory \<open>cells\<close>, found through the \<open>data\<close> pointer of their record; an
  operation takes the record and the memory and returns both. The function pointer
  \<open>next_char_send\<close> is a value of \<open>handler\<close>; \<open>ansi_element\<close> holds the \<open>ansi_elements\<close> entries in use.
  \<open>move_cursor\<close> only programs the display controller.
\<close>

section \<open>Definitions\<close>

datatype handler = std_interpret_char | std_interpret_ansi | special_reading_ansi
  | special_ansi_charset_0 | special_ansi_charset_1

record virtscreen =
  rows :: int
  columns :: int
  num_bytes :: int
  data :: int
  backing :: int
  data_off_scr :: int
  xpos :: int
  ypos :: int
  top_scroll :: int
  bottom_scroll :: int
  attrib :: int
  old_attrib :: int
  old_xpos :: int
  old_ypos :: int
  cur_ansi_number :: int
  ansi_reading_number :: bool
  ansi_element :: "int list"
  next_char_send :: handler

type_synonym cells = "int \<Rightarrow> int"
type_synonym vt = "virtscreen \<times> cells"

abbreviation (input) MAX_ANSI_ELEMENTS :: nat where "MAX_ANSI_ELEMENTS \<equiv> 16"

definition ansi_elements :: "virtscreen \<Rightarrow> nat" where
  "ansi_elements cur = length (ansi_element cur)"

definition loc_in_virtscreen :: "virtscreen \<Rightarrow> int \<Rightarrow> int \<Rightarrow> int" where
  "loc_in_virtscreen cur y x = data cur + (y * columns cur + x)"

text \<open>A cell is an unsigned short; \<open>fill\<close> is a loop that stores one value from \<open>p\<close> up to, not
  including, \<open>q\<close>; \<open>move\<close> is \<open>memmove\<close> on \<open>n\<close> cells.\<close>

definition cell :: "int \<Rightarrow> int \<Rightarrow> int" where
  "cell attr ch = take_bit 16 (ch OR push_bit 8 attr)"

definition fill :: "int \<Rightarrow> int \<Rightarrow> int \<Rightarrow> cells \<Rightarrow> cells" where
  "fill p q v m = (\<lambda>a. if p \<le> a \<and> a < q then v else m a)"

definition move :: "int \<Rightarrow> int \<Rightarrow> nat \<Rightarrow> cells \<Rightarrow> cells" where
  "move dst src n m = (\<lambda>a. if dst \<le> a \<and> a < dst + int n then m (src + (a - dst)) else m a)"

definition clear_region :: "int \<Rightarrow> int \<Rightarrow> int \<Rightarrow> int \<Rightarrow> int \<Rightarrow> vt \<Rightarrow> vt" where
  "clear_region y1 x1 y2 x2 atrb = (\<lambda>(cur, m).
     (cur, fill (loc_in_virtscreen cur y1 x1) (loc_in_virtscreen cur y2 x2 + 1) (cell atrb 0x20) m))"

text \<open>\<open>mem\<close> is what \<open>malloc\<close> returned, 0 when there is no memory; \<open>xpos\<close> and \<open>ypos\<close> keep what the
  record held.\<close>

definition init_virtscreen :: "int \<Rightarrow> int \<Rightarrow> int \<Rightarrow> vt \<Rightarrow> int \<times> vt" where
  "init_virtscreen mem r c = (\<lambda>(cur, m).
     let cur = cur\<lparr>num_bytes := 2 * r * c, data := mem\<rparr> in
     if mem = 0 then (-1, cur, m)
     else
       (let cur = cur\<lparr>data_off_scr := mem, rows := r, bottom_scroll := r, columns := c,
              top_scroll := 0, cur_ansi_number := 0, ansi_reading_number := False, ansi_element := [],
              next_char_send := std_interpret_char, attrib := 0x07, old_attrib := 0x07\<rparr>;
            (cur, m) = clear_region 0 0 (r - 1) (c - 1) (attrib cur) (cur, m)
        in (0, cur\<lparr>old_xpos := 0, old_ypos := 0\<rparr>, m)))"

definition clear_virtscreen :: "int \<Rightarrow> vt \<Rightarrow> vt" where
  "clear_virtscreen mode = (\<lambda>(cur, m).
     if mode = 0 then clear_region (ypos cur) (xpos cur) (rows cur - 1) (columns cur - 1) (attrib cur) (cur, m)
     else if mode = 1 then clear_region 0 0 (ypos cur) (xpos cur) (attrib cur) (cur, m)
     else (let (cur, m) = clear_region 0 0 (rows cur - 1) (columns cur - 1) (attrib cur) (cur, m)
           in (cur\<lparr>xpos := 0, ypos := 0\<rparr>, m)))"

definition clear_to_eol :: "int \<Rightarrow> vt \<Rightarrow> vt" where
  "clear_to_eol mode = (\<lambda>(cur, m).
     if mode = 0 then clear_region (ypos cur) (xpos cur) (ypos cur) (columns cur - 1) (attrib cur) (cur, m)
     else if mode = 1 then clear_region (ypos cur) 0 (ypos cur) (xpos cur) (attrib cur) (cur, m)
     else clear_region (ypos cur) 0 (ypos cur) (columns cur - 1) (attrib cur) (cur, m))"

definition clamp :: "int \<Rightarrow> int \<Rightarrow> int" where
  "clamp n v = (let v = (if v < 0 then 0 else v) in if v \<ge> n then n - 1 else v)"

definition position_console :: "int \<Rightarrow> int \<Rightarrow> bool \<Rightarrow> vt \<Rightarrow> vt" where
  "position_console y x rel = (\<lambda>(cur, m).
     let cur = (if rel then cur\<lparr>xpos := s32 (xpos cur + x), ypos := s32 (ypos cur + y)\<rparr>
                else cur\<lparr>xpos := x, ypos := y\<rparr>)
     in (cur\<lparr>xpos := clamp (columns cur) (xpos cur), ypos := clamp (rows cur) (ypos cur)\<rparr>, m))"

primrec copy_cells :: "nat \<Rightarrow> int \<Rightarrow> int \<Rightarrow> cells \<Rightarrow> cells" where
  "copy_cells 0 dst src m = m"
| "copy_cells (Suc n) dst src m = copy_cells n (dst + 1) (src + 1) (m(dst := m src))"

definition delete_chars_in_line :: "int \<Rightarrow> vt \<Rightarrow> vt" where
  "delete_chars_in_line char_move = (\<lambda>(cur, m).
     let start_move = loc_in_virtscreen cur (ypos cur) (xpos cur);
         end_move = loc_in_virtscreen cur (ypos cur) (columns cur);
         next_col = s32 (xpos cur + char_move);
         next_move = loc_in_virtscreen cur (ypos cur) next_col;
         n = (if next_col < columns cur then nat (end_move - next_move) else 0);
         m = copy_cells n start_move next_move m
     in (cur, fill (start_move + int n) end_move (cell (attrib cur) 0x20) m))"

text \<open>The length passed to \<open>memmove\<close> is the difference of two addresses as an unsigned number of
  bytes.\<close>

definition scroll_length :: "int \<Rightarrow> int \<Rightarrow> nat" where
  "scroll_length lastLine beginScr = u32_of_int (2 * lastLine - 2 * beginScr)"

definition scroll_virt_up_at_cursor :: "bool \<Rightarrow> vt \<Rightarrow> vt" where
  "scroll_virt_up_at_cursor dir = (\<lambda>(cur, m).
     if ypos cur \<ge> top_scroll cur \<and> ypos cur < bottom_scroll cur
     then (let beginScr = loc_in_virtscreen cur (ypos cur) 0;
               endofScr = loc_in_virtscreen cur (bottom_scroll cur) 0;
               lastLine = endofScr - columns cur;
               nextLine = beginScr + columns cur;
               n = scroll_length lastLine beginScr div 2
           in if dir
              then (cur, fill lastLine endofScr (cell (attrib cur) 0x20) (move beginScr nextLine n m))
              else (cur, fill beginScr nextLine (cell (attrib cur) 0x20) (move nextLine beginScr n m)))
     else (cur, m))"

definition scroll_virtscreen :: "vt \<Rightarrow> vt" where
  "scroll_virtscreen = (\<lambda>(cur, m).
     let beginScr = loc_in_virtscreen cur (top_scroll cur) 0;
         endofScr = loc_in_virtscreen cur (bottom_scroll cur) 0;
         lastLine = endofScr - columns cur;
         nextLine = beginScr + columns cur;
         n = scroll_length lastLine beginScr div 2
     in (cur, fill lastLine endofScr (cell (attrib cur) 0x20) (move beginScr nextLine n m)))"

definition set_scroll_region :: "int \<Rightarrow> int \<Rightarrow> vt \<Rightarrow> vt" where
  "set_scroll_region low high = (\<lambda>(cur, m).
     let low = s32 (low - 1);
         high = (if high \<ge> rows cur then rows cur else high);
         low = (if low < 0 then 0 else low)
     in (cur\<lparr>top_scroll := low, bottom_scroll := high\<rparr>, m))"

definition change_attribute :: "int \<Rightarrow> vt \<Rightarrow> vt" where
  "change_attribute a = (\<lambda>(cur, m). (cur\<lparr>attrib := a\<rparr>, m))"

definition change_character :: "int \<Rightarrow> vt \<Rightarrow> vt" where
  "change_character ch = (\<lambda>(cur, m).
     (cur, m(loc_in_virtscreen cur (ypos cur) (xpos cur) := cell (attrib cur) ch)))"

definition set_handler :: "handler \<Rightarrow> vt \<Rightarrow> vt" where
  "set_handler h = (\<lambda>(cur, m). (cur\<lparr>next_char_send := h\<rparr>, m))"

text \<open>\<open>ESC D\<close> and \<open>ESC M\<close>.\<close>

definition index_down :: "vt \<Rightarrow> vt" where
  "index_down = (\<lambda>(cur, m).
     let cur = cur\<lparr>ypos := ypos cur + 1\<rparr> in
     if ypos cur \<ge> bottom_scroll cur
     then (let (cur, m) = scroll_virtscreen (cur, m) in (cur\<lparr>ypos := ypos cur - 1\<rparr>, m))
     else (cur, m))"

definition index_up :: "vt \<Rightarrow> vt" where
  "index_up = (\<lambda>(cur, m).
     let cur = cur\<lparr>ypos := ypos cur - 1\<rparr> in
     if ypos cur < top_scroll cur
     then scroll_virt_up_at_cursor False (cur\<lparr>ypos := ypos cur + 1\<rparr>, m)
     else (cur, m))"

definition interpret_ansi :: "int \<Rightarrow> vt \<Rightarrow> vt" where
  "interpret_ansi ch = (\<lambda>(cur, m).
     if ch = 0x28 then set_handler special_ansi_charset_0 (cur, m)
     else if ch = 0x29 then set_handler special_ansi_charset_1 (cur, m)
     else if ch = 0x5B then
       (cur\<lparr>cur_ansi_number := 0, ansi_element := [], ansi_reading_number := False,
            next_char_send := special_reading_ansi\<rparr>, m)
     else
       (let (cur, m) =
          (if ch = 0x37 then (cur\<lparr>old_attrib := attrib cur, old_xpos := xpos cur, old_ypos := ypos cur\<rparr>, m)
           else if ch = 0x38 then position_console (ypos cur) (xpos cur) False (change_attribute (old_attrib cur) (cur, m))
           else if ch = 0x45 then index_down (cur\<lparr>xpos := 0\<rparr>, m)
           else if ch = 0x44 then index_down (cur, m)
           else if ch = 0x4D then index_up (cur, m)
           else (cur, m))
        in if ch \<noteq> 27 then set_handler std_interpret_char (cur, m) else (cur, m)))"

text \<open>The remainder of C takes the sign of the dividend.\<close>

definition c_mod :: "int \<Rightarrow> int \<Rightarrow> int" where
  "c_mod a b = sgn a * (\<bar>a\<bar> mod \<bar>b\<bar>)"

text \<open>With \<open>STRICT_VT100\<close>, as in the source, text stops at the right margin.\<close>

definition interpret_char :: "int \<Rightarrow> vt \<Rightarrow> vt" where
  "interpret_char ch = (\<lambda>(cur, m).
     if ch = 27 then set_handler std_interpret_ansi (cur, m)
     else if ch = 12 then clear_virtscreen 2 (cur, m)
     else if ch = 13 then (cur\<lparr>xpos := 0\<rparr>, m)
     else if ch = 10 then
       (let cur = cur\<lparr>ypos := ypos cur + 1\<rparr>;
            (cur, m) = (if ypos cur \<ge> bottom_scroll cur
                        then (let (cur, m) = (if ypos cur = bottom_scroll cur
                                              then scroll_virtscreen (cur, m) else (cur, m))
                              in (cur\<lparr>ypos := ypos cur - 1\<rparr>, m))
                        else (cur, m))
        in (cur\<lparr>xpos := 0\<rparr>, m))
     else if ch = 9 then position_console (ypos cur) (xpos cur + (8 - c_mod (xpos cur) 8)) False (cur, m)
     else if ch = 8 then
       (let cur = cur\<lparr>xpos := xpos cur - 1\<rparr> in
        if xpos cur < 0
        then (let cur = cur\<lparr>xpos := columns cur - 1\<rparr>
              in (if ypos cur < 0 then cur\<lparr>ypos := 0\<rparr> else cur, m))
        else (cur, m))
     else if ch = 0 then (cur, m)
     else
       (let (cur, m) = change_character ch (cur, m);
            cur = cur\<lparr>xpos := xpos cur + 1\<rparr>
        in (if xpos cur \<ge> columns cur then cur\<lparr>xpos := columns cur - 1\<rparr> else cur, m)))"

definition arg0 :: "int \<Rightarrow> virtscreen \<Rightarrow> int" where
  "arg0 d cur = (if ansi_elements cur > 0 then ansi_element cur ! 0 else d)"

definition arg1 :: "int \<Rightarrow> virtscreen \<Rightarrow> int" where
  "arg1 d cur = (if ansi_elements cur > 1 then ansi_element cur ! 1 else d)"

definition less_one :: "int \<Rightarrow> int" where
  "less_one t = (if t \<noteq> 0 then t - 1 else t)"

definition select_graphic :: "int \<Rightarrow> vt \<Rightarrow> vt" where
  "select_graphic cthing = (\<lambda>(cur, m).
     if cthing = 0 \<or> cthing = 27 then change_attribute 0x07 (cur, m)
     else if cthing = 1 then change_attribute (attrib cur OR 0x08) (cur, m)
     else if cthing = 5 then change_attribute (attrib cur OR 0x80) (cur, m)
     else if cthing = 7 then change_attribute 0x70 (cur, m)
     else if cthing = 21 \<or> cthing = 22 then change_attribute (attrib cur AND 0xF7) (cur, m)
     else if cthing = 25 then change_attribute (attrib cur AND 0x7F) (cur, m)
     else if cthing \<ge> 30 \<and> cthing \<le> 37
     then change_attribute ((attrib cur AND 0xF8) OR (cthing - 30)) (cur, m)
     else if cthing \<ge> 40 \<and> cthing \<le> 47
     then change_attribute ((attrib cur AND 0x8F) OR push_bit 4 (cthing - 40)) (cur, m)
     else (cur, m))"

definition ansi_command :: "int \<Rightarrow> vt \<Rightarrow> vt" where
  "ansi_command ch = (\<lambda>(cur, m).
     if ch = 0x44 then position_console 0 (- arg0 1 cur) True (cur, m)
     else if ch = 0x61 \<or> ch = 0x43 then position_console 0 (arg0 1 cur) True (cur, m)
     else if ch = 0x41 then position_console (- arg0 1 cur) 0 True (cur, m)
     else if ch = 0x65 \<or> ch = 0x42 then position_console (arg0 1 cur) 0 True (cur, m)
     else if ch = 0x60 \<or> ch = 0x47 then position_console (ypos cur) (less_one (arg0 1 cur)) False (cur, m)
     else if ch = 0x45 then position_console (s32 (ypos cur + arg0 1 cur)) 0 False (cur, m)
     else if ch = 0x46 then position_console (s32 (ypos cur - arg0 1 cur)) 0 False (cur, m)
     else if ch = 0x64 then position_console (less_one (arg0 1 cur)) (xpos cur) False (cur, m)
     else if ch = 0x66 \<or> ch = 0x48
     then position_console (less_one (arg0 1 cur)) (less_one (arg1 1 cur)) False (cur, m)
     else if ch = 0x4A then clear_virtscreen (arg0 0 cur) (cur, m)
     else if ch = 0x4C then (scroll_virt_up_at_cursor False ^^ nat (arg0 1 cur)) (cur, m)
     else if ch = 0x4D then (scroll_virt_up_at_cursor True ^^ nat (arg0 1 cur)) (cur, m)
     else if ch = 0x50 then delete_chars_in_line (arg0 1 cur) (cur, m)
     else if ch = 0x4B then clear_to_eol (arg0 0 cur) (cur, m)
     else if ch = 0x73 then (cur\<lparr>old_xpos := xpos cur, old_ypos := ypos cur\<rparr>, m)
     else if ch = 0x75 then position_console (old_ypos cur) (old_xpos cur) False (cur, m)
     else if ch = 0x72 then
       (if arg0 1 cur \<le> arg1 (rows cur) cur
        then set_scroll_region (arg0 1 cur) (arg1 (rows cur) cur) (cur, m) else (cur, m))
     else if ch = 0x6D then
       fold select_graphic (ansi_element cur)
         (if ansi_elements cur = 0 then change_attribute 0x07 (cur, m) else (cur, m))
     else (cur, m))"

definition end_number :: "int \<Rightarrow> virtscreen \<Rightarrow> virtscreen" where
  "end_number ch cur =
     (let cur = (if ansi_reading_number cur \<or> ch = 0x3B
                 then cur\<lparr>ansi_element := (if ansi_elements cur < MAX_ANSI_ELEMENTS
                            then ansi_element cur @ [cur_ansi_number cur] else ansi_element cur),
                          ansi_reading_number := False\<rparr>
                 else cur)
      in cur\<lparr>cur_ansi_number := 0\<rparr>)"

definition reading_ansi :: "int \<Rightarrow> vt \<Rightarrow> vt" where
  "reading_ansi ch = (\<lambda>(cur, m).
     if ch \<ge> 0x30 \<and> ch \<le> 0x39
     then (cur\<lparr>cur_ansi_number := s32 (s32 (cur_ansi_number cur * 10) + (ch - 0x30)),
               ansi_reading_number := True\<rparr>, m)
     else if ch = 0x3F \<or> ch = 0x3B then (end_number ch cur, m)
     else set_handler std_interpret_char (ansi_command ch (end_number ch cur, m)))"

definition char_to_virtscreen :: "int \<Rightarrow> vt \<Rightarrow> vt" where
  "char_to_virtscreen ch = (\<lambda>(cur, m).
     case next_char_send cur of
       std_interpret_char \<Rightarrow> interpret_char ch (cur, m)
     | std_interpret_ansi \<Rightarrow> interpret_ansi ch (cur, m)
     | special_reading_ansi \<Rightarrow> reading_ansi ch (cur, m)
     | special_ansi_charset_0 \<Rightarrow> set_handler std_interpret_char (cur, m)
     | special_ansi_charset_1 \<Rightarrow> set_handler std_interpret_char (cur, m))"

end
