(* ===== verification/Vt100Inv.thy ===== *)
theory Vt100Inv
  imports Vt100
begin

text \<open>
  The terminal emulator: the cursor stays on the screen whatever is sent, writes stay on the screen
  while the scroll region has a line, text and cursor addressing do what they say.
\<close>

section \<open>The cursor and the screen\<close>

text \<open>\<open>on_screen\<close>: the cursor is inside the screen and the scroll margins do not reach past it.\<close>

definition on_screen :: "virtscreen \<Rightarrow> bool" where
  "on_screen cur \<longleftrightarrow> 0 \<le> xpos cur \<and> xpos cur < columns cur \<and> 0 \<le> ypos cur \<and> ypos cur < rows cur
     \<and> 0 \<le> top_scroll cur \<and> bottom_scroll cur \<le> rows cur \<and> ansi_elements cur \<le> MAX_ANSI_ELEMENTS"

definition same_place :: "virtscreen \<Rightarrow> virtscreen \<Rightarrow> bool" where
  "same_place c c' \<longleftrightarrow> rows c' = rows c \<and> columns c' = columns c \<and> data c' = data c
     \<and> backing c' = backing c \<and> num_bytes c' = num_bytes c"

text \<open>A step keeps the cursor on the screen and the screen where it is.\<close>

definition keeps :: "(vt \<Rightarrow> vt) \<Rightarrow> bool" where
  "keeps f \<longleftrightarrow> (\<forall>cur m. on_screen cur \<longrightarrow>
     on_screen (fst (f (cur, m))) \<and> same_place cur (fst (f (cur, m))))"

lemma keepsI:
  "(\<And>cur m. on_screen cur \<Longrightarrow> on_screen (fst (f (cur, m))) \<and> same_place cur (fst (f (cur, m)))) \<Longrightarrow> keeps f"
  by (simp add: keeps_def)

lemma keepsD:
  "keeps f \<Longrightarrow> on_screen cur \<Longrightarrow> on_screen (fst (f (cur, m))) \<and> same_place cur (fst (f (cur, m)))"
  by (simp add: keeps_def)

lemma same_place_refl [simp]: "same_place c c"
  by (simp add: same_place_def)

lemma same_place_trans: "same_place a b \<Longrightarrow> same_place b c \<Longrightarrow> same_place a c"
  by (simp add: same_place_def)

lemma keeps_comp:
  assumes "keeps f" and "keeps g"
  shows "keeps (\<lambda>v. g (f v))"
proof (rule keepsI)
  fix cur m
  assume "on_screen cur"
  then have f: "on_screen (fst (f (cur, m)))" "same_place cur (fst (f (cur, m)))"
    using keepsD [OF assms(1)] by auto
  show "on_screen (fst (g (f (cur, m)))) \<and> same_place cur (fst (g (f (cur, m))))"
    using keepsD [OF assms(2) f(1), of "snd (f (cur, m))"] same_place_trans [OF f(2)] by simp
qed

lemma keeps_id: "keeps (\<lambda>v. v)"
  by (simp add: keeps_def)

lemma keeps_if: "(P \<Longrightarrow> keeps f) \<Longrightarrow> (\<not> P \<Longrightarrow> keeps g) \<Longrightarrow> keeps (\<lambda>v. if P then f v else g v)"
  by (simp add: keeps_def)

lemma keeps_funpow: "keeps f \<Longrightarrow> keeps (f ^^ n)"
  by (induction n) (simp_all add: keeps_comp keeps_id id_def comp_def)

lemma keeps_fold: "(\<And>x. keeps (f x)) \<Longrightarrow> keeps (fold f xs)"
  by (induction xs) (simp_all add: keeps_id keeps_comp id_def comp_def)

lemma clamp_bounds: "0 < n \<Longrightarrow> 0 \<le> clamp n v \<and> clamp n v < n"
  by (simp add: clamp_def Let_def)

lemma clamp_id [simp]: "0 \<le> v \<Longrightarrow> v < n \<Longrightarrow> clamp n v = v"
  by (simp add: clamp_def)

lemmas vt_unfold = on_screen_def same_place_def ansi_elements_def Let_def split_def

lemma keeps_position: "keeps (position_console y x rel)"
  using clamp_bounds by (simp add: keeps_def position_console_def vt_unfold)

lemma keeps_clear_region: "keeps (clear_region a b c d e)"
  by (simp add: keeps_def clear_region_def)

lemma fst_clear_region [simp]: "fst (clear_region a b c d e v) = fst v"
  by (simp add: clear_region_def split_def)

lemma keeps_clear: "keeps (clear_virtscreen mode)" "keeps (clear_to_eol mode)"
  by (simp_all add: keeps_def clear_virtscreen_def clear_to_eol_def vt_unfold)

lemma keeps_lines: "keeps (delete_chars_in_line n)" "keeps (scroll_virt_up_at_cursor d)" "keeps scroll_virtscreen"
  by (simp_all add: keeps_def delete_chars_in_line_def scroll_virt_up_at_cursor_def
      scroll_virtscreen_def Let_def)

lemma keeps_scroll_region: "keeps (set_scroll_region a b)"
  by (simp add: keeps_def set_scroll_region_def vt_unfold)

lemma keeps_simple: "keeps (change_attribute a)" "keeps (change_character c)" "keeps (set_handler h)"
  by (simp_all add: keeps_def change_attribute_def change_character_def set_handler_def vt_unfold)

lemma keeps_select: "keeps (select_graphic c)"
  by (simp add: keeps_def select_graphic_def change_attribute_def vt_unfold)

lemma keeps_index: "keeps index_down" "keeps index_up"
  by (simp_all add: keeps_def index_down_def index_up_def scroll_virtscreen_def
      scroll_virt_up_at_cursor_def vt_unfold)

lemmas keeps_ops = keeps_position keeps_clear keeps_lines keeps_scroll_region keeps_simple keeps_select
  keeps_index keeps_id

definition stays :: "virtscreen \<Rightarrow> vt \<Rightarrow> bool" where
  "stays cur v \<longleftrightarrow> on_screen (fst v) \<and> same_place cur (fst v)"

lemma stays_if: "(P \<Longrightarrow> stays cur a) \<Longrightarrow> (\<not> P \<Longrightarrow> stays cur b) \<Longrightarrow> stays cur (if P then a else b)"
  by simp

lemma stays_keeps: "on_screen cur \<Longrightarrow> keeps f \<Longrightarrow> stays cur (f (cur, m))"
  by (simp add: keeps_def stays_def)

lemma keeps_stays: "(\<And>cur m. on_screen cur \<Longrightarrow> stays cur (f (cur, m))) \<Longrightarrow> keeps f"
  by (simp add: keeps_def stays_def)

lemma stays_comp: "stays cur v \<Longrightarrow> keeps f \<Longrightarrow> stays cur (f v)"
  by (cases v) (auto simp: keeps_def stays_def intro: same_place_trans)

lemma stays_self: "on_screen cur \<Longrightarrow> stays cur (cur, m)"
  by (simp add: stays_def)

lemma stays_save: "on_screen cur \<Longrightarrow> stays cur (cur\<lparr>old_xpos := x, old_ypos := y\<rparr>, m)"
  by (simp add: stays_def vt_unfold)

lemma keeps_graphics:
  "keeps (\<lambda>v. fold select_graphic xs (if P then change_attribute a v else v))"
  by (rule keeps_comp [where f = "\<lambda>v. if P then change_attribute a v else v", OF _ keeps_fold])
    (simp_all add: keeps_if keeps_ops)

lemma keeps_command: "keeps (ansi_command ch)"
  apply (rule keeps_stays)
  apply (simp only: ansi_command_def prod.case)
  apply (intro stays_if stays_save; (erule stays_keeps)?)
  apply (intro keeps_funpow keeps_ops keeps_graphics | assumption)+
  done

lemma keeps_interpret_ansi: "keeps (interpret_ansi ch)"
  by (simp add: keeps_def interpret_ansi_def index_down_def index_up_def scroll_virtscreen_def
      scroll_virt_up_at_cursor_def set_handler_def change_attribute_def position_console_def vt_unfold clamp_bounds)

lemma keeps_interpret_char: "keeps (interpret_char ch)"
  by (simp add: keeps_def interpret_char_def scroll_virtscreen_def set_handler_def clear_virtscreen_def
      position_console_def change_character_def vt_unfold clamp_bounds)

lemma stays_end_number: "on_screen cur \<Longrightarrow> stays cur (end_number ch cur, m)"
  by (simp add: stays_def end_number_def vt_unfold)

lemma stays_digit:
  "on_screen cur \<Longrightarrow> stays cur (cur\<lparr>cur_ansi_number := n, ansi_reading_number := b\<rparr>, m)"
  by (simp add: stays_def vt_unfold)

lemma keeps_reading: "keeps (reading_ansi ch)"
  apply (rule keeps_stays)
  apply (simp only: reading_ansi_def prod.case)
  apply (intro stays_if stays_digit stays_end_number stays_comp [OF _ keeps_simple(3)]
      stays_comp [OF _ keeps_command] | assumption)+
  done

lemma keeps_char: "keeps (char_to_virtscreen ch)"
  using keeps_interpret_char keeps_interpret_ansi keeps_reading keeps_simple(3)
  by (simp add: keeps_def char_to_virtscreen_def split: handler.split)

text \<open>C31. Whatever bytes are sent to a screen, the cursor stays on it: column and row within the
  screen's size, the scroll margins not outside it, never more than 16 numbers kept of an escape
  sequence, and the screen's size and place in memory unchanged.\<close>
theorem vt100_cursor_on_screen:
  assumes "on_screen cur" and "fold char_to_virtscreen bytes (cur, m) = (cur', m')"
  shows "0 \<le> xpos cur' \<and> xpos cur' < columns cur \<and> 0 \<le> ypos cur' \<and> ypos cur' < rows cur
    \<and> 0 \<le> top_scroll cur' \<and> bottom_scroll cur' \<le> rows cur
    \<and> ansi_elements cur' \<le> MAX_ANSI_ELEMENTS
    \<and> rows cur' = rows cur \<and> columns cur' = columns cur \<and> data cur' = data cur"
  using keepsD [OF keeps_fold [of char_to_virtscreen bytes, OF keeps_char] assms(1), of m] assms(2)
  by (simp add: on_screen_def same_place_def)

section \<open>Writes stay on the screen\<close>

definition within :: "virtscreen \<Rightarrow> cells \<Rightarrow> cells \<Rightarrow> bool" where
  "within cur m m' \<longleftrightarrow>
     (\<forall>a. a < data cur \<or> data cur + rows cur * columns cur \<le> a \<longrightarrow> m' a = m a)"

text \<open>The scroll region has a line, and the numbers of an escape sequence did not overflow.\<close>

definition safe :: "virtscreen \<Rightarrow> bool" where
  "safe cur \<longleftrightarrow> on_screen cur \<and> top_scroll cur < bottom_scroll cur \<and> rows cur * columns cur \<le> 1073741824
     \<and> list_all (\<lambda>e. 0 \<le> e \<and> e < 1000000000) (ansi_element cur)
     \<and> 0 \<le> cur_ansi_number cur \<and> cur_ansi_number cur < 1000000000"

definition inside :: "virtscreen \<Rightarrow> cells \<Rightarrow> vt \<Rightarrow> bool" where
  "inside cur m v \<longleftrightarrow> safe (fst v) \<and> same_place cur (fst v) \<and> within cur m (snd v)"

definition confined :: "(vt \<Rightarrow> vt) \<Rightarrow> bool" where
  "confined f \<longleftrightarrow> (\<forall>cur m. safe cur \<longrightarrow> inside cur m (f (cur, m)))"

lemma safe_on_screen: "safe cur \<Longrightarrow> on_screen cur"
  by (simp add: safe_def)

lemma within_refl [simp]: "within cur m m"
  by (simp add: within_def)

lemma within_trans: "within cur m m' \<Longrightarrow> within cur m' m'' \<Longrightarrow> within cur m m''"
  by (simp add: within_def)

lemma within_same: "same_place cur c \<Longrightarrow> within c m m' = within cur m m'"
  by (simp add: within_def same_place_def)

lemma inside_self: "safe cur \<Longrightarrow> inside cur m (cur, m)"
  by (simp add: inside_def)

lemma inside_if: "(P \<Longrightarrow> inside cur m a) \<Longrightarrow> (\<not> P \<Longrightarrow> inside cur m b) \<Longrightarrow> inside cur m (if P then a else b)"
  by simp

lemma inside_confined: "safe cur \<Longrightarrow> confined f \<Longrightarrow> inside cur m (f (cur, m))"
  by (simp add: confined_def)

lemma inside_trans:
  assumes "inside cur m (c, n)" and "inside c n v"
  shows "inside cur m v"
proof -
  have p: "same_place cur c" and w: "within cur m n" using assms(1) by (simp_all add: inside_def)
  have q: "same_place c (fst v)" and x: "within cur n (snd v)"
    using assms(2) within_same [OF p] by (simp_all add: inside_def)
  show ?thesis
    using assms(2) same_place_trans [OF p q] within_trans [OF w x] by (simp add: inside_def)
qed

lemma inside_comp:
  assumes "inside cur m v" and "confined f"
  shows "inside cur m (f v)"
proof (cases v)
  case (Pair c n)
  then have c: "inside cur m (c, n)" "safe c" using assms(1) by (simp_all add: inside_def)
  show ?thesis
    unfolding Pair by (rule inside_trans [OF c(1) inside_confined [OF c(2) assms(2)]])
qed

lemma confinedI: "(\<And>cur m. safe cur \<Longrightarrow> inside cur m (f (cur, m))) \<Longrightarrow> confined f"
  by (simp add: confined_def)

lemma confined_comp: "confined f \<Longrightarrow> confined g \<Longrightarrow> confined (\<lambda>v. g (f v))"
  by (rule confinedI) (rule inside_comp [OF inside_confined])

lemma confined_id: "confined (\<lambda>v. v)"
  by (simp add: confined_def inside_self)

lemma confined_funpow: "confined f \<Longrightarrow> confined (f ^^ n)"
  by (induction n) (simp_all add: confined_comp confined_id id_def comp_def)

lemma confined_fold: "(\<And>x. confined (f x)) \<Longrightarrow> confined (fold f xs)"
  by (induction xs) (simp_all add: confined_id confined_comp id_def comp_def)

text \<open>An operation that keeps the cursor on the screen and the margins and numbers as they are is
  confined once its writes are.\<close>

definition same_margins :: "virtscreen \<Rightarrow> virtscreen \<Rightarrow> bool" where
  "same_margins c c' \<longleftrightarrow> top_scroll c' = top_scroll c \<and> bottom_scroll c' = bottom_scroll c
     \<and> ansi_element c' = ansi_element c \<and> cur_ansi_number c' = cur_ansi_number c"

lemma confined_keeps:
  assumes "keeps f" and "\<And>cur m. same_margins cur (fst (f (cur, m)))"
    and "\<And>cur m. safe cur \<Longrightarrow> within cur m (snd (f (cur, m)))"
  shows "confined f"
proof (rule confinedI)
  fix cur m
  assume *: "safe cur"
  have k: "on_screen (fst (f (cur, m)))" "same_place cur (fst (f (cur, m)))"
    using keepsD [OF assms(1) safe_on_screen [OF *], of m] by auto
  then show "inside cur m (f (cur, m))"
    using assms(2) [of cur m] assms(3) [OF *, of m] *
    by (simp add: inside_def safe_def same_margins_def) (simp add: same_place_def)
qed

subsection \<open>Cells and rows\<close>

lemma row_le: "y \<le> (y' :: int) \<Longrightarrow> 0 \<le> c \<Longrightarrow> y * c \<le> y' * c"
  by (rule mult_right_mono)

lemma loc_bounds:
  assumes "0 \<le> y" and "y < rows cur" and "0 \<le> x" and "x < columns cur"
  shows "data cur \<le> loc_in_virtscreen cur y x"
    and "loc_in_virtscreen cur y x < data cur + rows cur * columns cur"
proof -
  have "0 \<le> y * columns cur" using assms by simp
  then show "data cur \<le> loc_in_virtscreen cur y x"
    using assms by (simp add: loc_in_virtscreen_def)
  have "(y + 1) * columns cur \<le> rows cur * columns cur"
    using assms by (intro row_le) simp_all
  then show "loc_in_virtscreen cur y x < data cur + rows cur * columns cur"
    using assms by (simp add: loc_in_virtscreen_def algebra_simps)
qed

lemma within_fill:
  "data cur \<le> p \<Longrightarrow> q \<le> data cur + rows cur * columns cur \<Longrightarrow> within cur m m' \<Longrightarrow> within cur m (fill p q v m')"
  by (simp add: within_def fill_def)

lemma within_move:
  "data cur \<le> d \<Longrightarrow> d + int n \<le> data cur + rows cur * columns cur \<Longrightarrow> within cur m (move d s n m)"
  by (simp add: within_def move_def)

lemma copy_cells_frame: "a < d \<or> d + int n \<le> a \<Longrightarrow> copy_cells n d s m a = m a"
  by (induction n arbitrary: d s m) auto

lemma within_copy:
  "data cur \<le> d \<Longrightarrow> d + int n \<le> data cur + rows cur * columns cur \<Longrightarrow> within cur m (copy_cells n d s m)"
  by (auto simp: within_def copy_cells_frame)

lemma scroll_length_eq:
  "b \<le> l \<Longrightarrow> l - b \<le> 1073741824 \<Longrightarrow> int (scroll_length l b div 2) = l - b"
  by (simp add: scroll_length_def u32_of_int_pos nat_div_distrib)

lemma columns_le: "on_screen cur \<Longrightarrow> columns cur \<le> rows cur * columns cur"
  using mult_right_mono [of 1 "rows cur" "columns cur"] by (simp add: on_screen_def)

text \<open>Scrolling the lines from \<open>y\<close> to the end of the region, one line up or down.\<close>

lemma within_scroll:
  assumes "on_screen cur" and "rows cur * columns cur \<le> 1073741824"
    and "0 \<le> y" and "y < bottom_scroll cur"
  defines "b \<equiv> loc_in_virtscreen cur y 0" and "e \<equiv> loc_in_virtscreen cur (bottom_scroll cur) 0"
  shows "within cur m (fill (e - columns cur) e v
      (move b (b + columns cur) (scroll_length (e - columns cur) b div 2) m))"
    and "within cur m (fill b (b + columns cur) v
      (move (b + columns cur) b (scroll_length (e - columns cur) b div 2) m))"
proof -
  have c: "0 < columns cur" "0 \<le> y * columns cur" using assms(1,3) by (simp_all add: on_screen_def)
  have r: "(y + 1) * columns cur \<le> bottom_scroll cur * columns cur"
    using assms(4) c by (intro row_le) simp_all
  have e: "bottom_scroll cur * columns cur \<le> rows cur * columns cur"
    using assms(1) c by (intro row_le) (simp_all add: on_screen_def)
  have b: "data cur \<le> b" "b + columns cur \<le> e" "e \<le> data cur + rows cur * columns cur"
    using r e c(2) by (simp_all add: b_def e_def loc_in_virtscreen_def algebra_simps)
  then have n: "int (scroll_length (e - columns cur) b div 2) = e - columns cur - b"
    using assms(2) c(1) by (intro scroll_length_eq) simp_all
  have f: "data cur \<le> e - columns cur" "b + int (scroll_length (e - columns cur) b div 2) \<le> data cur + rows cur * columns cur"
    "data cur \<le> b + columns cur" "b + columns cur \<le> data cur + rows cur * columns cur"
    "b + columns cur + int (scroll_length (e - columns cur) b div 2) \<le> data cur + rows cur * columns cur"
    unfolding n using b c(1) by simp_all
  show "within cur m (fill (e - columns cur) e v
      (move b (b + columns cur) (scroll_length (e - columns cur) b div 2) m))"
    by (intro within_fill within_move f b)
  show "within cur m (fill b (b + columns cur) v
      (move (b + columns cur) b (scroll_length (e - columns cur) b div 2) m))"
    by (intro within_fill within_move f b)
qed

subsection \<open>The operations\<close>

lemmas margins = same_margins_def Let_def split_def

lemma confined_position: "confined (position_console y x rel)"
  by (rule confined_keeps [OF keeps_position]) (simp_all add: position_console_def margins)

lemma confined_simple: "confined (change_attribute a)" "confined (set_handler h)"
  by (rule confined_keeps [OF keeps_simple(1)], simp_all add: change_attribute_def margins)
    (rule confined_keeps [OF keeps_simple(3)], simp_all add: set_handler_def margins)

lemma confined_select: "confined (select_graphic c)"
  by (rule confined_keeps [OF keeps_select]) (simp_all add: select_graphic_def change_attribute_def margins)

lemma confined_character: "confined (change_character ch)"
proof (rule confined_keeps [OF keeps_simple(2)])
  fix cur m
  assume "safe cur"
  then have "on_screen cur" by (rule safe_on_screen)
  then show "within cur m (snd (change_character ch (cur, m)))"
    using loc_bounds [of "ypos cur" cur "xpos cur"]
    by (simp add: change_character_def within_def on_screen_def)
qed (simp add: change_character_def margins)

text \<open>Clearing from one place of the screen to another.\<close>

lemma within_clear_region:
  assumes "0 \<le> y1" "y1 < rows cur" "0 \<le> x1" "x1 < columns cur"
    and "0 \<le> y2" "y2 < rows cur" "0 \<le> x2" "x2 < columns cur"
  shows "within cur m (snd (clear_region y1 x1 y2 x2 a (cur, m)))"
  using loc_bounds(1) [OF assms(1-4)] loc_bounds(2) [OF assms(5-8)]
  by (simp add: clear_region_def within_fill)

lemma confined_clear: "confined (clear_virtscreen mode)" "confined (clear_to_eol mode)"
proof -
  show "confined (clear_virtscreen mode)"
  proof (rule confined_keeps [OF keeps_clear(1)])
    fix cur m
    assume "safe cur"
    then have *: "on_screen cur" by (rule safe_on_screen)
    show "within cur m (snd (clear_virtscreen mode (cur, m)))"
      using * within_clear_region [of _ cur _ _ _ m "attrib cur"]
      by (simp add: clear_virtscreen_def on_screen_def split_def)
  qed (simp add: clear_virtscreen_def margins)
  show "confined (clear_to_eol mode)"
  proof (rule confined_keeps [OF keeps_clear(2)])
    fix cur m
    assume "safe cur"
    then have *: "on_screen cur" by (rule safe_on_screen)
    show "within cur m (snd (clear_to_eol mode (cur, m)))"
      using * within_clear_region [of _ cur _ _ _ m "attrib cur"]
      by (simp add: clear_to_eol_def on_screen_def split_def)
  qed (simp add: clear_to_eol_def margins)
qed

lemma confined_scroll: "confined (scroll_virt_up_at_cursor d)" "confined scroll_virtscreen"
proof -
  have s: "safe cur \<Longrightarrow> on_screen cur \<and> rows cur * columns cur \<le> 1073741824 \<and> 0 \<le> top_scroll cur
     \<and> top_scroll cur < bottom_scroll cur \<and> 0 \<le> ypos cur" for cur
    by (simp add: safe_def on_screen_def)
  show "confined (scroll_virt_up_at_cursor d)"
    by (rule confined_keeps [OF keeps_lines(2)])
      (auto simp: scroll_virt_up_at_cursor_def margins dest!: s intro: within_scroll)
  show "confined scroll_virtscreen"
    by (rule confined_keeps [OF keeps_lines(3)])
      (auto simp: scroll_virtscreen_def margins dest!: s intro: within_scroll)
qed

lemma delete_within:
  assumes "safe cur" and "0 \<le> n" and "n < 1000000000"
  shows "within cur m (snd (delete_chars_in_line n (cur, m)))"
proof -
  have o: "on_screen cur" and c: "columns cur \<le> 1073741824"
    using assms(1) columns_le [of cur] by (auto simp: safe_def)
  then have x: "s32 (xpos cur + n) = xpos cur + n"
    using assms(2,3) by (simp add: on_screen_def)
  have "data cur \<le> loc_in_virtscreen cur (ypos cur) (xpos cur)"
    and "loc_in_virtscreen cur (ypos cur) (columns cur - 1) < data cur + rows cur * columns cur"
    using o by (auto intro!: loc_bounds simp: on_screen_def)
  then show ?thesis
    using o assms(2)
    by (simp add: delete_chars_in_line_def Let_def x)
      (auto intro!: within_fill within_copy simp: loc_in_virtscreen_def on_screen_def)
qed

lemma inside_delete:
  assumes "safe cur" and "0 \<le> n" and "n < 1000000000"
  shows "inside cur m (delete_chars_in_line n (cur, m))"
  using delete_within [OF assms] assms(1)
  by (simp add: inside_def delete_chars_in_line_def Let_def)

lemma confined_index: "confined index_down" "confined index_up"
proof -
  have d: "snd (index_down (cur, m)) = m \<or> snd (index_down (cur, m)) = snd (scroll_virtscreen (cur, m))" for cur m
    by (simp add: index_down_def scroll_virtscreen_def loc_in_virtscreen_def Let_def)
  have u: "snd (index_up (cur, m)) = m \<or> snd (index_up (cur, m)) = snd (scroll_virt_up_at_cursor False (cur, m))" for cur m
    by (simp add: index_up_def scroll_virt_up_at_cursor_def loc_in_virtscreen_def Let_def)
  have s: "within cur m (snd (scroll_virtscreen (cur, m)))"
    "within cur m (snd (scroll_virt_up_at_cursor False (cur, m)))" if "safe cur" for cur m
    using inside_confined [OF that confined_scroll(2), of m]
      inside_confined [OF that confined_scroll(1) [of False], of m] by (auto simp: inside_def)
  show "confined index_down"
  proof (rule confined_keeps [OF keeps_index(1)])
    fix cur m
    assume "safe cur"
    then show "within cur m (snd (index_down (cur, m)))"
      using d [of cur m] s(1) [of cur m] by (elim disjE) simp_all
  qed (simp add: index_down_def scroll_virtscreen_def margins)
  show "confined index_up"
  proof (rule confined_keeps [OF keeps_index(2)])
    fix cur m
    assume "safe cur"
    then show "within cur m (snd (index_up (cur, m)))"
      using u [of cur m] s(2) [of cur m] by (elim disjE) simp_all
  qed (simp add: index_up_def scroll_virt_up_at_cursor_def margins)
qed

lemma interpret_char_cells:
  "snd (interpret_char ch (cur, m)) \<in> {m, snd (scroll_virtscreen (cur, m)),
     snd (clear_virtscreen 2 (cur, m)), snd (change_character ch (cur, m))}"
  by (simp add: interpret_char_def scroll_virtscreen_def loc_in_virtscreen_def set_handler_def
      position_console_def change_character_def clear_virtscreen_def Let_def split_def)

lemma within_confined: "confined f \<Longrightarrow> safe cur \<Longrightarrow> within cur m (snd (f (cur, m)))"
  by (simp add: confined_def inside_def)

lemma confined_interpret_char: "confined (interpret_char ch)"
proof (rule confined_keeps [OF keeps_interpret_char])
  fix cur m
  assume s: "safe cur"
  show "within cur m (snd (interpret_char ch (cur, m)))"
    using interpret_char_cells [of ch cur m] within_confined [OF confined_scroll(2) s]
      within_confined [OF confined_clear(1) s] within_confined [OF confined_character s]
    by (elim insertE emptyE) simp_all
qed (simp add: interpret_char_def scroll_virtscreen_def set_handler_def position_console_def
      change_character_def clear_virtscreen_def clear_region_def margins)

lemma inside_xpos: "safe cur \<Longrightarrow> inside cur m (cur\<lparr>xpos := 0\<rparr>, m)"
  by (simp add: inside_def safe_def vt_unfold)

lemma inside_save:
  "safe cur \<Longrightarrow> inside cur m (cur\<lparr>old_attrib := a, old_xpos := x, old_ypos := y\<rparr>, m)"
  "safe cur \<Longrightarrow> inside cur m (cur\<lparr>old_xpos := x, old_ypos := y\<rparr>, m)"
  by (simp_all add: inside_def safe_def vt_unfold)

lemma inside_start:
  "safe cur \<Longrightarrow> inside cur m (cur\<lparr>cur_ansi_number := 0, ansi_element := [],
     ansi_reading_number := False, next_char_send := h\<rparr>, m)"
  by (simp add: inside_def safe_def vt_unfold)

lemma inside_then: "inside cur m v \<Longrightarrow> confined f \<Longrightarrow> inside cur m (case v of (c, n) \<Rightarrow> if P then f (c, n) else (c, n))"
  by (cases v) (simp add: inside_comp)

lemma confined_interpret_ansi: "confined (interpret_ansi ch)"
  apply (rule confinedI)
  apply (simp only: interpret_ansi_def prod.case Let_def)
  apply (intro inside_if inside_then inside_save inside_start inside_comp [OF _ confined_position]
      inside_comp [OF _ confined_index(1)] inside_comp [OF _ confined_index(2)]
      inside_comp [OF _ confined_simple(1)] inside_comp [OF _ confined_simple(2)]
      confined_simple inside_xpos inside_self | assumption)+
  done

lemma arg_bounds:
  assumes "safe cur"
  shows "0 \<le> arg0 1 cur \<and> arg0 1 cur < 1000000000"
  using assms by (cases "ansi_element cur") (simp_all add: arg0_def safe_def ansi_elements_def)

definition opens_region :: "virtscreen \<Rightarrow> bool" where
  "opens_region cur \<longleftrightarrow> (arg0 1 cur \<le> arg1 (rows cur) cur \<longrightarrow>
     max 0 (arg0 1 cur - 1) < min (rows cur) (arg1 (rows cur) cur))"

lemma inside_region:
  assumes "safe cur" and "opens_region cur" and "arg0 1 cur \<le> arg1 (rows cur) cur"
  shows "inside cur m (set_scroll_region (arg0 1 cur) (arg1 (rows cur) cur) (cur, m))"
proof -
  have s: "s32 (arg0 1 cur - 1) = arg0 1 cur - 1" using arg_bounds [OF assms(1)] by simp
  show ?thesis
    using assms by (simp add: inside_def safe_def set_scroll_region_def s opens_region_def vt_unfold)
qed

lemma inside_graphics:
  "safe cur \<Longrightarrow> inside cur m (fold select_graphic xs (if P then change_attribute a (cur, m) else (cur, m)))"
  by (rule inside_comp [OF _ confined_fold [of select_graphic, OF confined_select]])
    (simp add: inside_self inside_confined confined_simple)

lemma inside_command:
  assumes s: "safe cur" and r: "ch = 0x72 \<Longrightarrow> opens_region cur"
  shows "inside cur m (ansi_command ch (cur, m))"
  apply (simp only: ansi_command_def prod.case)
  apply (intro inside_if inside_save(2) inside_graphics inside_self inside_delete
      inside_region inside_confined confined_position confined_clear
      confined_funpow confined_scroll s r
      | rule arg_bounds [OF s, THEN conjunct1] arg_bounds [OF s, THEN conjunct2] | assumption)+
  done

text \<open>A byte that neither makes a number overflow nor asks for a scroll region with no line.\<close>

definition harmless :: "int \<Rightarrow> virtscreen \<Rightarrow> bool" where
  "harmless ch cur \<longleftrightarrow> next_char_send cur = special_reading_ansi \<longrightarrow>
     (0x30 \<le> ch \<and> ch \<le> 0x39 \<longrightarrow> cur_ansi_number cur < 100000000)
     \<and> (ch = 0x72 \<longrightarrow> opens_region (end_number ch cur))"

primrec all_harmless :: "int list \<Rightarrow> vt \<Rightarrow> bool" where
  "all_harmless [] v \<longleftrightarrow> True"
| "all_harmless (ch # bytes) v \<longleftrightarrow> harmless ch (fst v) \<and> all_harmless bytes (char_to_virtscreen ch v)"

lemma inside_end_number: "safe cur \<Longrightarrow> inside cur m (end_number ch cur, m)"
  by (simp add: inside_def safe_def end_number_def vt_unfold)

lemma inside_digit:
  assumes "safe cur" and "0x30 \<le> ch \<and> ch \<le> 0x39" and "cur_ansi_number cur < 100000000"
  shows "inside cur m (cur\<lparr>cur_ansi_number := s32 (s32 (cur_ansi_number cur * 10) + (ch - 0x30)),
    ansi_reading_number := True\<rparr>, m)"
proof -
  have "s32 (cur_ansi_number cur * 10) = cur_ansi_number cur * 10"
    "s32 (cur_ansi_number cur * 10 + (ch - 0x30)) = cur_ansi_number cur * 10 + (ch - 0x30)"
    using assms by (simp_all add: safe_def)
  then show ?thesis
    using assms by (simp add: inside_def safe_def vt_unfold)
qed

lemma inside_reading:
  assumes s: "safe cur" and h: "harmless ch cur" "next_char_send cur = special_reading_ansi"
  shows "inside cur m (reading_ansi ch (cur, m))"
proof -
  have r: "ch = 0x72 \<Longrightarrow> opens_region (end_number ch cur)"
    and d: "0x30 \<le> ch \<and> ch \<le> 0x39 \<Longrightarrow> cur_ansi_number cur < 100000000"
    using h by (simp_all add: harmless_def)
  have e: "inside cur m (end_number ch cur, m)" "safe (end_number ch cur)"
    using inside_end_number [OF s, of m ch] by (simp_all add: inside_def)
  have "inside cur m (ansi_command ch (end_number ch cur, m))"
    by (rule inside_trans [OF e(1) inside_command [OF e(2) r]])
  then have "inside cur m (set_handler std_interpret_char (ansi_command ch (end_number ch cur, m)))"
    by (rule inside_comp [OF _ confined_simple(2)])
  then show ?thesis
    using e(1) inside_digit [OF s _ d] by (simp add: reading_ansi_def)
qed

lemma inside_char:
  assumes "safe cur" and "harmless ch cur"
  shows "inside cur m (char_to_virtscreen ch (cur, m))"
  using assms inside_reading [OF assms] confined_interpret_char confined_interpret_ansi confined_simple(2)
  by (simp add: char_to_virtscreen_def confined_def split: handler.split)

lemma inside_bytes:
  "inside cur m v \<Longrightarrow> all_harmless bytes v \<Longrightarrow> inside cur m (fold char_to_virtscreen bytes v)"
proof (induction bytes arbitrary: v)
  case (Cons ch bytes)
  obtain c n where v: "v = (c, n)" by (cases v)
  have "safe c" "harmless ch c" using Cons.prems v by (simp_all add: inside_def)
  then have "inside cur m (char_to_virtscreen ch v)"
    unfolding v by (rule inside_trans [OF Cons.prems(1) [unfolded v] inside_char])
  then show ?case using Cons.IH Cons.prems(2) by simp
qed simp

text \<open>C32. Output to a screen changes no cell outside it: any stream of bytes, on a screen whose
  scroll region has a line, writes only to the \<open>rows * columns\<close> cells of the screen, as long as no
  number of an escape sequence overflows and no sequence asks for an empty scroll region.\<close>
theorem vt100_writes_confined:
  assumes "safe cur" and "all_harmless bytes (cur, m)"
    and "fold char_to_virtscreen bytes (cur, m) = (cur', m')"
    and "a < data cur \<or> data cur + rows cur * columns cur \<le> a"
  shows "m' a = m a \<and> safe cur'"
  using inside_bytes [OF inside_self [OF assms(1)] assms(2)] assms(3,4)
  by (auto simp: inside_def within_def)

section \<open>Text and cursor addressing\<close>

text \<open>The decimal digits of a number, as a program sends them.\<close>

fun decimal :: "nat \<Rightarrow> int list" where
  "decimal n = (if n < 10 then [48 + int n] else decimal (n div 10) @ [48 + int (n mod 10)])"

declare decimal.simps [simp del]

lemma digit_le: "n mod 10 \<le> (9 :: nat)"
  by presburger

lemma reading_decimal:
  assumes "next_char_send cur = special_reading_ansi" and "cur_ansi_number cur = 0" and "n < 1000000000"
  shows "fold char_to_virtscreen (decimal n) (cur, m) =
    (cur\<lparr>cur_ansi_number := int n, ansi_reading_number := True\<rparr>, m)"
  using assms
proof (induction n rule: decimal.induct)
  case (1 n)
  have d: "s32 (s32 (int (n div 10) * 10) + int (n mod 10)) = int n"
    using "1.prems"(3) by (simp add: zdiv_int zmod_int)
  show ?case
  proof (cases "n < 10")
    case True
    then show ?thesis
      using "1.prems" by (simp add: decimal.simps [of n] char_to_virtscreen_def reading_ansi_def)
  next
    case False
    have "n div 10 < 1000000000" using "1.prems"(3) by simp
    note ih = "1.IH" [OF False "1.prems"(1,2) this]
    show ?thesis
      using "1.prems"(1) False d digit_le [of n]
      by (subst decimal.simps) (simp add: ih char_to_virtscreen_def reading_ansi_def)
  qed
qed

lemma clamp_less_one: "0 \<le> n \<Longrightarrow> 0 < k \<Longrightarrow> clamp k (less_one n) = min (max 0 (n - 1)) (k - 1)"
  by (auto simp: clamp_def less_one_def)

lemma send_start:
  "next_char_send cur = std_interpret_char \<Longrightarrow> fold char_to_virtscreen [27, 0x5B] (cur, m) =
     (cur\<lparr>next_char_send := special_reading_ansi, cur_ansi_number := 0, ansi_element := [],
        ansi_reading_number := False\<rparr>, m)"
  by (simp add: char_to_virtscreen_def interpret_char_def interpret_ansi_def set_handler_def)

text \<open>C33. Cursor addressing: the sequence \<open>ESC [ row ; column H\<close>, with both numbers in decimal, puts
  the cursor on that row and column, counted from one and limited to the screen, writes nothing, and
  leaves the terminal ready for text.\<close>
theorem vt100_cursor_address:
  assumes "on_screen cur" and "next_char_send cur = std_interpret_char"
    and "r < 1000000000" and "c < 1000000000"
    and "fold char_to_virtscreen ([27, 0x5B] @ decimal r @ [0x3B] @ decimal c @ [0x48]) (cur, m) = (cur', m')"
  shows "ypos cur' = min (int (r - 1)) (rows cur - 1) \<and> xpos cur' = min (int (c - 1)) (columns cur - 1)
    \<and> next_char_send cur' = std_interpret_char \<and> m' = m"
proof -
  define c1 where "c1 = cur\<lparr>next_char_send := special_reading_ansi, cur_ansi_number := 0, ansi_element := [],
        ansi_reading_number := False\<rparr>"
  define c2 where "c2 = c1\<lparr>cur_ansi_number := 0, ansi_element := [int r], ansi_reading_number := False\<rparr>"
  have 1: "fold char_to_virtscreen (decimal r @ [0x3B]) (c1, m) = (c2, m)"
    using reading_decimal [of c1 r m] assms(3)
    by (simp add: c1_def c2_def char_to_virtscreen_def reading_ansi_def end_number_def ansi_elements_def)
  have 2: "fold char_to_virtscreen (decimal c) (c2, m) =
      (c2\<lparr>cur_ansi_number := int c, ansi_reading_number := True\<rparr>, m)"
    using reading_decimal [of c2 c m] assms(4) by (simp add: c1_def c2_def)
  have "fold char_to_virtscreen ([27, 0x5B] @ decimal r @ [0x3B] @ decimal c @ [0x48]) (cur, m) =
    fold char_to_virtscreen [0x48] (fold char_to_virtscreen (decimal c)
      (fold char_to_virtscreen (decimal r @ [0x3B]) (fold char_to_virtscreen [27, 0x5B] (cur, m))))"
    by simp
  also have "\<dots> = char_to_virtscreen 0x48 (c2\<lparr>cur_ansi_number := int c, ansi_reading_number := True\<rparr>, m)"
    unfolding send_start [OF assms(2)] c1_def [symmetric] 1 2 by simp
  finally show ?thesis
    using assms(1,5)
    by (auto simp: c2_def c1_def char_to_virtscreen_def reading_ansi_def end_number_def ansi_elements_def
        ansi_command_def arg0_def arg1_def position_console_def set_handler_def clamp_less_one on_screen_def)
qed

definition printable :: "int \<Rightarrow> bool" where
  "printable ch \<longleftrightarrow> ch \<notin> {0, 8, 9, 10, 12, 13, 27}"

lemma send_printable:
  assumes "next_char_send cur = std_interpret_char" and "printable ch"
  shows "char_to_virtscreen ch (cur, m) =
    (cur\<lparr>xpos := (if xpos cur + 1 \<ge> columns cur then columns cur - 1 else xpos cur + 1)\<rparr>,
     m(loc_in_virtscreen cur (ypos cur) (xpos cur) := cell (attrib cur) ch))"
  using assms by (simp add: char_to_virtscreen_def interpret_char_def printable_def change_character_def)

lemma text_cells:
  "(\<lambda>a. let i = a - (p + 1) in if 0 \<le> i \<and> i < int (length bytes) then f (bytes ! nat i) else (m(p := f ch)) a) =
   (\<lambda>a. let i = a - p in if 0 \<le> i \<and> i < int (length (ch # bytes)) then f ((ch # bytes) ! nat i) else m a)"
proof -
  have "nat (a - p) - Suc 0 = nat (a - (p + 1))" for a by simp
  then show ?thesis by (auto simp: fun_eq_iff Let_def nth_Cons')
qed

text \<open>C34. Text that fits in the rest of the line is shown: the bytes appear in order from the cursor on
  in the current attribute, every other cell is unchanged, and the cursor ends behind the last byte,
  on the same line.\<close>
theorem vt100_shows_text:
  assumes "on_screen cur" and "next_char_send cur = std_interpret_char"
    and "list_all printable bytes" and "xpos cur + int (length bytes) < columns cur"
  shows "fold char_to_virtscreen bytes (cur, m) =
    (cur\<lparr>xpos := xpos cur + int (length bytes)\<rparr>,
     \<lambda>a. let i = a - loc_in_virtscreen cur (ypos cur) (xpos cur)
         in if 0 \<le> i \<and> i < int (length bytes) then cell (attrib cur) (bytes ! nat i) else m a)"
  using assms
proof (induction bytes arbitrary: cur m)
  case (Cons ch bytes)
  let ?c = "cur\<lparr>xpos := xpos cur + 1\<rparr>"
  let ?m = "m(loc_in_virtscreen cur (ypos cur) (xpos cur) := cell (attrib cur) ch)"
  have s: "char_to_virtscreen ch (cur, m) = (?c, ?m)"
    using send_printable [of cur ch m] Cons.prems by simp
  have l: "loc_in_virtscreen ?c (ypos ?c) (xpos ?c) = loc_in_virtscreen cur (ypos cur) (xpos cur) + 1"
    "attrib ?c = attrib cur"
    by (simp_all add: loc_in_virtscreen_def)
  have "fold char_to_virtscreen bytes (?c, ?m) =
    (?c\<lparr>xpos := xpos ?c + int (length bytes)\<rparr>,
     \<lambda>a. let i = a - loc_in_virtscreen ?c (ypos ?c) (xpos ?c)
         in if 0 \<le> i \<and> i < int (length bytes) then cell (attrib ?c) (bytes ! nat i) else ?m a)"
    using Cons.prems by (intro Cons.IH) (simp_all add: on_screen_def ansi_elements_def)
  also have "\<dots> = (cur\<lparr>xpos := xpos cur + int (length (ch # bytes))\<rparr>,
     \<lambda>a. let i = a - loc_in_virtscreen cur (ypos cur) (xpos cur)
         in if 0 \<le> i \<and> i < int (length (ch # bytes)) then cell (attrib cur) ((ch # bytes) ! nat i) else m a)"
    unfolding l text_cells [of _ bytes "cell (attrib cur)" m ch, symmetric] by (simp add: Let_def)
  finally show ?case by (simp only: fold_simps s)
qed (auto simp: Let_def fun_eq_iff)

section \<open>Witnesses\<close>

definition demo_screen :: virtscreen where
  "demo_screen = \<lparr>rows = 24, columns = 80, num_bytes = 3840, data = 1000, backing = 9000, data_off_scr = 1000,
     xpos = 0, ypos = 23, top_scroll = 0, bottom_scroll = 24, attrib = 7, old_attrib = 7, old_xpos = 0,
     old_ypos = 0, cur_ansi_number = 0, ansi_reading_number = False, ansi_element = [],
     next_char_send = std_interpret_char\<rparr>"

lemma demo_ok: "on_screen demo_screen" "safe demo_screen" "next_char_send demo_screen = std_interpret_char"
  by (simp_all add: demo_screen_def on_screen_def safe_def ansi_elements_def)

lemmas demo_run = demo_screen_def char_to_virtscreen_def interpret_char_def interpret_ansi_def set_handler_def
  index_down_def scroll_virtscreen_def loc_in_virtscreen_def reading_ansi_def end_number_def ansi_elements_def
  ansi_command_def arg0_def arg1_def set_scroll_region_def

theorem vt100_cursor_on_screen_witness:
  "\<exists>cur' m'. fold char_to_virtscreen [0x41, 10, 8, 9] (demo_screen, \<lambda>a. 0) = (cur', m')
     \<and> 0 \<le> xpos cur' \<and> xpos cur' < 80 \<and> 0 \<le> ypos cur' \<and> ypos cur' < 24"
proof -
  obtain c n where e: "fold char_to_virtscreen [0x41, 10, 8, 9] (demo_screen, \<lambda>a. 0) = (c, n)"
    by (cases "fold char_to_virtscreen [0x41, 10, 8, 9] (demo_screen, \<lambda>a. 0)") blast
  show ?thesis
    using vt100_cursor_on_screen [OF demo_ok(1) e] by (simp add: demo_screen_def) (use e in \<open>simp add: demo_screen_def\<close>)
qed

theorem vt100_writes_confined_witness:
  "\<exists>cur' m'. fold char_to_virtscreen [27, 0x44] (demo_screen, \<lambda>a. a) = (cur', m') \<and> m' 999 = 999 \<and> safe cur'"
proof -
  obtain c n where e: "fold char_to_virtscreen [27, 0x44] (demo_screen, \<lambda>a. a) = (c, n)"
    by (cases "fold char_to_virtscreen [27, 0x44] (demo_screen, \<lambda>a. a)") blast
  have h: "all_harmless [27, 0x44] (demo_screen, \<lambda>a. a)"
    by (simp add: harmless_def demo_run)
  have "(999 :: int) < data demo_screen \<or> data demo_screen + rows demo_screen * columns demo_screen \<le> 999"
    by (simp add: demo_screen_def)
  from vt100_writes_confined [OF demo_ok(2) h e this] e show ?thesis by blast
qed

theorem vt100_cursor_address_witness:
  "\<exists>cur' m'. fold char_to_virtscreen ([27, 0x5B] @ decimal 12 @ [0x3B] @ decimal 99 @ [0x48]) (demo_screen, \<lambda>a. a) = (cur', m')
     \<and> ypos cur' = 11 \<and> xpos cur' = 79 \<and> m' = (\<lambda>a. a)"
proof -
  let ?r = "fold char_to_virtscreen ([27, 0x5B] @ decimal 12 @ [0x3B] @ decimal 99 @ [0x48]) (demo_screen, \<lambda>a. a)"
  obtain c n where e: "?r = (c, n)" by (cases ?r) blast
  have "ypos c = 11 \<and> xpos c = 79 \<and> n = (\<lambda>a. a)"
    using vt100_cursor_address [OF demo_ok(1,3) _ _ e] by (simp add: demo_screen_def)
  with e show ?thesis by blast
qed

theorem vt100_shows_text_witness:
  "snd (fold char_to_virtscreen [0x48, 0x69] (demo_screen, \<lambda>a. 0)) 2841 = cell 7 0x69"
proof -
  have "list_all printable [0x48, 0x69]" "xpos demo_screen + int (length [0x48, 0x69 :: int]) < columns demo_screen"
    by (simp_all add: printable_def demo_screen_def)
  from vt100_shows_text [OF demo_ok(1,3) this, of "\<lambda>a. 0"] show ?thesis
    by (simp add: demo_screen_def loc_in_virtscreen_def del: fold_simps)
qed

text \<open>An empty scroll region: \<open>ESC [ 0 ; 0 r\<close> is accepted, and the next \<open>ESC D\<close> blanks the line before
  the screen and moves nearly the whole address space.\<close>

theorem vt100_empty_region_escapes:
  "snd (fold char_to_virtscreen [27, 0x5B, 0x30, 0x3B, 0x30, 0x72, 27, 0x44] (demo_screen, \<lambda>a. a)) 999 = cell 7 0x20
   \<and> scroll_length (data demo_screen - columns demo_screen) (data demo_screen) = 4294967136"
proof -
  have l: "scroll_length 920 1000 = 4294967136" by (simp add: scroll_length_def u32_of_int_def)
  show ?thesis by (simp add: demo_run fill_def l Let_def)
qed

end
