(* ===== verification/Path.thy ===== *)
theory Path
  imports CString
begin

text \<open>
  Path names in the file system server, \<^verbatim>\<open>srv/vfs/path.c\<close>, over the byte memory of the C library:
  \<open>path_concat\<close> appends a path to a directory and resolves \<open>.\<close> and \<open>..\<close> on the way, \<open>path_combine\<close>
  makes a path absolute.
\<close>

section \<open>Definitions\<close>

abbreviation (input) SLASH :: byte where "SLASH \<equiv> 47"
abbreviation (input) DOT :: byte where "DOT \<equiv> 46"

text \<open>Copying up to the next slash, and going back to the slash before.\<close>

partial_function (option) copy_component :: "nat \<Rightarrow> nat \<Rightarrow> mem \<Rightarrow> (nat \<times> nat \<times> mem) option" where
  "copy_component c t m =
     (if m t \<noteq> 0 \<and> m t \<noteq> SLASH then copy_component (c + 1) (t + 1) (m(c := m t)) else Some (c, t, m))"

partial_function (option) back_up :: "nat \<Rightarrow> nat \<Rightarrow> mem \<Rightarrow> nat option" where
  "back_up s c m =
     (if c \<noteq> s \<and> m c \<noteq> SLASH then if c = 0 then None else back_up s (c - 1) m else Some c)"

partial_function (option) concat_loop :: "nat \<Rightarrow> nat \<Rightarrow> nat \<Rightarrow> mem \<Rightarrow> (nat \<times> mem) option" where
  "concat_loop s c t m =
     (if m t = 0 then Some (c, m)
      else if m t = SLASH then concat_loop s (c + 1) (t + 1) (m(c := m t))
      else if m t \<noteq> DOT then do {
        (c1, t1, m1) \<leftarrow> copy_component c t m;
        concat_loop s c1 t1 m1
      }
      else if m (t + 1) = SLASH \<or> m (t + 1) = 0 then concat_loop s c (t + 2) m
      else if m (t + 1) = DOT then
        (if c \<noteq> s + 1
         then if c < 2 then None else do {
           c1 \<leftarrow> back_up s (c - 2) m;
           concat_loop s (c1 + 1) (if m (t + 2) = SLASH then t + 3 else t + 2) m
         }
         else concat_loop s c (t + 1) m)
      else do {
        (c1, t1, m1) \<leftarrow> copy_component (c + 1) (t + 1) (m(c := DOT));
        concat_loop s c1 t1 m1
      })"

definition path_concat :: "nat \<Rightarrow> nat \<Rightarrow> mem \<Rightarrow> mem option" where
  "path_concat s t m = do {
     e \<leftarrow> skip_string s m;
     (c, m1) \<leftarrow> concat_loop s (e - 1) t m;
     let m2 = m1(c := 0);
     Some (if c - 1 \<noteq> s \<and> m2 (c - 1) = SLASH then m2(c - 1 := 0) else m2)
   }"

partial_function (option) copy_dir :: "nat \<Rightarrow> nat \<Rightarrow> mem \<Rightarrow> (nat \<times> mem) option" where
  "copy_dir d c m = (if m c \<noteq> 0 then copy_dir (d + 1) (c + 1) (m(d := m c)) else Some (d, m))"

definition path_combine :: "nat \<Rightarrow> nat \<Rightarrow> nat \<Rightarrow> mem \<Rightarrow> mem option" where
  "path_combine s t d m =
     (let m = m(d := 0) in
      if m t = SLASH then path_concat d t m
      else do {
        (e, m1) \<leftarrow> copy_dir d s m;
        path_concat d t (if m1 e \<noteq> SLASH then m1(e := SLASH) else m1)
      })"

end
