(* ===== verification/Hash.thy ===== *)
theory Hash
  imports Prelude
begin

text \<open>
  The hash table of \<^verbatim>\<open>lib/libblt/hash.c\<close>: open addressing with double hashing, deletion by marking,
  growth by rehashing into the next size of \<open>table_size\<close>. The load factor is the fraction
  \<open>load_num / load_den\<close>; \<open>float\<close> arithmetic is exact on the sizes involved. Data pointers are
  numbers, 0 is NULL. A call that reads past \<open>table_size\<close> has no result.
\<close>

section \<open>Definitions\<close>

record hashnode =
  valid :: bool
  dirty :: bool
  hkey :: int
  dsize :: int
  hdata :: nat

record hashtable =
  htab :: "hashnode list"
  size_index :: nat
  used :: int
  ndirty :: int
  load_num :: nat
  load_den :: nat

definition table_size :: "nat list" where
  "table_size = [7, 19, 43, 103, 229, 463, 1021, 2083, 4219,
     8539, 17191, 34471, 69031, 138079, 276373, 552751, 1105549, 2211259,
     4422619, 8845453, 17691043, 35382091, 70764259, 141528559, 283057213,
     566115259]"

text \<open>The key is converted to unsigned before the remainder is taken.\<close>

definition hash :: "int \<Rightarrow> nat \<Rightarrow> nat" where
  "hash k sz = u32_of_int k mod table_size ! sz"

definition rehash :: "int \<Rightarrow> nat \<Rightarrow> nat" where
  "rehash k sz = 1 + u32_of_int k mod (table_size ! sz - 2)"

definition free_node :: hashnode where
  "free_node = \<lparr>valid = False, dirty = False, hkey = 0, dsize = 0, hdata = 0\<rparr>"

definition hashtable_new :: "nat \<Rightarrow> nat \<Rightarrow> hashtable" where
  "hashtable_new num den = \<lparr>htab = replicate (table_size ! 0) free_node, size_index = 0, used = 0,
     ndirty = 0, load_num = num, load_den = den\<rparr>"

definition probe_next :: "nat \<Rightarrow> nat \<Rightarrow> nat \<Rightarrow> nat" where
  "probe_next n c i = (if i < c then i + n - c else i - c)"

text \<open>The loop of \<open>hashtable_insert\<close> steps at least once.\<close>

partial_function (option) insert_probe :: "hashnode list \<Rightarrow> nat \<Rightarrow> nat \<Rightarrow> nat option" where
  "insert_probe tab c i =
     (let i = probe_next (length tab) c i in
      if valid (tab ! i) \<and> \<not> dirty (tab ! i) then insert_probe tab c i else Some i)"

definition over_load :: "hashtable \<Rightarrow> bool" where
  "over_load t \<longleftrightarrow> used t * int (load_den t) > int (load_num t * table_size ! size_index t)"

definition put_node :: "nat \<Rightarrow> int \<Rightarrow> nat \<Rightarrow> int \<Rightarrow> hashtable \<Rightarrow> hashtable" where
  "put_node i k d n t =
     t\<lparr>used := (if dirty (htab t ! i) then used t else used t + 1),
       htab := (htab t)[i := \<lparr>valid = True, dirty = False, hkey = k, dsize = n, hdata = d\<rparr>]\<rparr>"

definition insert_with ::
    "(int \<Rightarrow> hashtable \<Rightarrow> hashtable option) \<Rightarrow> hashtable \<Rightarrow> int \<Rightarrow> nat \<Rightarrow> int \<Rightarrow> hashtable option" where
  "insert_with rebuild t k d n = do {
     t1 \<leftarrow> (if over_load t then rebuild 1 t else Some t);
     let i = hash k (size_index t1);
     j \<leftarrow> (if valid (htab t1 ! i) then insert_probe (htab t1) (rehash k (size_index t1)) i else Some i);
     Some (put_node j k d n t1)
   }"

text \<open>\<open>hashtable_insert\<close> and \<open>hashtable_rebuild\<close> call each other; \<open>insert_n\<close> is the insertion with
  at most \<open>n\<close> nested calls.\<close>

definition rebuild_with ::
    "(hashtable \<Rightarrow> int \<Rightarrow> nat \<Rightarrow> int \<Rightarrow> hashtable option) \<Rightarrow> int \<Rightarrow> hashtable \<Rightarrow> hashtable option" where
  "rebuild_with ins dir t =
     (if dir \<noteq> -1 \<and> dir \<noteq> 0 \<and> dir \<noteq> 1 then Some t
      else
        let sz = (if dir = -1 then size_index t - 1 else if dir = 1 then size_index t + 1 else size_index t)
        in if sz \<ge> length table_size then None
           else fold (\<lambda>nd r. do {
                        t1 \<leftarrow> r;
                        if valid nd \<and> \<not> dirty nd then ins t1 (hkey nd) (hdata nd) (dsize nd) else Some t1
                      })
                  (htab t)
                  (Some (t\<lparr>size_index := sz, used := 0, ndirty := 0,
                           htab := replicate (table_size ! sz) free_node\<rparr>)))"

primrec insert_n :: "nat \<Rightarrow> hashtable \<Rightarrow> int \<Rightarrow> nat \<Rightarrow> int \<Rightarrow> hashtable option" where
  "insert_n 0 = (\<lambda>t k d n. None)"
| "insert_n (Suc m) = insert_with (rebuild_with (insert_n m))"

text \<open>A nested insertion that grows the table has a larger \<open>size_index\<close>, which is below 26.\<close>

definition hashtable_insert :: "hashtable \<Rightarrow> int \<Rightarrow> nat \<Rightarrow> int \<Rightarrow> hashtable option" where
  "hashtable_insert = insert_n 27"

definition hashtable_rebuild :: "int \<Rightarrow> hashtable \<Rightarrow> hashtable option" where
  "hashtable_rebuild = rebuild_with hashtable_insert"

text \<open>The loop that \<open>hashtable_lookup\<close> and \<open>hashtable_remove\<close> share: the index of the node, if any.\<close>

partial_function (option) find_probe :: "hashnode list \<Rightarrow> nat \<Rightarrow> int \<Rightarrow> nat \<Rightarrow> nat option option" where
  "find_probe tab c k i =
     (if \<not> valid (tab ! i) then Some None
      else if hkey (tab ! i) = k \<and> \<not> dirty (tab ! i) then Some (Some i)
      else find_probe tab c k (probe_next (length tab) c i))"

definition hashtable_find :: "hashtable \<Rightarrow> int \<Rightarrow> nat option option" where
  "hashtable_find t k = find_probe (htab t) (rehash k (size_index t)) k (hash k (size_index t))"

definition hashtable_lookup :: "hashtable \<Rightarrow> int \<Rightarrow> (nat \<times> int) option" where
  "hashtable_lookup t k = do {
     r \<leftarrow> hashtable_find t k;
     Some (case r of None \<Rightarrow> (0, 0) | Some i \<Rightarrow> (hdata (htab t ! i), dsize (htab t ! i)))
   }"

definition hashtable_remove :: "hashtable \<Rightarrow> int \<Rightarrow> ((nat \<times> int) \<times> hashtable) option" where
  "hashtable_remove t k = do {
     r \<leftarrow> hashtable_find t k;
     case r of None \<Rightarrow> Some ((0, 0), t)
     | Some i \<Rightarrow>
         (let res = (hdata (htab t ! i), dsize (htab t ! i));
              t1 = t\<lparr>htab := (htab t)[i := (htab t ! i)\<lparr>dirty := True\<rparr>], ndirty := ndirty t + 1\<rparr>
          in if ndirty t1 * int (load_den t1)
                  > (int (load_den t1) - int (load_num t1)) * int (table_size ! size_index t1)
                \<and> size_index t1 \<noteq> 0
             then do { t2 \<leftarrow> hashtable_rebuild (-1) t1; Some (res, t2) }
             else Some (res, t1))
   }"

end
