(* ===== verification/Vfs.thy ===== *)
theory Vfs
  imports Path Hash
begin

text \<open>
  The file system server, \<^verbatim>\<open>srv/vfs\<close>: drivers and mounts (\<open>fs.c\<close>, \<open>super.c\<close>), vnodes (\<open>vnode.c\<close>), the
  root and boot file systems (\<open>rootfs.c\<close>, \<open>bootfs.c\<close>), directory transfer (\<open>shm.c\<close>) and the commands
  of \<open>vfs.c\<close>. Structures are records in stores indexed by their addresses, which an allocator that
  never reuses memory hands out; a table of operations is the file system it belongs to. Names kept
  in structures are byte lists without NUL, on which \<open>strcmp\<close> and \<open>strncmp\<close> are comparisons of
  lists; path names are read from the memory \<open>vmem\<close> of the server. A null dereference or an index
  outside an array has no result.
\<close>

section \<open>Definitions\<close>

type_synonym cstr = "byte list"

abbreviation (input) ENOENT :: int where "ENOENT \<equiv> 2"
abbreviation (input) EBADF :: int where "EBADF \<equiv> 9"
abbreviation (input) ENOTDIR :: int where "ENOTDIR \<equiv> 20"
abbreviation (input) EMFILE :: int where "EMFILE \<equiv> 24"
abbreviation (input) ENOSYS :: int where "ENOSYS \<equiv> 78"
abbreviation (input) VFS_OK :: int where "VFS_OK \<equiv> 1"
abbreviation (input) VFS_ERROR :: int where "VFS_ERROR \<equiv> 2"
abbreviation (input) MAX_FDS :: nat where "MAX_FDS \<equiv> 256"

datatype fs_kind = Rootfs | Bootfs

record fs_type =
  fs_name :: cstr
  t_vops :: fs_kind

record rootfs_inode =
  ri_ino :: nat
  ri_name :: cstr

record bootfs_inode =
  bi_ino :: nat
  bi_offset :: int
  bi_size :: int
  bi_name :: cstr

datatype sb_data = RootData "rootfs_inode list" | BootData "bootfs_inode list"

record superblock =
  sb_dir :: cstr
  sb_vops :: fs_kind
  sb_data :: sb_data
  sb_root :: nat

text \<open>\<open>v_data\<close> is a pointer into the list of inodes, as the position in it; \<open>None\<close> when it was not set.\<close>

record vnode =
  v_vnid :: nat
  v_refcount :: nat
  v_sb :: nat
  v_data :: "nat option"

record dirent =
  d_fileno :: nat
  d_reclen :: nat
  d_name :: cstr

datatype cookie = NoCookie | DirCookie "dirent list" "dirent list" | FileCookie int int

record ofile =
  o_vnode :: nat
  o_cookie :: cookie
  o_area :: int
  o_offset :: int
  o_length :: int
  o_pos :: int
  o_shm :: "dirent list"

record client =
  c_in :: int
  c_out :: int
  filename_area :: int
  nameptr :: nat
  cwd :: nat
  fdarray :: "nat list"

record bentry =
  bn_name :: cstr
  bn_offset :: int
  bn_type :: int
  bn_vsize :: int

record vfs =
  fs_drivers :: "fs_type list"
  mount_list :: "nat list"
  supers :: "nat \<Rightarrow> superblock"
  vnodes :: "nat \<Rightarrow> vnode"
  ofiles :: "nat \<Rightarrow> ofile"
  clients :: "nat \<Rightarrow> client"
  conn_table :: hashtable
  root_inode_max :: nat
  boot_inode_max :: nat
  heap_next :: nat
  bootdir :: "bentry list"
  bootimage :: "int \<Rightarrow> byte"
  vmem :: mem

definition new :: "nat \<Rightarrow> vfs \<Rightarrow> nat \<times> vfs" where
  "new n s = (heap_next s, s\<lparr>heap_next := heap_next s + n\<rparr>)"

definition put_vnode :: "nat \<Rightarrow> vnode \<Rightarrow> vfs \<Rightarrow> vfs" where
  "put_vnode a v s = s\<lparr>vnodes := (vnodes s)(a := v)\<rparr>"

definition put_super :: "nat \<Rightarrow> superblock \<Rightarrow> vfs \<Rightarrow> vfs" where
  "put_super a sb s = s\<lparr>supers := (supers s)(a := sb)\<rparr>"

definition put_ofile :: "nat \<Rightarrow> ofile \<Rightarrow> vfs \<Rightarrow> vfs" where
  "put_ofile a f s = s\<lparr>ofiles := (ofiles s)(a := f)\<rparr>"

definition put_client :: "nat \<Rightarrow> client \<Rightarrow> vfs \<Rightarrow> vfs" where
  "put_client a c s = s\<lparr>clients := (clients s)(a := c)\<rparr>"

text \<open>The string at an address; none when no NUL follows.\<close>

partial_function (option) cstring :: "nat \<Rightarrow> mem \<Rightarrow> cstr option" where
  "cstring a m = (if m a = 0 then Some [] else do { r \<leftarrow> cstring (a + 1) m; Some (m a # r) })"

subsection \<open>Drivers and mounts\<close>

text \<open>The loop of \<open>fs_register\<close> compares every driver but the last.\<close>

fun register_loop :: "fs_type \<Rightarrow> fs_type list \<Rightarrow> bool" where
  "register_loop d (p # q # ps) = (if fs_name p = fs_name d then False else register_loop d (q # ps))"
| "register_loop d _ = True"

definition fs_register :: "fs_type \<Rightarrow> vfs \<Rightarrow> int \<times> vfs" where
  "fs_register d s =
     (if fs_drivers s = [] then (0, s\<lparr>fs_drivers := [d]\<rparr>)
      else if register_loop d (fs_drivers s) then (0, s\<lparr>fs_drivers := fs_drivers s @ [d]\<rparr>)
      else (1, s))"

definition starts_with :: "cstr \<Rightarrow> cstr \<Rightarrow> bool" where
  "starts_with p xs \<longleftrightarrow> take (length p) xs = p"

fun find_loop :: "(nat \<Rightarrow> superblock) \<Rightarrow> cstr \<Rightarrow> nat list \<Rightarrow> nat option \<Rightarrow> nat \<Rightarrow> nat option" where
  "find_loop sbs node [] best bestlen = best"
| "find_loop sbs node (sb # l) best bestlen =
     (let len = length (sb_dir (sbs sb)) in
      if starts_with (sb_dir (sbs sb)) node \<and> len > bestlen
      then find_loop sbs node l (Some sb) len
      else find_loop sbs node l best bestlen)"

definition fs_find :: "cstr \<Rightarrow> vfs \<Rightarrow> nat option" where
  "fs_find node s = find_loop (supers s) node (mount_list s) None 0"

subsection \<open>Vnodes\<close>

fun root_position :: "nat \<Rightarrow> rootfs_inode list \<Rightarrow> nat option" where
  "root_position n [] = None"
| "root_position n (i # is) = (if ri_ino i = n then Some 0 else map_option Suc (root_position n is))"

fun boot_position :: "nat \<Rightarrow> bootfs_inode list \<Rightarrow> nat option" where
  "boot_position n [] = None"
| "boot_position n (i # is) = (if bi_ino i = n then Some 0 else map_option Suc (boot_position n is))"

definition rootfs_read_vnode :: "rootfs_inode list \<Rightarrow> vnode \<Rightarrow> int \<times> vnode" where
  "rootfs_read_vnode is v = (case root_position (v_vnid v) is of
     Some i \<Rightarrow> (0, v\<lparr>v_data := Some i\<rparr>) | None \<Rightarrow> (-1, v))"

definition bootfs_read_vnode :: "bootfs_inode list \<Rightarrow> vnode \<Rightarrow> int \<times> vnode" where
  "bootfs_read_vnode is v = (case boot_position (v_vnid v) is of
     Some i \<Rightarrow> (0, v\<lparr>v_data := Some i\<rparr>) | None \<Rightarrow> (0, v))"

definition read_vnode :: "sb_data \<Rightarrow> vnode \<Rightarrow> vnode" where
  "read_vnode d v = (case d of RootData is \<Rightarrow> snd (rootfs_read_vnode is v)
     | BootData is \<Rightarrow> snd (bootfs_read_vnode is v))"

definition vget :: "nat \<Rightarrow> nat \<Rightarrow> vfs \<Rightarrow> nat \<times> vfs" where
  "vget super vnid s =
     (let (a, s) = new 1 s;
          v = \<lparr>v_vnid = vnid, v_refcount = 1, v_sb = super, v_data = None\<rparr>
      in (a, put_vnode a (read_vnode (sb_data (supers s super)) v) s))"

text \<open>\<open>drop_vnode\<close> of the root file system clears the pointer, that of the boot file system does
  nothing.\<close>

definition rootfs_drop_vnode :: "vnode \<Rightarrow> vnode" where
  "rootfs_drop_vnode v = v\<lparr>v_data := None\<rparr>"

definition vput :: "nat \<Rightarrow> vfs \<Rightarrow> vfs" where
  "vput a s =
     (let v = vnodes s a;
          v = (case sb_vops (supers s (v_sb v)) of Rootfs \<Rightarrow> rootfs_drop_vnode v | Bootfs \<Rightarrow> v)
      in put_vnode a (v\<lparr>v_refcount := u32_sub (v_refcount v) 1\<rparr>) s)"

subsection \<open>The root file system\<close>

definition rootfs_inew :: "cstr \<Rightarrow> vfs \<Rightarrow> rootfs_inode \<times> vfs" where
  "rootfs_inew name s =
     (\<lparr>ri_ino = root_inode_max s, ri_name = name\<rparr>, s\<lparr>root_inode_max := root_inode_max s + 1\<rparr>)"

definition rootfs_mount :: "nat \<Rightarrow> vfs \<Rightarrow> int \<times> vfs" where
  "rootfs_mount super s =
     (let (i, s) = rootfs_inew [DOT] s;
          (j, s) = rootfs_inew [DOT, DOT] s;
          s = put_super super ((supers s super)\<lparr>sb_data := RootData [i, j]\<rparr>) s;
          (v, s) = vget super 0 s
      in (0, put_super super ((supers s super)\<lparr>sb_root := v\<rparr>) s))"

definition root_inodes :: "nat \<Rightarrow> vfs \<Rightarrow> rootfs_inode list" where
  "root_inodes super s = (case sb_data (supers s super) of RootData is \<Rightarrow> is | BootData _ \<Rightarrow> [])"

text \<open>The walk begins at the inode of the parent and follows \<open>i_next\<close>.\<close>

definition rootfs_walk :: "nat \<Rightarrow> cstr \<Rightarrow> vfs \<Rightarrow> (nat \<times> vfs) option" where
  "rootfs_walk parent path s = do {
     i \<leftarrow> v_data (vnodes s parent);
     let super = v_sb (vnodes s parent);
     case List.find (\<lambda>n. ri_name n = path) (drop i (root_inodes super s)) of
       None \<Rightarrow> Some (0, s)
     | Some n \<Rightarrow> Some (vget super (ri_ino n) s)
   }"

definition rootfs_mkdir :: "nat \<Rightarrow> cstr \<Rightarrow> vfs \<Rightarrow> int \<times> vfs" where
  "rootfs_mkdir parent name s =
     (if v_vnid (vnodes s parent) \<noteq> 0 then (-1, s)
      else
        let (i, s) = rootfs_inew name s;
            super = v_sb (vnodes s parent)
        in (0, put_super super ((supers s super)\<lparr>sb_data := RootData (root_inodes super s @ [i])\<rparr>) s))"

abbreviation (input) SIZEOF_DIRENT :: nat where "SIZEOF_DIRENT \<equiv> 40"

text \<open>\<open>strncpy\<close> into the array of 33 bytes, and from there 32 bytes to the caller.\<close>

definition mk_dirent :: "nat \<Rightarrow> cstr \<Rightarrow> dirent" where
  "mk_dirent ino name = \<lparr>d_fileno = ino, d_reclen = SIZEOF_DIRENT, d_name = take 33 name\<rparr>"

definition rootfs_opendir :: "nat \<Rightarrow> vfs \<Rightarrow> int \<times> cookie" where
  "rootfs_opendir dir s =
     (if v_vnid (vnodes s dir) \<noteq> 0 then (ENOTDIR, NoCookie)
      else
        let head = fold (\<lambda>n l. mk_dirent (ri_ino n) (ri_name n) # l) (root_inodes (v_sb (vnodes s dir)) s) []
        in (0, DirCookie head head))"

definition rootfs_rewinddir :: "cookie \<Rightarrow> cookie" where
  "rootfs_rewinddir c = (case c of DirCookie head cur \<Rightarrow> DirCookie head head | _ \<Rightarrow> c)"

definition rootfs_readdir :: "cookie \<Rightarrow> (int \<times> dirent option \<times> cookie)" where
  "rootfs_readdir c = (case c of
     DirCookie head (d # ds) \<Rightarrow> (0, Some (d\<lparr>d_name := take 32 (d_name d)\<rparr>), DirCookie head ds)
   | _ \<Rightarrow> (1, None, c))"

subsection \<open>The boot file system\<close>

definition bootfs_inew :: "cstr \<Rightarrow> int \<Rightarrow> int \<Rightarrow> vfs \<Rightarrow> bootfs_inode \<times> vfs" where
  "bootfs_inew name offset sz s =
     (\<lparr>bi_ino = boot_inode_max s, bi_offset = offset, bi_size = sz, bi_name = take 31 name\<rparr>,
      s\<lparr>boot_inode_max := boot_inode_max s + 1\<rparr>)"

abbreviation (input) BE_TYPE_NONE :: int where "BE_TYPE_NONE \<equiv> 0"

definition BOOTDIR_DIRECTORY :: cstr where
  "BOOTDIR_DIRECTORY = [0x53, 0x42, 0x42, 0x42, 0x2F, 0x44, 0x69, 0x72, 0x65, 0x63, 0x74, 0x6F, 0x72, 0x79]"

definition bootfs_entry :: "bentry \<Rightarrow> bootfs_inode list \<times> vfs \<Rightarrow> bootfs_inode list \<times> vfs" where
  "bootfs_entry e = (\<lambda>(is, s).
     if bn_type e \<noteq> BE_TYPE_NONE \<and> bn_name e \<noteq> BOOTDIR_DIRECTORY
     then let (i, s) = bootfs_inew (bn_name e) (bn_offset e) (bn_vsize e) s in (i # is, s)
     else (is, s))"

definition bootfs_mount :: "nat \<Rightarrow> vfs \<Rightarrow> int \<times> vfs" where
  "bootfs_mount super s =
     (let (i, s) = bootfs_inew [DOT] 0 0 s;
          (j, s) = bootfs_inew [DOT, DOT] 0 0 s;
          (is, s) = fold bootfs_entry (bootdir s) ([i, j], s);
          s = put_super super ((supers s super)\<lparr>sb_data := BootData is\<rparr>) s;
          (v, s) = vget super 0 s
      in (0, put_super super ((supers s super)\<lparr>sb_root := v\<rparr>) s))"

definition boot_inodes :: "nat \<Rightarrow> vfs \<Rightarrow> bootfs_inode list" where
  "boot_inodes super s = (case sb_data (supers s super) of BootData is \<Rightarrow> is | RootData _ \<Rightarrow> [])"

definition bootfs_walk :: "nat \<Rightarrow> cstr \<Rightarrow> vfs \<Rightarrow> nat \<times> vfs" where
  "bootfs_walk parent path s =
     (if v_vnid (vnodes s parent) \<noteq> 0 then (0, s)
      else
        let super = v_sb (vnodes s parent) in
        case List.find (\<lambda>n. bi_name n = path) (boot_inodes super s) of
          None \<Rightarrow> (0, s)
        | Some n \<Rightarrow> vget super (bi_ino n) s)"

definition bootfs_opendir :: "nat \<Rightarrow> vfs \<Rightarrow> int \<times> cookie" where
  "bootfs_opendir dir s =
     (if v_vnid (vnodes s dir) \<noteq> 0 then (ENOTDIR, NoCookie)
      else
        let head = fold (\<lambda>n l. mk_dirent (bi_ino n) (bi_name n) # l) (boot_inodes (v_sb (vnodes s dir)) s) []
        in (0, DirCookie head head))"

definition bootfs_rewinddir :: "cookie \<Rightarrow> cookie" where
  "bootfs_rewinddir c = (case c of DirCookie head cur \<Rightarrow> DirCookie head head | _ \<Rightarrow> c)"

definition bootfs_readdir :: "cookie \<Rightarrow> (int \<times> dirent option \<times> cookie)" where
  "bootfs_readdir c = (case c of
     DirCookie head (d # ds) \<Rightarrow> (0, Some (d\<lparr>d_name := take 32 (d_name d)\<rparr>), DirCookie head ds)
   | _ \<Rightarrow> (1, None, c))"

text \<open>The inode a vnode points to.\<close>

definition boot_inode :: "nat \<Rightarrow> vfs \<Rightarrow> bootfs_inode option" where
  "boot_inode vnode s = do {
     i \<leftarrow> v_data (vnodes s vnode);
     let is = boot_inodes (v_sb (vnodes s vnode)) s;
     if i < length is then Some (is ! i) else None
   }"

definition bootfs_open :: "nat \<Rightarrow> vfs \<Rightarrow> (int \<times> cookie) option" where
  "bootfs_open vnode s = do {
     n \<leftarrow> boot_inode vnode s;
     Some (0, FileCookie (bi_offset n * 0x1000) 0)
   }"

definition bootfs_close :: "nat \<Rightarrow> cookie \<Rightarrow> int" where
  "bootfs_close vnode c = 0"

text \<open>Reading gives the error code and the bytes put into the buffer; \<open>count\<close> and the offset are
  unsigned.\<close>

definition bootfs_read :: "nat \<Rightarrow> int \<Rightarrow> int \<Rightarrow> vfs \<Rightarrow> (int \<times> byte list) option" where
  "bootfs_read vnode count offset s = do {
     n \<leftarrow> boot_inode vnode s;
     if offset \<ge> bi_size n then Some (0, [])
     else
       let src = bi_offset n * 0x1000 + offset;
           numread = (if count \<le> bi_size n - offset then count else bi_size n - offset)
       in Some (0, map (\<lambda>k. bootimage s (src + int k)) [0..<nat numread])
   }"

record stat_t =
  st_ino :: nat
  st_nlink :: int
  st_uid :: int
  st_gid :: int
  st_blksize :: int
  st_size :: int
  st_blocks :: int

definition bootfs_rstat :: "nat \<Rightarrow> vfs \<Rightarrow> (int \<times> stat_t) option" where
  "bootfs_rstat vnode s = do {
     n \<leftarrow> boot_inode vnode s;
     Some (0, \<lparr>st_ino = bi_ino n, st_nlink = 0, st_uid = 0, st_gid = 0, st_blksize = 512, st_size = bi_size n,
       st_blocks = (if bi_size n AND 0xFFF \<noteq> 0 then drop_bit 12 (bi_size n) + 1 else drop_bit 12 (bi_size n))\<rparr>)
   }"

subsection \<open>Mounting\<close>

definition mount_op :: "fs_kind \<Rightarrow> nat \<Rightarrow> vfs \<Rightarrow> int \<times> vfs" where
  "mount_op k super s = (case k of Rootfs \<Rightarrow> rootfs_mount super s | Bootfs \<Rightarrow> bootfs_mount super s)"

definition vfs_mount :: "cstr \<Rightarrow> cstr \<Rightarrow> vfs \<Rightarrow> int \<times> vfs" where
  "vfs_mount dir type s =
     (case List.find (\<lambda>d. fs_name d = type) (fs_drivers s) of
        None \<Rightarrow> (1, s)
      | Some d \<Rightarrow>
          (let (super, s) = new 1 s;
               s = put_super super \<lparr>sb_dir = dir, sb_vops = t_vops d, sb_data = RootData [], sb_root = 0\<rparr> s;
               (res, s) = mount_op (t_vops d) super s
           in if res = 0 then (res, s\<lparr>mount_list := super # mount_list s\<rparr>) else (res, s)))"

subsection \<open>Commands\<close>

text \<open>A command has six words of data, a result two codes and six words; a word that is not set
  keeps what the memory held and is \<open>None\<close>. The system calls a command makes are answered by the
  kernel: \<open>rq_port\<close> is the port made for a connection, \<open>rq_map\<close> and \<open>rq_clone\<close> the address and the id of
  a cloned area.\<close>

record request =
  rq_src :: int
  rq_cmd :: nat
  rq_data :: "nat list"
  rq_port :: int
  rq_map :: nat
  rq_clone :: int

record vfs_res =
  status :: int
  res_errno :: int
  res_data :: "int option list"

definition vfs_error :: "int \<Rightarrow> vfs_res" where
  "vfs_error e = \<lparr>status = VFS_ERROR, res_errno = e, res_data = replicate 6 None\<rparr>"

definition vfs_result :: "int \<Rightarrow> int option list \<Rightarrow> vfs_res" where
  "vfs_result e d = \<lparr>status = (if e \<noteq> 0 then VFS_ERROR else VFS_OK), res_errno = e,
     res_data = d @ replicate (6 - length d) None\<rparr>"

definition readdir_op :: "fs_kind \<Rightarrow> cookie \<Rightarrow> int \<times> dirent option \<times> cookie" where
  "readdir_op k c = (case k of Rootfs \<Rightarrow> rootfs_readdir c | Bootfs \<Rightarrow> bootfs_readdir c)"

definition rewinddir_op :: "fs_kind \<Rightarrow> cookie \<Rightarrow> cookie" where
  "rewinddir_op k c = (case k of Rootfs \<Rightarrow> rootfs_rewinddir c | Bootfs \<Rightarrow> bootfs_rewinddir c)"

text \<open>The second loop of \<open>shm_write_dir\<close>: the number of rounds, the entries written, the cookie.\<close>

primrec shm_loop :: "nat \<Rightarrow> fs_kind \<Rightarrow> cookie \<Rightarrow> nat \<times> dirent list \<times> cookie" where
  "shm_loop 0 k c = (0, [], c)"
| "shm_loop (Suc n) k c =
     (case readdir_op k c of
        (res, Some d, c) \<Rightarrow> (let (i, ds, c) = shm_loop n k c in (i + 1, d # ds, c))
      | (res, None, c) \<Rightarrow> (1, [], c))"

definition vnode_kind :: "nat \<Rightarrow> vfs \<Rightarrow> fs_kind" where
  "vnode_kind v s = sb_vops (supers s (v_sb (vnodes s v)))"

definition shm_write_dir :: "nat \<Rightarrow> nat \<Rightarrow> nat \<Rightarrow> vfs \<Rightarrow> (int \<times> int) \<times> vfs" where
  "shm_write_dir f skip len s =
     (let fl = ofiles s f;
          k = vnode_kind (o_vnode fl) s;
          c = rewinddir_op k (o_cookie fl);
          c = ((\<lambda>c. snd (snd (readdir_op k c))) ^^ skip) c;
          (i, ds, c) = shm_loop (len div SIZEOF_DIRENT) k c
      in ((if i = 0 then 0 else int i - 1, 0), put_ofile f (fl\<lparr>o_cookie := c, o_shm := ds\<rparr>) s))"

definition vfs_openconn :: "request \<Rightarrow> vfs \<Rightarrow> (vfs_res \<times> vfs) option" where
  "vfs_openconn rq s =
     (let (a, s) = new 1044 s;
          (d, s) = new 32 s;
          s = s\<lparr>vmem := (vmem s)(d := SLASH, d + 1 := 0)\<rparr>;
          s = put_client a \<lparr>c_in = rq_src rq, c_out = rq_port rq, filename_area = int (rq_data rq ! 0),
                nameptr = rq_map rq, cwd = d, fdarray = replicate MAX_FDS 0\<rparr> s
      in do {
        t \<leftarrow> hashtable_insert (conn_table s) (rq_src rq) a 1044;
        Some (vfs_result 0 [Some (rq_port rq)], s\<lparr>conn_table := t\<rparr>)
      })"

text \<open>\<open>shm_write\<close> is empty, so nothing is scrolled.\<close>

definition fd_slot :: "nat \<Rightarrow> nat \<Rightarrow> vfs \<Rightarrow> nat option" where
  "fd_slot cl fd s = (if cl = 0 \<or> fd \<ge> MAX_FDS then None else Some (fdarray (clients s cl) ! fd))"

definition vfs_scroll_area :: "nat \<Rightarrow> request \<Rightarrow> vfs \<Rightarrow> (vfs_res \<times> vfs) option" where
  "vfs_scroll_area cl rq s = do {
     f \<leftarrow> fd_slot cl (rq_data rq ! 0) s;
     if f = 0 then None else Some (vfs_result 0 [], s)
   }"

definition vfs_mkdir :: "nat \<Rightarrow> vfs \<Rightarrow> (int \<times> vfs) option" where
  "vfs_mkdir dir s = do {
     d \<leftarrow> cstring dir (vmem s);
     super \<leftarrow> fs_find d s;
     case sb_vops (supers s super) of
       Bootfs \<Rightarrow> Some (ENOSYS, s)
     | Rootfs \<Rightarrow> do {
         name \<leftarrow> cstring (dir + length (sb_dir (supers s super))) (vmem s);
         Some (rootfs_mkdir (sb_root (supers s super)) name s)
       }
   }"

fun free_fd :: "nat list \<Rightarrow> nat" where
  "free_fd [] = 0"
| "free_fd (f # fs) = (if f = 0 then 0 else Suc (free_fd fs))"

definition set_fd :: "nat \<Rightarrow> nat \<Rightarrow> nat \<Rightarrow> vfs \<Rightarrow> vfs" where
  "set_fd cl i f s = put_client cl ((clients s cl)\<lparr>fdarray := (fdarray (clients s cl))[i := f]\<rparr>) s"

definition walk_op :: "fs_kind \<Rightarrow> nat \<Rightarrow> cstr \<Rightarrow> vfs \<Rightarrow> (nat \<times> vfs) option" where
  "walk_op k parent path s =
     (case k of Rootfs \<Rightarrow> rootfs_walk parent path s | Bootfs \<Rightarrow> Some (bootfs_walk parent path s))"

definition opendir_op :: "fs_kind \<Rightarrow> nat \<Rightarrow> vfs \<Rightarrow> int \<times> cookie" where
  "opendir_op k v s = (case k of Rootfs \<Rightarrow> rootfs_opendir v s | Bootfs \<Rightarrow> bootfs_opendir v s)"

definition new_ofile :: "nat \<Rightarrow> request \<Rightarrow> cookie \<Rightarrow> ofile" where
  "new_ofile v rq c = \<lparr>o_vnode = v, o_cookie = c, o_area = rq_clone rq, o_offset = int (rq_data rq ! 2),
     o_length = int (rq_data rq ! 3), o_pos = 0, o_shm = []\<rparr>"

definition vfs_opendir :: "nat \<Rightarrow> request \<Rightarrow> vfs \<Rightarrow> (vfs_res \<times> vfs) option" where
  "vfs_opendir cl rq s =
     (if cl = 0 then None
      else let c = clients s cl; i = free_fd (fdarray c); reldir = nameptr c + rq_data rq ! 0 in
        if i = MAX_FDS then Some (vfs_error EMFILE, s)
        else
          let (dir, s) = new 32 s in do {
            (n, m) \<leftarrow> strlcpy dir (cwd c) 32 (vmem s);
            m \<leftarrow> path_combine (cwd c) reldir dir m;
            let s = s\<lparr>vmem := m\<rparr>;
            d \<leftarrow> cstring dir m;
            case fs_find d s of
              None \<Rightarrow> Some (vfs_error ENOENT, s)
            | Some super \<Rightarrow> do {
                let sb = supers s super;
                (v, s) \<leftarrow> (if d = sb_dir sb then Some (sb_root sb, s)
                            else do {
                              p \<leftarrow> cstring (dir + length (sb_dir sb) + 1) m;
                              walk_op (sb_vops sb) (sb_root sb) p s
                            });
                if v = 0 then Some (vfs_error ENOENT, s)
                else
                  let (f, s) = new 1 s;
                      (e, k) = opendir_op (sb_vops sb) v s
                  in Some (vfs_result e [Some (int i)], set_fd cl i f (put_ofile f (new_ofile v rq k) s))
              }
          })"

definition vfs_closedir :: "nat \<Rightarrow> request \<Rightarrow> vfs \<Rightarrow> (vfs_res \<times> vfs) option" where
  "vfs_closedir cl rq s = do {
     f \<leftarrow> fd_slot cl (rq_data rq ! 0) s;
     if f = 0 then Some (vfs_error EBADF, s)
     else Some (vfs_result 0 [], set_fd cl (rq_data rq ! 0) 0 s)
   }"

definition vfs_open :: "nat \<Rightarrow> request \<Rightarrow> vfs \<Rightarrow> (vfs_res \<times> vfs) option" where
  "vfs_open cl rq s =
     (if cl = 0 then None
      else let c = clients s cl; i = free_fd (fdarray c); path = nameptr c + rq_data rq ! 0 in
        if i = MAX_FDS then Some (vfs_error EMFILE, s)
        else do {
          p \<leftarrow> cstring path (vmem s);
          case fs_find p s of
            None \<Rightarrow> Some (vfs_error ENOENT, s)
          | Some super \<Rightarrow>
              let sb = supers s super in
              if sb_vops sb = Rootfs then Some (vfs_error ENOSYS, s)
              else do {
                q \<leftarrow> cstring (path + length (sb_dir sb) + 1) (vmem s);
                (v, s) \<leftarrow> walk_op (sb_vops sb) (sb_root sb) q s;
                if v = 0 then Some (vfs_error ENOENT, s)
                else
                  let (f, s) = new 1 s in do {
                    (e, k) \<leftarrow> bootfs_open v s;
                    Some (vfs_result e [Some (int i)], set_fd cl i f (put_ofile f (new_ofile v rq k) s))
                  }
              }
        })"

text \<open>\<open>vfs_close\<close> frees the cookie and leaves the descriptor.\<close>

definition vfs_close :: "nat \<Rightarrow> request \<Rightarrow> vfs \<Rightarrow> (vfs_res \<times> vfs) option" where
  "vfs_close cl rq s = do {
     f \<leftarrow> fd_slot cl (rq_data rq ! 0) s;
     if f = 0 then Some (vfs_error EBADF, s)
     else if vnode_kind (o_vnode (ofiles s f)) s = Rootfs then Some (vfs_error ENOSYS, s)
     else Some (vfs_result (bootfs_close (o_vnode (ofiles s f)) (o_cookie (ofiles s f))) [],
                put_ofile f ((ofiles s f)\<lparr>o_cookie := NoCookie\<rparr>) s)
   }"

text \<open>A read gives the result and, when a buffer is handed on, its bytes.\<close>

definition vfs_read :: "nat \<Rightarrow> request \<Rightarrow> vfs \<Rightarrow> (vfs_res \<times> byte list option \<times> vfs) option" where
  "vfs_read cl rq s = do {
     f \<leftarrow> fd_slot cl (rq_data rq ! 0) s;
     if f = 0 then Some (vfs_error EBADF, None, s)
     else
       let fl = ofiles s f in
       if vnode_kind (o_vnode fl) s = Rootfs then Some (vfs_error ENOSYS, None, s)
       else do {
         (e, bs) \<leftarrow> bootfs_read (o_vnode fl) (int (rq_data rq ! 1)) (o_pos fl) s;
         Some (vfs_result e [Some (int (length bs))], Some bs,
               put_ofile f (fl\<lparr>o_pos := o_pos fl + int (length bs)\<rparr>) s)
       }
   }"

definition vfs_rstat :: "nat \<Rightarrow> request \<Rightarrow> vfs \<Rightarrow> (vfs_res \<times> stat_t option \<times> vfs) option" where
  "vfs_rstat cl rq s =
     (if cl = 0 then None
      else let path = nameptr (clients s cl) + rq_data rq ! 0 in do {
        p \<leftarrow> cstring path (vmem s);
        case fs_find p s of
          None \<Rightarrow> Some (vfs_error ENOENT, None, s)
        | Some super \<Rightarrow>
            let sb = supers s super in
            if sb_vops sb = Rootfs then Some (vfs_error ENOSYS, None, s)
            else do {
              q \<leftarrow> cstring (path + length (sb_dir sb) + 1) (vmem s);
              (v, s) \<leftarrow> walk_op (sb_vops sb) (sb_root sb) q s;
              if v = 0 then Some (vfs_error ENOENT, None, s)
              else do { (e, st) \<leftarrow> bootfs_rstat v s; Some (vfs_result e [], Some st, s) }
            }
      })"

subsection \<open>The server loop\<close>

datatype payload = Reply vfs_res "stat_t option" | Bytes "byte list"

type_synonym message = "int \<times> int \<times> payload"

text \<open>Data is sent in messages of a page.\<close>

fun data_messages :: "byte list \<Rightarrow> byte list list" where
  "data_messages bs = (if length bs > 0x1000 then take 0x1000 bs # data_messages (drop 0x1000 bs) else [bs])"

declare data_messages.simps [simp del]

abbreviation (input) VFS_OPENCONN :: nat where "VFS_OPENCONN \<equiv> 1"
abbreviation (input) VFS_MKDIR :: nat where "VFS_MKDIR \<equiv> 10"
abbreviation (input) VFS_OPENDIR :: nat where "VFS_OPENDIR \<equiv> 17"
abbreviation (input) VFS_CLOSEDIR :: nat where "VFS_CLOSEDIR \<equiv> 18"
abbreviation (input) VFS_SCROLL_AREA :: nat where "VFS_SCROLL_AREA \<equiv> 19"
abbreviation (input) VFS_OPEN :: nat where "VFS_OPEN \<equiv> 21"
abbreviation (input) VFS_CLOSE :: nat where "VFS_CLOSE \<equiv> 22"
abbreviation (input) VFS_READ :: nat where "VFS_READ \<equiv> 23"
abbreviation (input) VFS_RSTAT :: nat where "VFS_RSTAT \<equiv> 27"

definition opendir_command :: "nat \<Rightarrow> request \<Rightarrow> vfs \<Rightarrow> (vfs_res \<times> vfs) option" where
  "opendir_command cl rq s = do {
     (r, s) \<leftarrow> vfs_opendir cl rq s;
     if status r = VFS_OK
     then do {
       fd \<leftarrow> res_data r ! 0;
       let f = fdarray (clients s cl) ! nat fd;
       let ((n, more), s) = shm_write_dir f 0 (rq_data rq ! 3) s;
       Some (r\<lparr>res_data := (res_data r)[1 := Some n, 2 := Some more]\<rparr>, s)
     }
     else Some (r, s)
   }"

text \<open>What a command answers: the result, the status block of \<open>stat\<close>, the data of a read. A command
  the server does not know is answered with the freed result of the one before: it has no result
  here.\<close>

definition vfs_command ::
    "nat \<Rightarrow> request \<Rightarrow> vfs \<Rightarrow> ((vfs_res \<times> stat_t option \<times> byte list option) \<times> vfs) option" where
  "vfs_command cl rq s =
     (let plain = map_option (\<lambda>(r, s). ((r, None, None), s)) in
      if rq_cmd rq = VFS_OPENCONN then plain (vfs_openconn rq s)
      else if rq_cmd rq = VFS_SCROLL_AREA then plain (vfs_scroll_area cl rq s)
      else if rq_cmd rq = VFS_OPENDIR then plain (opendir_command cl rq s)
      else if rq_cmd rq = VFS_CLOSEDIR then plain (vfs_closedir cl rq s)
      else if rq_cmd rq = VFS_OPEN then plain (vfs_open cl rq s)
      else if rq_cmd rq = VFS_CLOSE then plain (vfs_close cl rq s)
      else if rq_cmd rq = VFS_READ then map_option (\<lambda>(r, d, s). ((r, None, d), s)) (vfs_read cl rq s)
      else if rq_cmd rq = VFS_RSTAT then map_option (\<lambda>(r, st, s). ((r, st, None), s)) (vfs_rstat cl rq s)
      else if rq_cmd rq = VFS_MKDIR then
        (if cl = 0 then None
         else map_option (\<lambda>(e, s). ((\<lparr>status = e, res_errno = 0, res_data = replicate 6 None\<rparr>, None, None), s))
                (vfs_mkdir (nameptr (clients s cl) + rq_data rq ! 0) s))
      else None)"

definition vfs_serve :: "int \<Rightarrow> request \<Rightarrow> vfs \<Rightarrow> (message list \<times> vfs) option" where
  "vfs_serve vfs_port rq s = do {
     (cl, n) \<leftarrow> (if rq_cmd rq = VFS_OPENCONN then Some (0, 0) else hashtable_lookup (conn_table s) (rq_src rq));
     ((r, st, d), s) \<leftarrow> vfs_command cl rq s;
     let src = (if rq_cmd rq = VFS_OPENCONN then vfs_port else c_out (clients s cl));
     Some ((src, rq_src rq, Reply r st) #
           (case d of None \<Rightarrow> []
            | Some bs \<Rightarrow> map (\<lambda>b. (src, rq_src rq, Bytes b)) (if length bs < 0x1000 then [bs] else data_messages bs)), s)
   }"

text \<open>The names of \<open>vfs_main\<close>, and the state it starts from: memory holds the string \<open>/boot\<close>.\<close>

definition rootfs_name :: cstr where "rootfs_name = [0x72, 0x6F, 0x6F, 0x74, 0x66, 0x73]"
definition bootfs_name :: cstr where "bootfs_name = [0x62, 0x6F, 0x6F, 0x74, 0x66, 0x73]"
definition boot_dir :: cstr where "boot_dir = [SLASH, 0x62, 0x6F, 0x6F, 0x74]"

definition vfs_memory :: mem where
  "vfs_memory = (\<lambda>a. if a < 5 then boot_dir ! a else 0)"

definition vfs_empty :: "bentry list \<Rightarrow> (int \<Rightarrow> byte) \<Rightarrow> vfs" where
  "vfs_empty bd img = \<lparr>fs_drivers = [], mount_list = [],
     supers = (\<lambda>_. \<lparr>sb_dir = [], sb_vops = Rootfs, sb_data = RootData [], sb_root = 0\<rparr>),
     vnodes = (\<lambda>_. \<lparr>v_vnid = 0, v_refcount = 0, v_sb = 0, v_data = None\<rparr>),
     ofiles = (\<lambda>_. \<lparr>o_vnode = 0, o_cookie = NoCookie, o_area = 0, o_offset = 0, o_length = 0, o_pos = 0, o_shm = []\<rparr>),
     clients = (\<lambda>_. \<lparr>c_in = 0, c_out = 0, filename_area = 0, nameptr = 0, cwd = 0, fdarray = []\<rparr>),
     conn_table = hashtable_new 3 4, root_inode_max = 0, boot_inode_max = 0, heap_next = 0x10000,
     bootdir = bd, bootimage = img, vmem = vfs_memory\<rparr>"

definition vfs_start :: "vfs \<Rightarrow> vfs option" where
  "vfs_start s =
     (let (r, s) = fs_register \<lparr>fs_name = rootfs_name, t_vops = Rootfs\<rparr> s;
          (r, s) = fs_register \<lparr>fs_name = bootfs_name, t_vops = Bootfs\<rparr> s;
          (r, s) = vfs_mount [SLASH] rootfs_name s
      in do {
        (r, s) \<leftarrow> vfs_mkdir 0 s;
        let (r, s) = vfs_mount boot_dir bootfs_name s;
        Some s
      })"

end
