(* ===== verification/PosixVfs.thy ===== *)
theory PosixVfs
  imports Vfs
begin

text \<open>
  The client side of the file system, \<^verbatim>\<open>lib/libposix/vfs.c\<close> and \<^verbatim>\<open>lib/libposix/fdl.c\<close>: the requests a
  program sends and what it makes of the messages that arrive on its port, and the table of
  descriptors. Messages wait in the order they were sent; a call that would wait for a message, or that
  takes one of another kind for its own, has no result.
\<close>

section \<open>Definitions\<close>

abbreviation (input) BLT_MAX_NAME_LENGTH :: nat where "BLT_MAX_NAME_LENGTH \<equiv> 32"

record vfs_fd =
  fd_buf :: nat
  srv_fd :: int
  fd_offset :: int
  fd_length :: "int option"
  fd_more :: "int option"

record posix =
  fd_table :: "nat list"
  vfs_fds :: "nat \<Rightarrow> vfs_fd"
  next_cookie :: nat
  perrno :: int
  inbox :: "payload list"

definition take_reply :: "posix \<Rightarrow> (vfs_res \<times> stat_t option \<times> posix) option" where
  "take_reply p = (case inbox p of Reply r st # l \<Rightarrow> Some (r, st, p\<lparr>inbox := l\<rparr>) | _ \<Rightarrow> None)"

text \<open>\<open>old_port_recv\<close> with a buffer of \<open>n\<close> bytes.\<close>

definition take_bytes :: "nat \<Rightarrow> posix \<Rightarrow> (byte list \<times> posix) option" where
  "take_bytes n p = (case inbox p of Bytes b # l \<Rightarrow> Some (take n b, p\<lparr>inbox := l\<rparr>) | _ \<Rightarrow> None)"

text \<open>The name a call puts into the shared page.\<close>

definition put_name :: "nat \<Rightarrow> nat \<Rightarrow> mem \<Rightarrow> mem option" where
  "put_name nm name m = map_option snd (strlcpy nm name BLT_MAX_NAME_LENGTH m)"

definition libc_request :: "int \<Rightarrow> nat \<Rightarrow> nat list \<Rightarrow> nat \<Rightarrow> int \<Rightarrow> int \<Rightarrow> request" where
  "libc_request port cmd d addr clone nport =
     \<lparr>rq_src = port, rq_cmd = cmd, rq_data = d, rq_port = nport, rq_map = addr, rq_clone = clone\<rparr>"

definition fdl_alloc_descriptor :: "nat \<Rightarrow> posix \<Rightarrow> int \<times> posix" where
  "fdl_alloc_descriptor cookie p =
     (let i = free_fd (fd_table p) in
      if i < MAX_FDS then (int i, p\<lparr>fd_table := (fd_table p)[i := cookie]\<rparr>) else (-1, p))"

definition fdl_free_descriptor :: "nat \<Rightarrow> posix \<Rightarrow> posix" where
  "fdl_free_descriptor d p = p\<lparr>fd_table := (fd_table p)[d := 0]\<rparr>"

text \<open>The replies of the calls.\<close>

definition open_reply :: "nat \<Rightarrow> posix \<Rightarrow> (int \<times> posix) option" where
  "open_reply buf p = do {
     (r, st, p) \<leftarrow> take_reply p;
     if status r \<noteq> VFS_OK then Some (-1, p\<lparr>perrno := res_errno r\<rparr>)
     else do {
       sfd \<leftarrow> res_data r ! 0;
       let a = next_cookie p;
       let p = p\<lparr>next_cookie := a + 1\<rparr>;
       let (i, p) = fdl_alloc_descriptor a p;
       Some (i, p\<lparr>vfs_fds := (vfs_fds p)(a := \<lparr>fd_buf = buf, srv_fd = sfd, fd_offset = 0,
                    fd_length = res_data r ! 1, fd_more = res_data r ! 2\<rparr>)\<rparr>)
     }
   }"

definition vfs_close_reply :: "posix \<Rightarrow> (int \<times> posix) option" where
  "vfs_close_reply p = do {
     (r, st, p) \<leftarrow> take_reply p;
     if status r \<noteq> VFS_OK then Some (-1, p\<lparr>perrno := res_errno r\<rparr>) else Some (0, p)
   }"

text \<open>The loop of \<open>_vfs_read\<close> that takes one page after the other.\<close>

function recv_pages :: "nat \<Rightarrow> posix \<Rightarrow> (byte list \<times> posix) option" where
  "recv_pages len p =
     (if len > 0x1000
      then do {
        (b, p) \<leftarrow> take_bytes 0x1000 p;
        (bs, p) \<leftarrow> recv_pages (len - 0x1000) p;
        Some (b @ bs, p)
      }
      else take_bytes len p)"
  by pat_completeness auto
termination by (relation "measure fst") auto

declare recv_pages.simps [simp del]

definition vfs_read_reply :: "nat \<Rightarrow> posix \<Rightarrow> (int \<times> byte list \<times> posix) option" where
  "vfs_read_reply count p = do {
     (r, st, p) \<leftarrow> take_reply p;
     len \<leftarrow> res_data r ! 0;
     if len = 0 then Some (0, [], p\<lparr>perrno := 0\<rparr>)
     else if len < 0x1000 then do {
       (bs, p) \<leftarrow> take_bytes count p;
       Some (len, bs, p\<lparr>perrno := res_errno r\<rparr>)
     }
     else do {
       (bs, p) \<leftarrow> recv_pages (nat len) p;
       Some (len, bs, p\<lparr>perrno := res_errno r\<rparr>)
     }
   }"

definition stat_reply :: "posix \<Rightarrow> (int \<times> stat_t option \<times> posix) option" where
  "stat_reply p = do {
     (r, st, p) \<leftarrow> take_reply p;
     if status r = VFS_OK then Some (0, st, p) else Some (-1, None, p\<lparr>perrno := res_errno r\<rparr>)
   }"

definition mkdir_reply :: "posix \<Rightarrow> (int \<times> posix) option" where
  "mkdir_reply p = do {
     (r, st, p) \<leftarrow> take_reply p;
     if status r \<noteq> VFS_OK then Some (-1, p\<lparr>perrno := res_errno r\<rparr>) else Some (0, p)
   }"

record dir_t =
  dir_fd :: int
  dir_left :: int
  dir_current :: nat

definition opendir_reply :: "posix \<Rightarrow> (dir_t option \<times> posix) option" where
  "opendir_reply p = do {
     (r, st, p) \<leftarrow> take_reply p;
     if status r \<noteq> VFS_OK then Some (None, p\<lparr>perrno := res_errno r\<rparr>)
     else do {
       fd \<leftarrow> res_data r ! 0;
       n \<leftarrow> res_data r ! 1;
       Some (Some \<lparr>dir_fd = fd, dir_left = n, dir_current = 0\<rparr>, p)
     }
   }"

text \<open>\<open>readdir\<close>: the entry of the shared page, if one is left.\<close>

definition posix_readdir :: "dirent list \<Rightarrow> dir_t \<Rightarrow> dirent option \<times> dir_t" where
  "posix_readdir page d =
     (let d1 = d\<lparr>dir_left := dir_left d - 1\<rparr> in
      if dir_left d > 0 then (Some (page ! dir_current d), d1\<lparr>dir_current := dir_current d + 1\<rparr>) else (None, d1))"

definition closedir_reply :: "posix \<Rightarrow> (int \<times> posix) option" where
  "closedir_reply p = do {
     (r, st, p) \<leftarrow> take_reply p;
     Some (if status r = VFS_OK then 0 else 1, p\<lparr>perrno := res_errno r\<rparr>)
   }"

text \<open>A call: the request goes to the server, whose messages join those waiting, and the reply is
  taken.\<close>

definition exchange :: "int \<Rightarrow> request \<Rightarrow> vfs \<times> posix \<Rightarrow> (vfs \<times> posix) option" where
  "exchange vfs_port rq = (\<lambda>(s, p). do {
     (ms, s) \<leftarrow> vfs_serve vfs_port rq s;
     Some (s, p\<lparr>inbox := inbox p @ map (\<lambda>(src, dst, b). b) ms\<rparr>)
   })"

definition vfs_read_call :: "int \<Rightarrow> int \<Rightarrow> nat \<Rightarrow> nat \<Rightarrow> vfs \<times> posix \<Rightarrow> (int \<times> byte list \<times> vfs \<times> posix) option" where
  "vfs_read_call vfs_port local cookie count = (\<lambda>(s, p). do {
     (s, p) \<leftarrow> exchange vfs_port
       (libc_request local VFS_READ [nat (srv_fd (vfs_fds p cookie)), count, 0, 0, 0, 0] 0 0 0) (s, p);
     (n, bs, p) \<leftarrow> vfs_read_reply count p;
     Some (n, bs, s, p)
   })"

text \<open>\<open>_open\<close>, with the path already in the shared page; \<open>buf\<close> and \<open>area\<close> are the area made for the file.\<close>

definition vfs_open_call :: "int \<Rightarrow> int \<Rightarrow> nat \<Rightarrow> nat \<Rightarrow> vfs \<times> posix \<Rightarrow> (int \<times> vfs \<times> posix) option" where
  "vfs_open_call vfs_port local buf area = (\<lambda>(s, p). do {
     (s, p) \<leftarrow> exchange vfs_port (libc_request local VFS_OPEN [0, area, 0, 0x2000, 0, 0] 0 (int area) 0) (s, p);
     (fd, p) \<leftarrow> open_reply buf p;
     Some (fd, s, p)
   })"

text \<open>The loop of \<^verbatim>\<open>bin/cat/cat.c\<close>: the buffers it prints, in order.\<close>

partial_function (option) cat_loop :: "int \<Rightarrow> int \<Rightarrow> nat \<Rightarrow> vfs \<times> posix \<Rightarrow> (byte list list \<times> vfs \<times> posix) option" where
  "cat_loop vfs_port local cookie sp = do {
     (n, bs, sp1) \<leftarrow> vfs_read_call vfs_port local cookie 255 sp;
     if n = 0 then Some ([], sp1)
     else do {
       (out, sp2) \<leftarrow> cat_loop vfs_port local cookie sp1;
       Some (bs # out, sp2)
     }
   }"

end
