(* ===== verification/PathInv.thy ===== *)
theory PathInv
  imports Path CStringInv
begin

text \<open>
  \<open>path_concat\<close> resolves absolute paths. A path is seen as a list of components, the loop as a walk over
  them with the resolved part in the buffer.
\<close>

section \<open>Components\<close>

text \<open>A path is a list of components. \<open>rest\<close> is what follows the first slash, with or without a
  slash at the end; \<open>norm\<close> resolves \<open>.\<close> and \<open>..\<close>; \<open>render\<close> is the absolute path.\<close>

type_synonym component = "byte list"

fun rest :: "component list \<Rightarrow> bool \<Rightarrow> byte list" where
  "rest [] b = []"
| "rest [c] b = c @ (if b then [SLASH] else [])"
| "rest (c # cs) b = c @ SLASH # rest cs b"

fun norm :: "component list \<Rightarrow> component list \<Rightarrow> component list" where
  "norm st [] = st"
| "norm st (c # cs) =
     (if c = [DOT] then norm st cs
      else if c = [DOT, DOT] then norm (butlast st) cs
      else norm (st @ [c]) cs)"

definition prefixed :: "component list \<Rightarrow> byte list" where
  "prefixed st = concat (map (\<lambda>c. SLASH # c) st)"

definition render :: "component list \<Rightarrow> byte list" where
  "render st = (if st = [] then [SLASH] else prefixed st)"

text \<open>A component has a name without slash and NUL; one that begins with two dots is \<open>..\<close>.\<close>

definition component_ok :: "component \<Rightarrow> bool" where
  "component_ok c \<longleftrightarrow> c \<noteq> [] \<and> 0 \<notin> set c \<and> SLASH \<notin> set c \<and>
     (hd c = DOT \<longrightarrow> c = [DOT] \<or> c = [DOT, DOT] \<or> (1 < length c \<and> c ! 1 \<noteq> DOT))"

text \<open>The path does not end in \<open>.\<close>, nor in a \<open>..\<close> that leads out of the root.\<close>

fun ends_well :: "component list \<Rightarrow> component list \<Rightarrow> bool" where
  "ends_well st [] = True"
| "ends_well st [c] = (c \<noteq> [DOT] \<and> (c = [DOT, DOT] \<longrightarrow> st \<noteq> []))"
| "ends_well st (c # cs) =
     (if c = [DOT] then ends_well st cs
      else if c = [DOT, DOT] then ends_well (butlast st) cs
      else ends_well (st @ [c]) cs)"

definition holds :: "byte list \<Rightarrow> nat \<Rightarrow> mem \<Rightarrow> bool" where
  "holds xs a m \<longleftrightarrow> (\<forall>i < length xs. m (a + i) = xs ! i)"

lemma holds_Nil [simp]: "holds [] a m"
  by (simp add: holds_def)

lemma holds_put: "holds xs a m \<Longrightarrow> holds (xs @ ys) a (put ys (a + length xs) m)"
  by (auto simp: holds_def put_apply nth_append)

lemma holds_upd: "holds xs a m \<Longrightarrow> holds (xs @ [y]) a (m(a + length xs := y))"
  by (auto simp: holds_def nth_append less_Suc_eq)

lemma holds_prefix: "holds (xs @ ys) a m \<Longrightarrow> holds xs a m"
  by (auto simp: holds_def nth_append)

text \<open>The unread part of the path stays as it is while the buffer is written before or behind it.\<close>

lemma is_str_put_out:
  "is_str xs a m \<Longrightarrow> c + length ys \<le> a \<or> a + length xs < c \<Longrightarrow> is_str xs a (put ys c m)"
  by (erule is_str_cong [THEN iffD1, rotated]) (auto simp: put_apply)

lemma is_str_append: "is_str (xs @ ys) a m \<Longrightarrow> is_str ys (a + length xs) m"
  using is_str_drop [of "xs @ ys" a m "length xs"] by simp

lemma copy_component_str:
  assumes "is_str (xs @ ys) t m" and "SLASH \<notin> set xs" and "ys = [] \<or> hd ys = SLASH"
    and "c + length xs \<le> t \<or> t + length xs + length ys < c"
  shows "copy_component c t m = Some (c + length xs, t + length xs, put xs c m)"
  using assms
proof (induction xs arbitrary: c t m)
  case Nil
  then have "m t = 0 \<or> m t = SLASH" by (cases ys) auto
  then show ?case by (subst copy_component.simps) auto
next
  case (Cons x xs)
  let ?m = "m(c := x)"
  have "is_str (xs @ ys) (t + 1) ?m"
    using Cons.prems is_str_put_out [of "xs @ ys" "t + 1" m c "[x]"] by auto
  then have "copy_component (c + 1) (t + 1) ?m = Some (c + 1 + length xs, t + 1 + length xs, put xs (c + 1) ?m)"
    using Cons.prems(2-4) by (intro Cons.IH) (simp_all del: fun_upd_apply, linarith)
  moreover have "m t = x" "x \<noteq> 0" using Cons.prems(1) by simp_all
  ultimately show ?case using Cons.prems(2) by (subst copy_component.simps) simp
qed

lemma back_up_str:
  assumes "\<And>i. i < k \<Longrightarrow> m (s + p + 1 + i) \<noteq> SLASH" and "p = 0 \<or> m (s + p) = SLASH"
  shows "back_up s (s + p + k) m = Some (s + p)"
  using assms(1)
proof (induction k)
  case 0
  then show ?case using assms(2) by (subst back_up.simps) auto
next
  case (Suc k)
  have "m (s + p + Suc k) \<noteq> SLASH" using Suc.prems [of k] by simp
  then show ?case using Suc by (subst back_up.simps) auto
qed

lemma prefixed_simps [simp]: "prefixed [] = []" "prefixed (st @ [c]) = prefixed st @ SLASH # c"
  by (simp_all add: prefixed_def)

lemma back_up_component:
  assumes "holds (prefixed st @ SLASH # c @ [SLASH]) s m" and "SLASH \<notin> set c"
  shows "back_up s (s + length (prefixed st) + length c) m = Some (s + length (prefixed st))"
proof (rule back_up_str)
  have h: "m (s + i) = (prefixed st @ SLASH # c @ [SLASH]) ! i" if "i < length (prefixed st) + length c + 2" for i
    using assms(1) that by (auto simp: holds_def)
  show "m (s + length (prefixed st) + 1 + i) \<noteq> SLASH" if "i < length c" for i
  proof -
    have "c ! i \<noteq> SLASH" using assms(2) that by (metis nth_mem)
    then show ?thesis using h [of "length (prefixed st) + 1 + i"] that by (simp add: nth_append ac_simps)
  qed
  show "length (prefixed st) = 0 \<or> m (s + length (prefixed st)) = SLASH"
    using h [of "length (prefixed st)"] by (simp add: nth_append)
qed

section \<open>The loop of path_concat\<close>

text \<open>The state of the loop between two components: the buffer at \<open>s\<close> holds the resolved part with
  a slash behind it, \<open>t\<close> is at the next component, and the two are apart.\<close>

definition loop_at :: "nat \<Rightarrow> component list \<Rightarrow> nat \<Rightarrow> nat \<Rightarrow> byte list \<Rightarrow> mem \<Rightarrow> bool" where
  "loop_at s st c t r m \<longleftrightarrow> holds (prefixed st @ [SLASH]) s m \<and> c = s + length (prefixed st) + 1
     \<and> is_str r t m \<and> (c + length r < t \<or> t + length r < s)"

text \<open>Where the loop stops: the buffer holds \<open>out\<close>, and only its bytes have changed.\<close>

definition stops :: "(nat \<times> mem) option \<Rightarrow> nat \<Rightarrow> byte list \<Rightarrow> nat \<Rightarrow> mem \<Rightarrow> bool" where
  "stops r s out n m \<longleftrightarrow> (\<exists>m'. r = Some (s + length out, m') \<and> holds out s m' \<and> length out \<le> n
     \<and> (\<forall>a. a < s \<or> s + n < a \<longrightarrow> m' a = m a))"

lemma stops_mono:
  assumes "stops r s out n m1" and "n \<le> n'" and "\<And>a. a < s \<or> s + n' < a \<Longrightarrow> m1 a = m a"
  shows "stops r s out n' m"
  using assms unfolding stops_def by (metis add_le_cancel_left le_less_trans le_trans)

lemma step_slash:
  "m t = SLASH \<Longrightarrow> concat_loop s c t m = concat_loop s (c + 1) (t + 1) (m(c := SLASH))"
  by (subst concat_loop.simps) simp

lemma step_dot:
  "m t = DOT \<Longrightarrow> m (t + 1) = SLASH \<Longrightarrow> concat_loop s c t m = concat_loop s c (t + 2) m"
  by (subst concat_loop.simps) simp

lemma step_end: "m t = 0 \<Longrightarrow> concat_loop s c t m = Some (c, m)"
  by (subst concat_loop.simps) simp

lemma step_name:
  assumes "is_str (c # cs @ ys) t m" and "SLASH \<notin> set (c # cs)" and "ys = [] \<or> hd ys = SLASH"
    and "c = DOT \<longrightarrow> cs \<noteq> [] \<and> hd cs \<noteq> DOT"
    and "p + length (c # cs) \<le> t \<or> t + length (c # cs) + length ys < p"
  shows "concat_loop s p t m = concat_loop s (p + length (c # cs)) (t + length (c # cs)) (put (c # cs) p m)"
proof (cases "c = DOT")
  case False
  have "copy_component p t m = Some (p + length (c # cs), t + length (c # cs), put (c # cs) p m)"
    using assms by (intro copy_component_str [of "c # cs" ys]) simp_all
  then show ?thesis using assms(1,2) False by (subst concat_loop.simps) simp
next
  case True
  then obtain d ds where d: "cs = d # ds" "d \<noteq> DOT" using assms(4) by (cases cs) auto
  let ?m = "m(p := DOT)"
  have "is_str (cs @ ys) (t + 1) ?m"
    using assms(1,5) is_str_put_out [of "cs @ ys" "t + 1" m p "[DOT]"] by auto
  then have "copy_component (p + 1) (t + 1) ?m = Some (p + 1 + length cs, t + 1 + length cs, put cs (p + 1) ?m)"
    using assms(2,3,5) by (intro copy_component_str [of cs ys]) (simp_all del: fun_upd_apply, linarith)
  moreover have "m t = DOT" "m (t + 1) = d" "d \<noteq> 0" "d \<noteq> SLASH"
    using assms(1,2) True d(1) by simp_all
  ultimately show ?thesis using d(2) True by (subst concat_loop.simps) (simp del: fun_upd_apply)
qed

lemma step_parent:
  assumes "loop_at s (st @ [x]) c t (DOT # DOT # r) m" and "SLASH \<notin> set x"
  shows "concat_loop s c t m = concat_loop s (s + length (prefixed st) + 1)
    (if m (t + 2) = SLASH then t + 3 else t + 2) m"
proof -
  have h: "holds (prefixed st @ SLASH # x @ [SLASH]) s m" "c = s + length (prefixed st) + length x + 2"
    "m t = DOT" "m (t + 1) = DOT"
    using assms(1) by (simp_all add: loop_at_def)
  then have "back_up s (c - 2) m = Some (s + length (prefixed st))"
    using back_up_component [OF h(1) assms(2)] by simp
  then show ?thesis using h by (subst concat_loop.simps) simp
qed

lemma step_root:
  assumes "loop_at s [] c t (DOT # DOT # SLASH # r) m"
  shows "concat_loop s c t m = concat_loop s c (t + 3) m"
proof -
  have h: "c = s + 1" "m t = DOT" "m (t + 1) = DOT" "m (t + 2) = SLASH"
    using assms by (simp_all add: loop_at_def)
  have "concat_loop s c t m = concat_loop s c (t + 1) m" using h by (subst concat_loop.simps) simp
  also have "\<dots> = concat_loop s c (t + 1 + 2) m" using h by (intro step_dot) (simp_all add: numeral_eq_Suc)
  finally show ?thesis by (simp add: numeral_eq_Suc)
qed

definition same_outside :: "nat \<Rightarrow> nat \<Rightarrow> mem \<Rightarrow> mem \<Rightarrow> bool" where
  "same_outside s n m m' \<longleftrightarrow> (\<forall>a. a < s \<or> s + n < a \<longrightarrow> m' a = m a)"

lemma same_outside_trans:
  "same_outside s n m m' \<Longrightarrow> n \<le> n' \<Longrightarrow> same_outside s n' m' m'' \<Longrightarrow> same_outside s n' m m''"
  by (auto simp: same_outside_def)

text \<open>A component with a slash behind it.\<close>

definition advances :: "nat \<Rightarrow> nat \<Rightarrow> nat \<Rightarrow> mem \<Rightarrow> component list \<Rightarrow> byte list \<Rightarrow> nat \<Rightarrow> bool" where
  "advances s c t m st r n \<longleftrightarrow> (\<exists>c' t' m'. concat_loop s c t m = concat_loop s c' t' m' \<and> loop_at s st c' t' r m'
     \<and> same_outside s n m m' \<and> length (prefixed st) + 1 \<le> n)"

lemma loop_at_skip:
  assumes "loop_at s st c t (x @ r) m"
  shows "loop_at s st c (t + length x) r m"
  using assms is_str_append [of x r t m] by (auto simp: loop_at_def)

lemma advance_name:
  assumes l: "loop_at s st c t (x @ SLASH # r) m" and x: "component_ok x" "x \<noteq> [DOT]" "x \<noteq> [DOT, DOT]"
  shows "advances s c t m (st @ [x]) r (length (prefixed st) + length x + 2)"
proof -
  let ?m = "put x c m" and ?c = "c + length x" and ?t = "t + length x"
  let ?m' = "?m(?c := SLASH)"
  have h: "holds (prefixed st @ [SLASH]) s m" "c = s + length (prefixed st) + 1" "is_str (x @ SLASH # r) t m"
    "c + length (x @ SLASH # r) < t \<or> t + length (x @ SLASH # r) < s"
    using l by (auto simp: loop_at_def)
  obtain y ys where y: "x = y # ys" using x(1) by (cases x) (auto simp: component_ok_def)
  have "y = DOT \<longrightarrow> ys \<noteq> [] \<and> hd ys \<noteq> DOT" using x y by (cases ys) (auto simp: component_ok_def)
  then have 1: "concat_loop s c t m = concat_loop s ?c ?t ?m"
    using step_name [of y ys "SLASH # r" t m c s] h x(1) y by (auto simp: component_ok_def)
  have i: "is_str (x @ SLASH # r) t ?m" using h by (intro is_str_put_out) auto
  have i2: "is_str (SLASH # r) ?t ?m" using is_str_append [OF i] by simp
  then have 2: "concat_loop s ?c ?t ?m = concat_loop s (?c + 1) (?t + 1) ?m'"
    by (intro step_slash) simp
  have "holds ((prefixed st @ [SLASH]) @ x) s ?m" using holds_put [OF h(1), of x] h(2) by simp
  from holds_upd [OF this, of SLASH] have hm: "holds (prefixed (st @ [x]) @ [SLASH]) s ?m'"
    using h(2) by (simp add: ac_simps)
  have "is_str r (?t + 1) (put [SLASH] ?c ?m)" using i2 h by (intro is_str_put_out [of _ _ ?m]) auto
  then have "loop_at s (st @ [x]) (?c + 1) (?t + 1) r ?m'"
    using hm h by (auto simp: loop_at_def)
  moreover have "same_outside s (length (prefixed st) + length x + 2) m ?m'"
    using h(2) by (auto simp: same_outside_def put_apply)
  ultimately show ?thesis unfolding advances_def 1 2 by (auto simp del: fun_upd_apply)
qed

lemma advance:
  assumes l: "loop_at s st c t (x @ SLASH # r) m" and x: "component_ok x" and st: "\<forall>y \<in> set st. SLASH \<notin> set y"
  shows "advances s c t m (norm st [x]) r (length (prefixed st) + length x + 2)"
proof -
  consider "x = [DOT]" | "x = [DOT, DOT]" "st = []" | st' y where "x = [DOT, DOT]" "st = st' @ [y]"
    | "x \<noteq> [DOT]" "x \<noteq> [DOT, DOT]" by (metis rev_exhaust)
  then show ?thesis
  proof cases
    case 1
    then have "m t = DOT" "m (t + 1) = SLASH" using l by (simp_all add: loop_at_def)
    then have "concat_loop s c t m = concat_loop s c (t + 2) m" by (rule step_dot)
    moreover have "loop_at s st c (t + 2) r m" using loop_at_skip [of s st c t "[DOT, SLASH]" r m] l 1 by simp
    ultimately show ?thesis using 1 by (auto simp: advances_def same_outside_def)
  next
    case 2
    then have "concat_loop s c t m = concat_loop s c (t + 3) m" using l by (intro step_root) simp
    moreover have "loop_at s [] c (t + 3) r m"
      using loop_at_skip [of s "[]" c t "[DOT, DOT, SLASH]" r m] l 2 by (simp add: numeral_eq_Suc)
    ultimately show ?thesis using 2 by (auto simp: advances_def same_outside_def)
  next
    case 3
    have "m (t + 2) = SLASH" using l 3(1) by (simp add: loop_at_def numeral_eq_Suc)
    then have "concat_loop s c t m = concat_loop s (s + length (prefixed st') + 1) (t + 3) m"
      using step_parent [of s st' y c t "SLASH # r" m] l 3 st by simp
    moreover have "loop_at s st' (s + length (prefixed st') + 1) (t + 3) r m"
      using loop_at_skip [of s st c t "[DOT, DOT, SLASH]" r m] l 3
      by (auto simp: loop_at_def numeral_eq_Suc dest: holds_prefix [of "prefixed st' @ [SLASH]" "y @ [SLASH]", simplified])
    ultimately show ?thesis using 3 by (auto simp: advances_def same_outside_def)
  next
    case 4
    then show ?thesis using advance_name [OF l x] by simp
  qed
qed

lemma stop_name:
  assumes l: "loop_at s st c t x m" and x: "component_ok x" "x \<noteq> [DOT]" "x \<noteq> [DOT, DOT]"
  shows "stops (concat_loop s c t m) s (prefixed (st @ [x])) (length (prefixed st) + length x + 1) m"
proof -
  have h: "holds (prefixed st @ [SLASH]) s m" "c = s + length (prefixed st) + 1" "is_str x t m"
    "c + length x < t \<or> t + length x < s"
    using l by (auto simp: loop_at_def)
  obtain y ys where y: "x = y # ys" using x(1) by (cases x) (auto simp: component_ok_def)
  have "y = DOT \<longrightarrow> ys \<noteq> [] \<and> hd ys \<noteq> DOT" using x y by (cases ys) (auto simp: component_ok_def)
  then have "concat_loop s c t m = concat_loop s (c + length x) (t + length x) (put x c m)"
    using step_name [of y ys "[]" t m c s] h x(1) y by (auto simp: component_ok_def)
  also have "\<dots> = Some (c + length x, put x c m)"
  proof (rule step_end)
    have "is_str x t (put x c m)" using h by (intro is_str_put_out) auto
    then show "put x c m (t + length x) = 0" by (simp add: is_str_iff)
  qed
  finally have "concat_loop s c t m = Some (c + length x, put x c m)" .
  moreover have "holds ((prefixed st @ [SLASH]) @ x) s (put x c m)" using holds_put [OF h(1), of x] h(2) by simp
  ultimately show ?thesis using h(2) by (auto simp: stops_def put_apply)
qed

lemma stop_parent:
  assumes l: "loop_at s (st @ [y]) c t [DOT, DOT] m" and "SLASH \<notin> set y"
  shows "stops (concat_loop s c t m) s (prefixed st @ [SLASH]) (length (prefixed (st @ [y])) + 3) m"
proof -
  have z: "m (t + 2) = 0" and h: "holds (prefixed st @ [SLASH]) s m"
    using l holds_prefix [of "prefixed st @ [SLASH]" "y @ [SLASH]"] by (auto simp: loop_at_def numeral_eq_Suc)
  have "concat_loop s c t m = Some (s + length (prefixed st) + 1, m)"
    using step_parent [OF l assms(2)] z by (simp add: step_end)
  then show ?thesis using h by (auto simp: stops_def)
qed

definition final :: "component list \<Rightarrow> byte list \<Rightarrow> bool" where
  "final st out \<longleftrightarrow> out = prefixed st @ [SLASH] \<or>
     (out = prefixed st \<and> st \<noteq> [] \<and> last st \<noteq> [] \<and> SLASH \<notin> set (last st))"

lemma norm_names: "\<forall>y \<in> set st. SLASH \<notin> set y \<Longrightarrow> component_ok x \<Longrightarrow> \<forall>y \<in> set (norm st [x]). SLASH \<notin> set y"
  by (auto simp: component_ok_def dest: in_set_butlastD)

lemma rest_Cons2: "cs \<noteq> [] \<or> b \<Longrightarrow> rest (x # cs) b = x @ SLASH # rest cs b"
  by (cases cs) auto

lemma ends_well_Cons: "cs \<noteq> [] \<Longrightarrow> ends_well st (x # cs) = ends_well (norm st [x]) cs"
  by (cases cs) auto

lemma norm_Cons: "norm st (x # cs) = norm (norm st [x]) cs"
  by simp

lemma concat_loop_final:
  assumes "loop_at s st c t (rest cs b) m" and "\<forall>x \<in> set cs. component_ok x" and "\<forall>y \<in> set st. SLASH \<notin> set y"
    and "b \<or> ends_well st cs"
  shows "\<exists>out. stops (concat_loop s c t m) s out (length (prefixed st) + 1 + length (rest cs b)) m \<and> final (norm st cs) out"
  using assms
proof (induction cs arbitrary: st c t m)
  case Nil
  then have "m t = 0" by (simp add: loop_at_def)
  then show ?case
    using Nil.prems(1) by (intro exI [of _ "prefixed st @ [SLASH]"]) (simp add: stops_def final_def step_end loop_at_def)
next
  case (Cons x cs)
  have x: "component_ok x" using Cons.prems(2) by simp
  show ?case
  proof (cases "cs \<noteq> [] \<or> b")
    case True
    note r = rest_Cons2 [OF True, of x]
    obtain c' t' m' where a: "concat_loop s c t m = concat_loop s c' t' m'" "loop_at s (norm st [x]) c' t' (rest cs b) m'"
      "same_outside s (length (prefixed st) + length x + 2) m m'"
      "length (prefixed (norm st [x])) + 1 \<le> length (prefixed st) + length x + 2"
      using advance [OF _ x Cons.prems(3)] Cons.prems(1) unfolding r advances_def by blast
    have "b \<or> ends_well (norm st [x]) cs" using Cons.prems(4) ends_well_Cons [of cs st x] by (cases cs) auto
    then obtain out where o: "stops (concat_loop s c' t' m') s out (length (prefixed (norm st [x])) + 1 + length (rest cs b)) m'"
      "final (norm (norm st [x]) cs) out"
      using Cons.IH [OF a(2) _ norm_names [OF Cons.prems(3) x]] Cons.prems(2) by auto
    have "stops (concat_loop s c t m) s out (length (prefixed st) + 1 + length (rest (x # cs) b)) m"
      unfolding a(1) by (rule stops_mono [OF o(1)]) (use a(3,4) r in \<open>auto simp: same_outside_def\<close>)
    then show ?thesis using o(2) norm_Cons by metis
  next
    case False
    then have e: "cs = []" "\<not> b" by simp_all
    have l: "loop_at s st c t x m" using Cons.prems(1) e by simp
    have w: "x \<noteq> [DOT]" "x = [DOT, DOT] \<longrightarrow> st \<noteq> []" using Cons.prems(4) e by simp_all
    show ?thesis
    proof (cases "x = [DOT, DOT]")
      case True
      then obtain st' y where st: "st = st' @ [y]" using w(2) by (metis rev_exhaust)
      have "stops (concat_loop s c t m) s (prefixed st' @ [SLASH]) (length (prefixed st) + 3) m"
        using stop_parent [of s st' y c t m] l True st Cons.prems(3) by simp
      then show ?thesis using True st e by (intro exI [of _ "prefixed st' @ [SLASH]"]) (simp add: final_def numeral_eq_Suc)
    next
      case False
      have "final (st @ [x]) (prefixed (st @ [x]))" using x by (simp add: final_def component_ok_def)
      moreover have "stops (concat_loop s c t m) s (prefixed (st @ [x])) (length (prefixed st) + length x + 1) m"
        by (rule stop_name [OF l x w(1) False])
      ultimately show ?thesis using False w(1) e by (auto simp del: prefixed_simps)
    qed
  qed
qed

text \<open>What is left after the last step of \<open>path_concat\<close>, which drops a slash at the end.\<close>

definition close_path :: "nat \<Rightarrow> nat \<Rightarrow> mem \<Rightarrow> mem" where
  "close_path s c m = (let m2 = m(c := 0) in if c - 1 \<noteq> s \<and> m2 (c - 1) = SLASH then m2(c - 1 := 0) else m2)"

lemma holds_str: "holds out s m \<Longrightarrow> 0 \<notin> set out \<Longrightarrow> is_str out s (m(s + length out := 0))"
  by (auto simp: holds_def is_str_iff) (metis nth_mem)

lemma close_final:
  assumes "holds out s m" and "final st out" and "\<forall>x \<in> set st. 0 \<notin> set x \<and> x \<noteq> []"
  shows "is_str (render st) s (close_path s (s + length out) m)"
proof -
  have z: "0 \<notin> set (prefixed st)" using assms(3) by (auto simp: prefixed_def)
  consider "out = prefixed st @ [SLASH]" "st = []" | "out = prefixed st @ [SLASH]" "st \<noteq> []"
    | "out = prefixed st" "st \<noteq> []" "SLASH \<notin> set (last st)" "last st \<noteq> []"
    using assms(2) unfolding final_def by blast
  then show ?thesis
  proof cases
    case 1
    then show ?thesis using assms(1) by (simp add: render_def close_path_def holds_def)
  next
    case 2
    have "prefixed st \<noteq> []" using 2(2) by (cases st) (simp_all add: prefixed_def)
    then have c: "close_path s (s + length out) m = m(s + length out := 0, s + length (prefixed st) := 0)"
      using assms(1) 2(1) by (auto simp: close_path_def holds_def Let_def)
    have "is_str (prefixed st) s ((m(s + length out := 0))(s + length (prefixed st) := 0))"
      using assms(1) 2(1) by (intro holds_str z) (auto simp: holds_def nth_append)
    then show ?thesis using 2(2) by (simp add: render_def c)
  next
    case 3
    have st: "st = butlast st @ [last st]" using 3(2) by simp
    then have "out = prefixed (butlast st) @ SLASH # last st" using 3(1) prefixed_simps(2) by metis
    then have "out \<noteq> []" "last out = last (last st)" "length out \<ge> 2"
      using 3(4) by (auto simp: Suc_le_eq)
    moreover have "m (s + length out - 1) = last out"
      using assms(1) \<open>out \<noteq> []\<close> by (cases out rule: rev_cases) (auto simp: holds_def)
    moreover have "last (last st) \<noteq> SLASH" using 3(3,4) by (metis last_in_set)
    ultimately have "close_path s (s + length out) m = m(s + length out := 0)"
      by (auto simp: close_path_def Let_def)
    moreover have "is_str out s (m(s + length out := 0))" using assms(1) z 3(1) by (intro holds_str) simp_all
    ultimately show ?thesis using 3(1,2) by (simp add: render_def)
  qed
qed

lemma norm_subset: "set (norm st cs) \<subseteq> set st \<union> set cs"
proof (induction st cs rule: norm.induct)
  case (2 st c cs)
  have "set (butlast st) \<subseteq> set st" by (auto dest: in_set_butlastD)
  then show ?case
    using 2(1) 2(2) 2(3) by (cases "c = [DOT]"; cases "c = [DOT, DOT]") (simp_all add: subset_iff, blast)
qed simp

lemma norm_ok:
  "\<forall>y \<in> set st. 0 \<notin> set y \<and> y \<noteq> [] \<Longrightarrow> \<forall>x \<in> set cs. component_ok x \<Longrightarrow> \<forall>y \<in> set (norm st cs). 0 \<notin> set y \<and> y \<noteq> []"
  using norm_subset [of st cs] unfolding component_ok_def by blast



text \<open>A dot at the end of a path makes the loop step over the NUL: here the bytes behind \<open>/.\<close> are
  taken as part of the path.\<close>

theorem path_concat_reads_past_end:
  "\<exists>m'. path_concat 100 200 (put [SLASH, DOT, 0, 0x78, 0] 200 (\<lambda>a. 0)) = Some m' \<and> is_str [SLASH, 0x78] 100 m'"
  by (simp add: path_concat_def skip_string.simps concat_loop.simps copy_component.simps)

end
