(* ===== verification/HashInv.thy ===== *)
theory HashInv
  imports Hash
begin

text \<open>
  The hash table refines a map: the table sizes are prime, so a probe sequence visits every place;
  insertion, removal, growth and shrinking keep every key reachable. \<open>key_table\<close> is the contract a
  client relies on.
\<close>

section \<open>The table sizes are prime\<close>

definition no_divisor_below :: "nat \<Rightarrow> nat \<Rightarrow> bool" where
  "no_divisor_below k n \<longleftrightarrow> list_all (\<lambda>d. n mod d \<noteq> 0) [2..<k]"

lemma coprime_small:
  assumes "no_divisor_below k n" and "n < k * k" and "0 < c" and "c < n"
  shows "coprime c n"
proof (rule ccontr)
  assume "\<not> coprime c n"
  define g where "g = gcd c n"
  have "g \<le> c" unfolding g_def using assms(3) by (intro gcd_le1_nat) simp
  then have "g < n" using assms(4) by simp
  moreover have "g \<noteq> 0" "g \<noteq> 1"
    using \<open>\<not> coprime c n\<close> assms(3) by (simp_all add: g_def coprime_iff_gcd_eq_1)
  moreover have "g dvd n" by (simp add: g_def)
  ultimately have g: "g dvd n" "1 < g" "g < n" by linarith+
  obtain h where h: "n = g * h" using g(1) by (elim dvdE)
  have "g < k \<or> h < k"
    using assms(2) h mult_le_mono [of k g k h] by (meson linorder_not_less)
  then have "(g < k \<and> n mod g = 0) \<or> (h < k \<and> 1 < h \<and> n mod h = 0)"
    using g h by (cases "h = 0"; cases "h = 1") auto
  moreover have nd: "n mod d \<noteq> 0" if "1 < d" "d < k" for d
    using assms(1) that by (auto simp: no_divisor_below_def list_all_iff)
  ultimately show False using g(2) nd [of g] nd [of h] by (elim disjE conjE) simp_all
qed

lemma sizes_prime:
  "no_divisor_below 3 7" "no_divisor_below 5 19" "no_divisor_below 7 43" "no_divisor_below 11 103"
  "no_divisor_below 16 229" "no_divisor_below 22 463" "no_divisor_below 32 1021"
  "no_divisor_below 46 2083" "no_divisor_below 65 4219" "no_divisor_below 93 8539"
  "no_divisor_below 132 17191" "no_divisor_below 186 34471" "no_divisor_below 263 69031"
  by (simp_all add: no_divisor_below_def upt_rec_numeral)

lemma less_13: "(n :: nat) < 13 \<Longrightarrow> n \<in> {0, 1, 2, 3, 4, 5, 6, 7, 8, 9, 10, 11, 12}"
  by (auto simp: numeral_eq_Suc less_Suc_eq)

lemma size_coprime:
  assumes "sz < 13" and "0 < c" and "c < table_size ! sz"
  shows "coprime c (table_size ! sz)"
proof -
  note p = sizes_prime [THEN coprime_small]
  show ?thesis
    using less_13 [OF assms(1)] assms(2,3)
    by (elim insertE emptyE) (simp_all add: table_size_def p)
qed

lemma size_bounds:
  assumes "sz < 13"
  shows "7 \<le> table_size ! sz" and "table_size ! sz \<le> 69031"
  using less_13 [OF assms] by (elim insertE emptyE; simp add: table_size_def)+

lemma size_doubles:
  assumes "sz < 12"
  shows "2 * table_size ! sz < table_size ! Suc sz"
proof -
  have "sz \<in> {0, 1, 2, 3, 4, 5, 6, 7, 8, 9, 10, 11}"
    using assms less_13 [of sz] by auto
  then show ?thesis by (elim insertE emptyE) (simp_all add: table_size_def)
qed

section \<open>Probe sequences\<close>

definition path :: "int \<Rightarrow> nat \<Rightarrow> nat \<Rightarrow> nat" where
  "path k sz j = (probe_next (table_size ! sz) (rehash k sz) ^^ j) (hash k sz)"

lemma path_0: "path k sz 0 = hash k sz"
  by (simp add: path_def)

lemma path_Suc: "path k sz (Suc j) = probe_next (table_size ! sz) (rehash k sz) (path k sz j)"
  by (simp add: path_def)

lemma probe_next_mod:
  assumes "i < n" and "0 < c" and "c < n"
  shows "probe_next n c i = (i + (n - c)) mod n"
proof (cases "i < c")
  case False
  then have "i + (n - c) = (i - c) + n" using assms by simp
  then have "(i + (n - c)) mod n = i - c" using assms(1) by (simp only: mod_add_self2) simp
  then show ?thesis using False by (simp add: probe_next_def)
qed (use assms in \<open>simp add: probe_next_def\<close>)

lemma rehash_bounds:
  assumes "sz < 13"
  shows "0 < rehash k sz \<and> rehash k sz < table_size ! sz"
proof -
  have "u32_of_int k mod (table_size ! sz - 2) < table_size ! sz - 2"
    using size_bounds(1) [OF assms] by (intro mod_less_divisor) simp
  then show ?thesis unfolding rehash_def by linarith
qed

lemma hash_less: "sz < 13 \<Longrightarrow> hash k sz < table_size ! sz"
  using size_bounds(1) [of sz] by (simp add: hash_def)

lemma path_mod:
  assumes "sz < 13"
  shows "path k sz j = (hash k sz + j * (table_size ! sz - rehash k sz)) mod table_size ! sz"
proof (induction j)
  case 0
  then show ?case using hash_less [OF assms] by (simp add: path_0)
next
  case (Suc j)
  have "path k sz j < table_size ! sz"
    using Suc size_bounds(1) [OF assms] by simp
  then have "path k sz (Suc j) = (path k sz j + (table_size ! sz - rehash k sz)) mod table_size ! sz"
    using rehash_bounds [OF assms, of k] by (simp only: path_Suc probe_next_mod)
  then show ?case unfolding Suc by (simp only: mod_add_left_eq) (simp only: mult_Suc ac_simps)
qed

lemma path_less: "sz < 13 \<Longrightarrow> path k sz j < table_size ! sz"
  using size_bounds(1) [of sz] by (simp add: path_mod)

text \<open>The first \<open>table_size\<close> places of a probe sequence are all different, so they are all places.\<close>

lemma path_inj:
  assumes "sz < 13"
  shows "inj_on (path k sz) {..<table_size ! sz}"
proof (rule linorder_inj_onI')
  fix i j
  assume ij: "i \<in> {..<table_size ! sz}" "j \<in> {..<table_size ! sz}" "i < j"
  define n e where "n = table_size ! sz" and "e = n - rehash k sz"
  have c: "coprime e n"
    unfolding n_def e_def
    using rehash_bounds [OF assms, of k] by (intro size_coprime [OF assms]) simp_all
  show "path k sz i \<noteq> path k sz j"
  proof
    assume "path k sz i = path k sz j"
    then have "(hash k sz + i * e) mod n = (hash k sz + j * e) mod n"
      by (simp add: path_mod [OF assms] n_def e_def)
    then have "n dvd (hash k sz + j * e) - (hash k sz + i * e)"
      using ij(3) by (intro mod_eq_dvd_iff_nat [THEN iffD1]) simp_all
    then have "n dvd (j - i) * e" by (simp add: diff_mult_distrib)
    then have "n dvd j - i" using c by (simp add: coprime_dvd_mult_left_iff coprime_commute)
    then show False using ij by (auto simp: n_def dest: dvd_imp_le)
  qed
qed

lemma path_surj:
  assumes "sz < 13" and "i < table_size ! sz"
  obtains j where "j < table_size ! sz" and "path k sz j = i"
proof -
  have "path k sz ` {..<table_size ! sz} = {..<table_size ! sz}"
    by (rule endo_inj_surj) (auto simp: path_less assms path_inj)
  then show ?thesis using assms(2) that by (metis imageE lessThan_iff)
qed

section \<open>The table as a map\<close>

definition live :: "hashnode \<Rightarrow> bool" where
  "live nd \<longleftrightarrow> valid nd \<and> \<not> dirty nd"

definition hmap :: "hashtable \<Rightarrow> int \<rightharpoonup> nat \<times> int" where
  "hmap t k = map_option (\<lambda>nd. (hdata nd, dsize nd)) (List.find (\<lambda>nd. live nd \<and> hkey nd = k) (htab t))"

text \<open>\<open>reach t k i\<close>: the probe sequence of key \<open>k\<close> comes to place \<open>i\<close> over valid nodes only.\<close>

definition reach :: "hashtable \<Rightarrow> int \<Rightarrow> nat \<Rightarrow> bool" where
  "reach t k i \<longleftrightarrow> (\<exists>f. path k (size_index t) f = i \<and>
     (\<forall>j < f. valid (htab t ! path k (size_index t) j)))"

definition load_ok :: "hashtable \<Rightarrow> bool" where
  "load_ok t \<longleftrightarrow> load_den t \<le> 7 * load_num t \<and> 7 * load_num t < 6 * load_den t"

definition valid_count :: "hashnode list \<Rightarrow> nat" where
  "valid_count tab = card {i. i < length tab \<and> valid (tab ! i)}"

definition ht_ok :: "hashtable \<Rightarrow> bool" where
  "ht_ok t \<longleftrightarrow> size_index t < 13 \<and> length (htab t) = table_size ! size_index t
     \<and> load_ok t \<and> used t = int (valid_count (htab t))
     \<and> used t * int (load_den t) \<le> int (load_num t * table_size ! size_index t + load_den t)
     \<and> (\<forall>i < length (htab t). dirty (htab t ! i) \<longrightarrow> valid (htab t ! i))
     \<and> (\<forall>i < length (htab t). \<forall>j < length (htab t). live (htab t ! i) \<longrightarrow> live (htab t ! j) \<longrightarrow>
          hkey (htab t ! i) = hkey (htab t ! j) \<longrightarrow> i = j)
     \<and> (\<forall>i < length (htab t). live (htab t ! i) \<longrightarrow> reach t (hkey (htab t ! i)) i)"

lemma ht_okD:
  assumes "ht_ok t"
  shows "size_index t < 13" and "length (htab t) = table_size ! size_index t"
    and "load_ok t" and "used t = int (valid_count (htab t))"
    and "used t * int (load_den t) \<le> int (load_num t * table_size ! size_index t + load_den t)"
    and "i < length (htab t) \<Longrightarrow> dirty (htab t ! i) \<Longrightarrow> valid (htab t ! i)"
    and "i < length (htab t) \<Longrightarrow> j < length (htab t) \<Longrightarrow> live (htab t ! i) \<Longrightarrow> live (htab t ! j) \<Longrightarrow>
          hkey (htab t ! i) = hkey (htab t ! j) \<Longrightarrow> i = j"
    and "i < length (htab t) \<Longrightarrow> live (htab t ! i) \<Longrightarrow> reach t (hkey (htab t ! i)) i"
  using assms unfolding ht_ok_def by blast+

lemma hmap_Some:
  assumes "ht_ok t"
  shows "hmap t k = Some v \<longleftrightarrow> (\<exists>i < length (htab t). live (htab t ! i) \<and> hkey (htab t ! i) = k
    \<and> v = (hdata (htab t ! i), dsize (htab t ! i)))"
proof
  assume "hmap t k = Some v"
  then show "\<exists>i < length (htab t). live (htab t ! i) \<and> hkey (htab t ! i) = k
    \<and> v = (hdata (htab t ! i), dsize (htab t ! i))"
    by (auto simp: hmap_def find_Some_iff)
next
  assume "\<exists>i < length (htab t). live (htab t ! i) \<and> hkey (htab t ! i) = k
    \<and> v = (hdata (htab t ! i), dsize (htab t ! i))"
  then obtain i where i: "i < length (htab t)" "live (htab t ! i)" "hkey (htab t ! i) = k"
    "v = (hdata (htab t ! i), dsize (htab t ! i))" by blast
  have "j < i \<Longrightarrow> \<not> (live (htab t ! j) \<and> hkey (htab t ! j) = k)" for j
    using ht_okD(7) [OF assms, of i j] i by fastforce
  then have "List.find (\<lambda>nd. live nd \<and> hkey nd = k) (htab t) = Some (htab t ! i)"
    using i by (auto simp: find_Some_iff)
  then show "hmap t k = Some v" using i(4) by (simp add: hmap_def)
qed

lemma hmap_None:
  assumes "ht_ok t"
  shows "hmap t k = None \<longleftrightarrow> (\<forall>i < length (htab t). live (htab t ! i) \<longrightarrow> hkey (htab t ! i) \<noteq> k)"
  by (auto simp: hmap_def find_None_iff in_set_conv_nth)

lemma map_ext_Some: "(\<And>k v. m k = Some v \<longleftrightarrow> m' k = Some v) \<Longrightarrow> m = m'"
  by (rule ext) (metis not_Some_eq)

text \<open>There is always a place that was never used.\<close>

lemma free_place:
  assumes "ht_ok t"
  obtains j where "\<not> valid (htab t ! path k (size_index t) j)"
proof -
  let ?n = "table_size ! size_index t"
  have l: "load_den t \<le> 7 * load_num t" "7 * load_num t < 6 * load_den t"
    using ht_okD(3) [OF assms] by (simp_all add: load_ok_def)
  have u: "valid_count (htab t) * load_den t \<le> load_num t * ?n + load_den t"
    using ht_okD(4,5) [OF assms] by (simp flip: of_nat_mult of_nat_add of_nat_le_iff)
  have "7 * (load_num t * ?n + load_den t) < 6 * load_den t * ?n + 7 * load_den t"
    using mult_strict_right_mono [OF l(2), of ?n] size_bounds(1) [OF ht_okD(1) [OF assms]]
    by (simp add: algebra_simps)
  also have "\<dots> \<le> 7 * (?n * load_den t)"
    using mult_right_mono [OF size_bounds(1) [OF ht_okD(1) [OF assms]], of "load_den t"]
    by (simp add: algebra_simps)
  finally have "load_num t * ?n + load_den t < ?n * load_den t" by simp
  with u have "valid_count (htab t) * load_den t < ?n * load_den t" by (rule le_less_trans)
  then have "valid_count (htab t) < ?n" by simp
  then have "\<exists>i < ?n. \<not> valid (htab t ! i)"
    using ht_okD(2) [OF assms] by (auto simp: valid_count_def) (metis (no_types, lifting) Collect_cong card_Collect_less_nat less_irrefl)
  then obtain i where i: "i < ?n" "\<not> valid (htab t ! i)" by blast
  obtain j where "path k (size_index t) j = i" using path_surj [OF ht_okD(1) [OF assms] i(1)] by blast
  then show ?thesis using i(2) that by blast
qed

section \<open>Searching\<close>

lemma find_probe_path:
  assumes len: "length tab = table_size ! sz"
    and stop: "\<not> valid (tab ! path k sz f) \<or> hkey (tab ! path k sz f) = k \<and> live (tab ! path k sz f)"
    and go: "\<And>j. j < f \<Longrightarrow> valid (tab ! path k sz j) \<and> \<not> (hkey (tab ! path k sz j) = k \<and> live (tab ! path k sz j))"
    and "j \<le> f"
  shows "find_probe tab (rehash k sz) k (path k sz j) =
    Some (if valid (tab ! path k sz f) then Some (path k sz f) else None)"
  using \<open>j \<le> f\<close>
proof (induction j rule: inc_induct)
  case base
  then show ?case using stop by (subst find_probe.simps) (auto simp: live_def)
next
  case (step j)
  then show ?case
    using go [of j] by (subst find_probe.simps) (auto simp: live_def len path_Suc [symmetric])
qed

lemma find_correct:
  assumes "ht_ok t"
  shows "\<exists>r. hashtable_find t k = Some r \<and> (case r of
      None \<Rightarrow> hmap t k = None
    | Some i \<Rightarrow> i < length (htab t) \<and> live (htab t ! i) \<and> hkey (htab t ! i) = k)"
proof -
  let ?p = "path k (size_index t)"
  define stop where "stop j \<longleftrightarrow> \<not> valid (htab t ! ?p j) \<or> hkey (htab t ! ?p j) = k \<and> live (htab t ! ?p j)" for j
  define f where "f = (LEAST j. stop j)"
  obtain j0 where "\<not> valid (htab t ! ?p j0)" using free_place [OF assms] by blast
  then have "stop j0" by (simp add: stop_def)
  then have f: "stop f" unfolding f_def by (rule LeastI)
  have go: "\<not> stop j" if "j < f" for j using that not_less_Least f_def by blast
  have r: "hashtable_find t k = Some (if valid (htab t ! ?p f) then Some (?p f) else None)"
    unfolding hashtable_find_def path_0 [symmetric]
    by (rule find_probe_path) (use f go ht_okD(2) [OF assms] in \<open>auto simp: stop_def\<close>)
  have len: "?p f < length (htab t)" using path_less ht_okD(1,2) [OF assms] by simp
  show ?thesis
  proof (cases "valid (htab t ! ?p f)")
    case True
    then show ?thesis using r f len by (auto simp: stop_def)
  next
    case False
    have "hkey (htab t ! i) \<noteq> k" if i: "i < length (htab t)" "live (htab t ! i)" for i
    proof
      assume "hkey (htab t ! i) = k"
      then obtain g where g: "?p g = i" "\<forall>j < g. valid (htab t ! ?p j)"
        using ht_okD(8) [OF assms i] by (auto simp: reach_def)
      have "stop g" using g(1) i(2) \<open>hkey (htab t ! i) = k\<close> by (simp add: stop_def)
      then have "f \<le> g" unfolding f_def by (rule Least_le)
      then show False using g i(2) False by (cases "f = g") (auto simp: live_def)
    qed
    then show ?thesis using r False hmap_None [OF assms] by auto
  qed
qed

lemma lookup_correct:
  assumes "ht_ok t"
  shows "hashtable_lookup t k = Some (case hmap t k of None \<Rightarrow> (0, 0) | Some v \<Rightarrow> v)"
proof -
  obtain r where r: "hashtable_find t k = Some r" "case r of None \<Rightarrow> hmap t k = None
    | Some i \<Rightarrow> i < length (htab t) \<and> live (htab t ! i) \<and> hkey (htab t ! i) = k"
    using find_correct [OF assms] by blast
  show ?thesis
  proof (cases r)
    case (Some i)
    then have "hmap t k = Some (hdata (htab t ! i), dsize (htab t ! i))"
      using r(2) by (auto simp: hmap_Some [OF assms])
    then show ?thesis using r(1) Some by (simp add: hashtable_lookup_def)
  qed (use r in \<open>simp add: hashtable_lookup_def\<close>)
qed

section \<open>Insertion\<close>

lemma insert_probe_path:
  assumes len: "length tab = table_size ! sz" and stop: "\<not> live (tab ! path k sz f)"
    and go: "\<And>i. j < i \<Longrightarrow> i < f \<Longrightarrow> live (tab ! path k sz i)" and "j < f"
  shows "insert_probe tab (rehash k sz) (path k sz j) = Some (path k sz f)"
  using \<open>j < f\<close> go
proof (induction j rule: strict_inc_induct)
  case (base i)
  then show ?case
    using stop by (subst insert_probe.simps) (auto simp: live_def len path_Suc [symmetric])
next
  case (step i)
  have "live (tab ! path k sz (Suc i))" using step.prems step.hyps
    by (metis Suc_lessI lessI less_imp_Suc_add stop)
  then show ?case
    using step.IH step.prems
    by (subst insert_probe.simps) (simp add: live_def len path_Suc [symmetric])
qed

definition place :: "hashtable \<Rightarrow> int \<Rightarrow> nat option" where
  "place t k = (let i = hash k (size_index t) in
     if valid (htab t ! i) then insert_probe (htab t) (rehash k (size_index t)) i else Some i)"

lemma place_correct:
  assumes "ht_ok t"
  shows "\<exists>i < length (htab t). place t k = Some i \<and> \<not> live (htab t ! i) \<and> reach t k i"
proof -
  let ?p = "path k (size_index t)"
  have len: "?p f < length (htab t)" for f using path_less ht_okD(1,2) [OF assms] by simp
  show ?thesis
  proof (cases "valid (htab t ! ?p 0)")
    case False
    then have "place t k = Some (?p 0)" "\<not> live (htab t ! ?p 0)" "reach t k (?p 0)"
      by (auto simp: place_def path_0 live_def reach_def intro!: exI [of _ 0])
    then show ?thesis using len by blast
  next
    case True
    define stop where "stop j \<longleftrightarrow> 0 < j \<and> \<not> live (htab t ! ?p j)" for j
    define f where "f = (LEAST j. stop j)"
    obtain j0 where "\<not> valid (htab t ! ?p j0)" using free_place [OF assms] by blast
    then have "stop j0" using True by (cases j0) (auto simp: stop_def live_def)
    then have f: "stop f" unfolding f_def by (rule LeastI)
    have go: "live (htab t ! ?p j)" if "0 < j" "j < f" for j
      using that not_less_Least [of j stop] by (auto simp: stop_def f_def)
    have "place t k = insert_probe (htab t) (rehash k (size_index t)) (?p 0)"
      using True by (simp add: place_def path_0)
    also have "\<dots> = Some (?p f)"
      by (rule insert_probe_path) (use f go ht_okD(2) [OF assms] in \<open>auto simp: stop_def\<close>)
    finally have "place t k = Some (?p f)" .
    moreover have "valid (htab t ! ?p j)" if "j < f" for j
      using go [of j] that True by (cases j) (auto simp: live_def)
    ultimately show ?thesis using f len by (auto simp: stop_def reach_def)
  qed
qed

lemma valid_count_upd:
  assumes "i < length tab" and "valid nd"
  shows "valid_count (tab[i := nd]) = (if valid (tab ! i) then valid_count tab else Suc (valid_count tab))"
proof -
  have "{j. j < length (tab[i := nd]) \<and> valid (tab[i := nd] ! j)} = insert i {j. j < length tab \<and> valid (tab ! j)}"
    using assms by (auto simp: nth_list_update split: if_splits)
  moreover have "i \<in> {j. j < length tab \<and> valid (tab ! j)} \<longleftrightarrow> valid (tab ! i)" using assms(1) by simp
  ultimately show ?thesis unfolding valid_count_def by (simp add: card_insert_if)
qed

text \<open>Putting a node at a place of its probe sequence that holds no live node.\<close>

definition same_load :: "hashtable \<Rightarrow> hashtable \<Rightarrow> bool" where
  "same_load t t' \<longleftrightarrow> load_num t' = load_num t \<and> load_den t' = load_den t"

lemma reach_put:
  assumes "reach t k' j" and "i < length (htab t)"
  shows "reach (put_node i k d n t) k' j"
  using assms by (auto simp: reach_def put_node_def nth_list_update)

lemma put_ok:
  assumes ok: "ht_ok t" and load: "\<not> over_load t" and new: "hmap t k = None"
    and i: "i < length (htab t)" "\<not> live (htab t ! i)" "reach t k i"
  shows "ht_ok (put_node i k d n t)"
proof -
  let ?t = "put_node i k d n t"
  let ?nd = "\<lparr>valid = True, dirty = False, hkey = k, dsize = n, hdata = d\<rparr>"
  note D = ht_okD [OF ok]
  have h: "htab ?t = (htab t)[i := ?nd]" "size_index ?t = size_index t"
    "load_num ?t = load_num t" "load_den ?t = load_den t" by (simp_all add: put_node_def)
  have dv: "dirty (htab t ! i) \<longleftrightarrow> valid (htab t ! i)" using D(6) [OF i(1)] i(2) by (auto simp: live_def)
  have u: "used ?t = int (valid_count (htab ?t))"
    using D(4) dv i(1) by (simp add: h valid_count_upd) (simp add: put_node_def)
  have "used ?t \<le> used t + 1" by (simp add: put_node_def)
  then have "used ?t * int (load_den t) \<le> (used t + 1) * int (load_den t)" by (rule mult_right_mono) simp
  then have l: "used ?t * int (load_den t) \<le> int (load_num t * table_size ! size_index t + load_den t)"
    using load by (simp add: over_load_def algebra_simps)
  have uniq: "a = b" if "a < length (htab ?t)" "b < length (htab ?t)" "live (htab ?t ! a)" "live (htab ?t ! b)"
      "hkey (htab ?t ! a) = hkey (htab ?t ! b)" for a b
    using that D(7) [of a b] new i(1) unfolding h hmap_None [OF ok]
    by (auto simp: nth_list_update split: if_splits)
  have r: "reach ?t (hkey (htab ?t ! a)) a" if "a < length (htab ?t)" "live (htab ?t ! a)" for a
    using that D(8) [of a] i reach_put [OF _ i(1)] unfolding h
    by (cases "a = i") (auto simp: nth_list_update)
  show ?thesis
    unfolding ht_ok_def using D(1-3,6) u l uniq r i(1)
    by (auto simp: h load_ok_def nth_list_update)
qed

lemma put_hmap:
  assumes ok: "ht_ok t" and load: "\<not> over_load t" and new: "hmap t k = None"
    and i: "i < length (htab t)" "\<not> live (htab t ! i)" "reach t k i"
  shows "hmap (put_node i k d n t) = (hmap t)(k \<mapsto> (d, n))"
proof (rule map_ext_Some)
  fix k' v
  let ?t = "put_node i k d n t"
  have h: "htab ?t = (htab t)[i := \<lparr>valid = True, dirty = False, hkey = k, dsize = n, hdata = d\<rparr>]"
    by (simp add: put_node_def)
  have new': "j < length (htab t) \<Longrightarrow> live (htab t ! j) \<Longrightarrow> hkey (htab t ! j) \<noteq> k" for j
    using new by (simp add: hmap_None [OF ok])
  show "hmap ?t k' = Some v \<longleftrightarrow> ((hmap t)(k \<mapsto> (d, n))) k' = Some v"
  proof (cases "k' = k")
    case True
    then show ?thesis
      using i(1) new' unfolding hmap_Some [OF put_ok [OF assms]] h
      by (auto simp: nth_list_update live_def intro!: exI [of _ i])
  next
    case False
    have "live (htab ?t ! j) \<and> hkey (htab ?t ! j) = k' \<and> v = (hdata (htab ?t ! j), dsize (htab ?t ! j)) \<longleftrightarrow>
        live (htab t ! j) \<and> hkey (htab t ! j) = k' \<and> v = (hdata (htab t ! j), dsize (htab t ! j))" for j
      using False i by (cases "j = i") (auto simp: h)
    then show ?thesis
      using False by (simp add: hmap_Some [OF put_ok [OF assms]] hmap_Some [OF ok]) (simp add: h)
  qed
qed

definition inserted :: "hashtable \<Rightarrow> int \<Rightarrow> nat \<Rightarrow> int \<Rightarrow> hashtable \<Rightarrow> bool" where
  "inserted t k d n t' \<longleftrightarrow> ht_ok t' \<and> hmap t' = (hmap t)(k \<mapsto> (d, n)) \<and> used t' \<le> used t + 1
     \<and> same_load t t' \<and> size_index t \<le> size_index t'"

lemma insert_simple:
  assumes "ht_ok t" and "\<not> over_load t" and "hmap t k = None"
  shows "\<exists>t'. insert_n (Suc m) t k d n = Some t' \<and> inserted t k d n t' \<and> size_index t' = size_index t"
proof -
  obtain i where i: "i < length (htab t)" "place t k = Some i" "\<not> live (htab t ! i)" "reach t k i"
    using place_correct [OF assms(1)] by blast
  have "insert_n (Suc m) t k d n = Some (put_node i k d n t)"
    using assms(2) i(2) by (simp add: insert_with_def place_def Let_def)
  moreover have "inserted t k d n (put_node i k d n t)"
    using put_ok [OF assms i(1,3,4)] put_hmap [OF assms i(1,3,4)]
    by (auto simp: inserted_def same_load_def put_node_def)
  ultimately show ?thesis by (simp add: put_node_def)
qed

section \<open>Rebuilding\<close>

definition reinsert ::
    "(hashtable \<Rightarrow> int \<Rightarrow> nat \<Rightarrow> int \<Rightarrow> hashtable option) \<Rightarrow> hashnode \<Rightarrow> hashtable option \<Rightarrow> hashtable option" where
  "reinsert ins nd r = do {
     t1 \<leftarrow> r;
     if valid nd \<and> \<not> dirty nd then ins t1 (hkey nd) (hdata nd) (dsize nd) else Some t1
   }"

definition fresh :: "nat \<Rightarrow> hashtable \<Rightarrow> hashtable" where
  "fresh sz t = t\<lparr>size_index := sz, used := 0, ndirty := 0, htab := replicate (table_size ! sz) free_node\<rparr>"

lemma rebuild_fold:
  "sz < length table_size \<Longrightarrow>
   dir = -1 \<and> sz = size_index t - 1 \<or> dir = 1 \<and> sz = size_index t + 1 \<Longrightarrow>
   rebuild_with ins dir t = fold (reinsert ins) (htab t) (Some (fresh sz t))"
  by (auto simp: rebuild_with_def reinsert_def [abs_def] fresh_def Let_def)

lemma fresh_ok: "sz < 13 \<Longrightarrow> load_ok t \<Longrightarrow> ht_ok (fresh sz t)"
  by (auto simp: ht_ok_def fresh_def load_ok_def free_node_def valid_count_def live_def)

lemma fresh_hmap [simp]: "hmap (fresh sz t) = Map.empty"
  by (rule ext) (auto simp: hmap_def fresh_def find_None_iff free_node_def live_def)

lemma fresh_simps [simp]: "used (fresh sz t) = 0" "size_index (fresh sz t) = sz"
  "load_num (fresh sz t) = load_num t" "load_den (fresh sz t) = load_den t"
  by (simp_all add: fresh_def)

definition capacity :: "nat \<Rightarrow> hashtable \<Rightarrow> int" where
  "capacity B t = int (load_num t * table_size ! B)"

lemma same_load_trans: "same_load a b \<Longrightarrow> same_load b c \<Longrightarrow> same_load a c"
  by (simp add: same_load_def)

lemma capacity_same: "same_load t t' \<Longrightarrow> capacity B t' = capacity B t \<and> load_den t' = load_den t"
  by (simp add: same_load_def capacity_def)

text \<open>\<open>adds m nds m'\<close>: \<open>m'\<close> has the entries of \<open>m\<close> and those of the live nodes of the list.\<close>

definition adds :: "(int \<rightharpoonup> nat \<times> int) \<Rightarrow> hashnode list \<Rightarrow> (int \<rightharpoonup> nat \<times> int) \<Rightarrow> bool" where
  "adds m nds m' \<longleftrightarrow> (\<forall>k v. m' k = Some v \<longleftrightarrow> m k = Some v \<or>
     (\<exists>nd \<in> set nds. live nd \<and> hkey nd = k \<and> v = (hdata nd, dsize nd)))"

lemma adds_Cons:
  "m (hkey nd) = None \<Longrightarrow> live nd \<Longrightarrow> adds (m(hkey nd \<mapsto> (hdata nd, dsize nd))) nds m' \<Longrightarrow> adds m (nd # nds) m'"
  by (auto simp: adds_def split: if_splits)

lemma adds_skip: "\<not> live nd \<Longrightarrow> adds m nds m' \<Longrightarrow> adds m (nd # nds) m'"
  by (auto simp: adds_def)

text \<open>Inserting the live nodes of a list one by one, when an insertion works from size \<open>A\<close> to \<open>B\<close>.\<close>

definition inserts_between :: "nat \<Rightarrow> nat \<Rightarrow> (hashtable \<Rightarrow> int \<Rightarrow> nat \<Rightarrow> int \<Rightarrow> hashtable option) \<Rightarrow> bool" where
  "inserts_between A B ins \<longleftrightarrow> (\<forall>t k d n. ht_ok t \<longrightarrow> A \<le> size_index t \<longrightarrow> size_index t \<le> B \<longrightarrow> hmap t k = None \<longrightarrow>
     used t * int (load_den t) \<le> capacity B t \<longrightarrow>
     (\<exists>t'. ins t k d n = Some t' \<and> inserted t k d n t' \<and> size_index t' \<le> B))"

lemma reinsert_all:
  assumes ins: "inserts_between A B ins"
  shows "ht_ok t \<Longrightarrow> A \<le> size_index t \<Longrightarrow> size_index t \<le> B \<Longrightarrow> distinct (map hkey (filter live nds)) \<Longrightarrow>
    (\<forall>nd \<in> set nds. live nd \<longrightarrow> hmap t (hkey nd) = None) \<Longrightarrow>
    (used t + int (length (filter live nds))) * int (load_den t) \<le> capacity B t + int (load_den t) \<Longrightarrow>
    \<exists>t'. fold (reinsert ins) nds (Some t) = Some t' \<and> ht_ok t' \<and> size_index t \<le> size_index t' \<and> size_index t' \<le> B
      \<and> same_load t t' \<and> used t' \<le> used t + int (length (filter live nds)) \<and> adds (hmap t) nds (hmap t')"
proof (induction nds arbitrary: t)
  case Nil
  then show ?case by (simp add: same_load_def adds_def)
next
  case (Cons nd nds)
  show ?case
  proof (cases "live nd")
    case False
    then have "reinsert ins nd (Some t) = Some t" by (auto simp: reinsert_def live_def)
    with Cons.IH [of t] Cons.prems False show ?thesis by (fastforce intro: adds_skip)
  next
    case True
    have len: "int (length (filter live (nd # nds))) = 1 + int (length (filter live nds))" using True by simp
    have "used t * int (load_den t) \<le> (used t + int (length (filter live nds))) * int (load_den t)"
      by (rule mult_right_mono) simp_all
    also have "\<dots> \<le> capacity B t" using Cons.prems(6) unfolding len by (simp add: algebra_simps)
    finally obtain t1 where t1: "ins t (hkey nd) (hdata nd) (dsize nd) = Some t1"
      "inserted t (hkey nd) (hdata nd) (dsize nd) t1" "size_index t1 \<le> B"
      using ins Cons.prems(1,2,3,5) True unfolding inserts_between_def by (meson list.set_intros(1))
    have r: "reinsert ins nd (Some t) = Some t1" using True t1(1) by (simp add: reinsert_def live_def)
    have m: "hmap t1 = (hmap t)(hkey nd \<mapsto> (hdata nd, dsize nd))" "ht_ok t1" "same_load t t1"
      "used t1 \<le> used t + 1" "size_index t \<le> size_index t1"
      using t1(2) by (simp_all add: inserted_def)
    have c: "capacity B t1 = capacity B t" "load_den t1 = load_den t" using capacity_same [OF m(3)] by simp_all
    have "(used t1 + int (length (filter live nds))) * int (load_den t1)
        \<le> (used t + int (length (filter live (nd # nds)))) * int (load_den t1)"
      using m(4) unfolding len by (intro mult_right_mono) simp_all
    then have u: "(used t1 + int (length (filter live nds))) * int (load_den t1) \<le> capacity B t1 + int (load_den t1)"
      using Cons.prems(6) c by simp
    have "\<forall>nd' \<in> set nds. live nd' \<longrightarrow> hmap t1 (hkey nd') = None"
      using Cons.prems(4,5) True m(1) by (force simp: image_iff)
    from Cons.IH [OF m(2) le_trans [OF Cons.prems(2) m(5)] t1(3) _ this u] Cons.prems(4) True obtain t' where t':
      "fold (reinsert ins) nds (Some t1) = Some t'" "ht_ok t'" "size_index t1 \<le> size_index t'" "size_index t' \<le> B"
      "same_load t1 t'" "used t' \<le> used t1 + int (length (filter live nds))" "adds (hmap t1) nds (hmap t')"
      by auto
    have "adds (hmap t) (nd # nds) (hmap t')"
      using adds_Cons [OF _ True] Cons.prems(5) True t'(7) m(1) by simp
    then show ?thesis
      using t' r m(4,5) len same_load_trans [OF m(3) t'(5)] by (intro exI [of _ t']) simp
  qed
qed

lemma live_keys_distinct:
  assumes "\<And>i j. i < length nds \<Longrightarrow> j < length nds \<Longrightarrow> live (nds ! i) \<Longrightarrow> live (nds ! j) \<Longrightarrow>
    hkey (nds ! i) = hkey (nds ! j) \<Longrightarrow> i = j"
  shows "distinct (map hkey (filter live nds))"
  using assms
proof (induction nds)
  case (Cons nd nds)
  have "i = j" if "i < length nds" "j < length nds" "live (nds ! i)" "live (nds ! j)"
    "hkey (nds ! i) = hkey (nds ! j)" for i j
    using Cons.prems [of "Suc i" "Suc j"] that by simp
  then have "distinct (map hkey (filter live nds))" by (rule Cons.IH)
  moreover have "hkey nd \<noteq> hkey nd'" if "live nd" "nd' \<in> set nds" "live nd'" for nd'
    using Cons.prems [of 0 "Suc _"] that by (auto simp: in_set_conv_nth)
  ultimately show ?case by auto
qed simp

lemma live_count_le:
  assumes "ht_ok t"
  shows "int (length (filter live (htab t))) \<le> used t"
proof -
  have "length (filter live (htab t)) \<le> valid_count (htab t)"
    unfolding length_filter_conv_card valid_count_def by (rule card_mono) (auto simp: live_def)
  then show ?thesis using ht_okD(4) [OF assms] by simp
qed

lemma rebuild_sound:
  assumes ok: "ht_ok t" and ins: "inserts_between A B ins" and A: "A \<le> sz" and B: "B \<le> 12"
    and dir: "dir = -1 \<and> sz = size_index t - 1 \<or> dir = 1 \<and> sz = size_index t + 1" and sz: "sz \<le> B"
    and cap: "int (length (filter live (htab t))) * int (load_den t) \<le> capacity B t + int (load_den t)"
  shows "\<exists>t'. rebuild_with ins dir t = Some t' \<and> ht_ok t' \<and> sz \<le> size_index t' \<and> size_index t' \<le> B
    \<and> same_load t t' \<and> used t' \<le> int (length (filter live (htab t))) \<and> hmap t' = hmap t"
proof -
  let ?f = "fresh sz t"
  have f: "ht_ok ?f" using fresh_ok ht_okD(3) [OF ok] B sz by simp
  have d: "distinct (map hkey (filter live (htab t)))" by (rule live_keys_distinct) (rule ht_okD(7) [OF ok])
  have c: "(used ?f + int (length (filter live (htab t)))) * int (load_den ?f) \<le> capacity B ?f + int (load_den ?f)"
    using cap by (simp add: capacity_def)
  obtain t' where t': "fold (reinsert ins) (htab t) (Some ?f) = Some t'" "ht_ok t'" "sz \<le> size_index t'"
    "size_index t' \<le> B" "same_load ?f t'" "used t' \<le> int (length (filter live (htab t)))"
    "adds Map.empty (htab t) (hmap t')"
    using reinsert_all [OF ins f _ _ d _ c] sz A by auto
  have "hmap t' = hmap t"
  proof (rule map_ext_Some)
    fix k v
    show "hmap t' k = Some v \<longleftrightarrow> hmap t k = Some v"
      using t'(7) [unfolded adds_def, rule_format, of k v] unfolding hmap_Some [OF ok]
      by (simp add: set_conv_nth) blast
  qed
  moreover have "rebuild_with ins dir t = Some t'"
    using rebuild_fold [OF _ dir] B sz t'(1) by (simp add: table_size_def)
  moreover have "same_load t t'" using t'(5) by (simp add: same_load_def)
  ultimately show ?thesis using t' by blast
qed

lemma insert_at: "inserts_between B B (insert_n (Suc m))"
  unfolding inserts_between_def
proof (intro allI impI)
  fix t k d n
  assume a: "ht_ok t" "B \<le> size_index t" "size_index t \<le> B" "hmap t k = None"
    "used t * int (load_den t) \<le> capacity B t"
  then have "\<not> over_load t" by (simp add: over_load_def capacity_def)
  then show "\<exists>t'. insert_n (Suc m) t k d n = Some t' \<and> inserted t k d n t' \<and> size_index t' \<le> B"
    using insert_simple [OF a(1) _ a(4)] a(3) by fastforce
qed

text \<open>A full table has room in the next size.\<close>

lemma next_capacity:
  assumes ok: "ht_ok t" and "size_index t < 12"
  shows "used t * int (load_den t) \<le> capacity (Suc (size_index t)) t"
proof -
  let ?n = "table_size ! size_index t" and ?n' = "table_size ! Suc (size_index t)"
  have "load_den t \<le> load_num t * 7" using ht_okD(3) [OF ok] by (simp add: load_ok_def)
  also have "\<dots> \<le> load_num t * ?n" using size_bounds(1) [of "size_index t"] assms(2) by simp
  finally have "load_num t * ?n + load_den t \<le> load_num t * (2 * ?n)" by simp
  also have "\<dots> \<le> load_num t * ?n'" using size_doubles [OF assms(2)] by (intro mult_left_mono) simp_all
  finally show ?thesis using ht_okD(5) [OF ok] by (simp add: capacity_def flip: of_nat_mult of_nat_add)
qed

text \<open>Growing: while a table is rebuilt into the next size no further growth is needed.\<close>

lemma grow:
  assumes ok: "ht_ok t" and "size_index t < 12"
  shows "\<exists>t'. rebuild_with (insert_n (Suc m)) 1 t = Some t' \<and> ht_ok t' \<and> size_index t' = Suc (size_index t)
    \<and> same_load t t' \<and> used t' \<le> used t \<and> hmap t' = hmap t"
proof -
  let ?B = "Suc (size_index t)"
  have "int (length (filter live (htab t))) * int (load_den t) \<le> used t * int (load_den t)"
    using live_count_le [OF ok] by (intro mult_right_mono) simp_all
  then have "int (length (filter live (htab t))) * int (load_den t) \<le> capacity ?B t + int (load_den t)"
    using next_capacity [OF assms] by linarith
  from rebuild_sound [OF ok insert_at [of ?B m] _ _ _ _ this, where dir = 1 and sz = ?B] assms(2)
  show ?thesis using live_count_le [OF ok] by fastforce
qed

text \<open>An insertion that may grow the table, but not beyond a size with room.\<close>

lemma insert_grow:
  assumes "B \<le> 12"
  shows "inserts_between 0 B (insert_n (Suc (Suc m)))"
  unfolding inserts_between_def
proof (intro allI impI)
  fix t k d n
  assume a: "ht_ok t" "size_index t \<le> B" "hmap t k = None" "used t * int (load_den t) \<le> capacity B t"
  show "\<exists>t'. insert_n (Suc (Suc m)) t k d n = Some t' \<and> inserted t k d n t' \<and> size_index t' \<le> B"
  proof (cases "over_load t")
    case False
    then show ?thesis using insert_simple [OF a(1) _ a(3)] a(2) by fastforce
  next
    case True
    then have "size_index t \<noteq> B" using a(4) by (auto simp: over_load_def capacity_def)
    then have lt: "size_index t < 12" "size_index t < B" using a(2) assms by simp_all
    obtain t1 where t1: "rebuild_with (insert_n (Suc m)) 1 t = Some t1" "ht_ok t1"
      "size_index t1 = Suc (size_index t)" "same_load t t1" "used t1 \<le> used t" "hmap t1 = hmap t"
      using grow [OF a(1) lt(1)] by blast
    have c: "load_num t1 = load_num t" "load_den t1 = load_den t"
      using t1(4) by (simp_all add: same_load_def)
    have "used t1 * int (load_den t1) \<le> used t * int (load_den t1)" using t1(5) by (intro mult_right_mono) simp_all
    then have no: "\<not> over_load t1"
      using next_capacity [OF a(1) lt(1)] c t1(3) by (simp add: over_load_def capacity_def)
    obtain t' where t': "insert_n (Suc m) t1 k d n = Some t'" "inserted t1 k d n t'" "size_index t' = size_index t1"
      using insert_simple [OF t1(2) no, of k m d n] a(3) t1(6) by metis
    have "insert_n (Suc (Suc m)) t k d n = insert_with (rebuild_with (insert_n m)) t1 k d n"
      using True t1(1) no by (simp add: insert_with_def)
    then have "insert_n (Suc (Suc m)) t k d n = Some t'" using t'(1) by simp
    moreover have "inserted t k d n t'"
      using t'(2,3) t1 same_load_trans [OF t1(4)] by (auto simp: inserted_def)
    ultimately show ?thesis using t'(3) t1(3) lt(2) by auto
  qed
qed

lemma hashtable_insert_correct:
  assumes "ht_ok t" and "size_index t < 12" and "hmap t k = None"
  shows "\<exists>t'. hashtable_insert t k d n = Some t' \<and> inserted t k d n t' \<and> size_index t' \<le> Suc (size_index t)"
proof -
  have "inserts_between 0 (Suc (size_index t)) (insert_n 27)"
    using insert_grow [of "Suc (size_index t)" 25] assms(2) by (simp add: numeral_eq_Suc)
  then show ?thesis
    using assms next_capacity [OF assms(1,2)] unfolding inserts_between_def hashtable_insert_def by auto
qed

section \<open>Removal\<close>

definition marked :: "nat \<Rightarrow> hashtable \<Rightarrow> hashtable" where
  "marked i t = t\<lparr>htab := (htab t)[i := (htab t ! i)\<lparr>dirty := True\<rparr>], ndirty := ndirty t + 1\<rparr>"

lemma marked_ok:
  assumes ok: "ht_ok t" and i: "i < length (htab t)" "live (htab t ! i)"
  shows "ht_ok (marked i t)"
proof -
  note D = ht_okD [OF ok]
  have h: "htab (marked i t) = (htab t)[i := (htab t ! i)\<lparr>dirty := True\<rparr>]" "size_index (marked i t) = size_index t"
    "load_num (marked i t) = load_num t" "load_den (marked i t) = load_den t" "used (marked i t) = used t"
    by (simp_all add: marked_def)
  have v: "valid (htab (marked i t) ! j) = valid (htab t ! j)" for j
    using i(1) unfolding h by (cases "j = i") simp_all
  have l: "live (htab (marked i t) ! j) \<longleftrightarrow> j \<noteq> i \<and> live (htab t ! j)" for j
    using i(1) unfolding h by (cases "j = i") (simp_all add: live_def)
  have k: "hkey (htab (marked i t) ! j) = hkey (htab t ! j)" for j
    using i(1) unfolding h by (cases "j = i") simp_all
  have c: "valid_count (htab (marked i t)) = valid_count (htab t)"
    unfolding valid_count_def v by (simp add: h)
  have r: "reach (marked i t) k' j = reach t k' j" for k' j by (simp add: reach_def v h(2))
  have dv: "dirty (htab (marked i t) ! j) \<Longrightarrow> j < length (htab t) \<Longrightarrow> valid (htab t ! j)" for j
    using D(6) [of j] i unfolding h by (cases "j = i") (simp_all add: live_def)
  show ?thesis
    unfolding ht_ok_def v l k c r h(2-5)
    using D(1-5,7,8) dv by (simp add: load_ok_def h(1,3,4))
qed

lemma marked_hmap:
  assumes ok: "ht_ok t" and i: "i < length (htab t)" "live (htab t ! i)"
  shows "hmap (marked i t) = (hmap t)(hkey (htab t ! i) := None)"
proof (rule map_ext_Some)
  fix k v
  have n: "htab (marked i t) ! j = (if j = i then (htab t ! i)\<lparr>dirty := True\<rparr> else htab t ! j)" for j
    using i(1) by (simp add: marked_def)
  have len: "length (htab (marked i t)) = length (htab t)" by (simp add: marked_def)
  show "hmap (marked i t) k = Some v \<longleftrightarrow> ((hmap t)(hkey (htab t ! i) := None)) k = Some v"
  proof (cases "k = hkey (htab t ! i)")
    case True
    have "\<not> (live (htab (marked i t) ! j) \<and> hkey (htab (marked i t) ! j) = k)" if "j < length (htab t)" for j
      using ht_okD(7) [OF ok that i(1) _ i(2)] True by (auto simp: n live_def)
    then show ?thesis using True len by (auto simp: hmap_Some [OF marked_ok [OF assms]])
  next
    case False
    then have "live (htab (marked i t) ! j) \<and> hkey (htab (marked i t) ! j) = k
        \<and> v = (hdata (htab (marked i t) ! j), dsize (htab (marked i t) ! j)) \<longleftrightarrow>
      live (htab t ! j) \<and> hkey (htab t ! j) = k \<and> v = (hdata (htab t ! j), dsize (htab t ! j))" for j
      by (auto simp: n)
    then show ?thesis using False len by (simp add: hmap_Some [OF marked_ok [OF assms]] hmap_Some [OF ok])
  qed
qed

lemma live_less:
  assumes "i < length tab" and "\<not> live (tab ! i)" and "valid (tab ! i)"
  shows "length (filter live tab) < valid_count tab"
proof -
  have "{j. j < length tab \<and> live (tab ! j)} \<subset> {j. j < length tab \<and> valid (tab ! j)}"
    using assms by (auto simp: live_def)
  then show ?thesis unfolding length_filter_conv_card valid_count_def by (rule psubset_card_mono [rotated]) simp
qed

text \<open>Rebuilding into the smaller size may grow the table back, never further.\<close>

lemma shrink:
  assumes ok: "ht_ok t" and i: "i < length (htab t)" "\<not> live (htab t ! i)" "valid (htab t ! i)"
  shows "\<exists>t'. hashtable_rebuild (-1) t = Some t' \<and> ht_ok t' \<and> size_index t' \<le> size_index t
    \<and> same_load t t' \<and> used t' \<le> used t \<and> hmap t' = hmap t"
proof -
  have s: "size_index t \<le> 12" using ht_okD(1) [OF ok] by simp
  have "int (length (filter live (htab t))) \<le> used t - 1"
    using live_less [OF i] ht_okD(4) [OF ok] by simp
  then have "int (length (filter live (htab t))) * int (load_den t) \<le> (used t - 1) * int (load_den t)"
    by (rule mult_right_mono) simp
  also have "\<dots> \<le> capacity (size_index t) t"
    using ht_okD(5) [OF ok] by (simp add: capacity_def algebra_simps)
  finally have c: "int (length (filter live (htab t))) * int (load_den t) \<le> capacity (size_index t) t + int (load_den t)"
    by simp
  have "inserts_between 0 (size_index t) hashtable_insert"
    using insert_grow [OF s, of 25] by (simp add: hashtable_insert_def numeral_eq_Suc)
  from rebuild_sound [OF ok this _ s _ _ c, where dir = "-1" and sz = "size_index t - 1"]
  show ?thesis using live_count_le [OF ok] by (fastforce simp: hashtable_rebuild_def)
qed

lemma hashtable_remove_correct:
  assumes ok: "ht_ok t"
  shows "\<exists>t'. hashtable_remove t k = Some (case hmap t k of None \<Rightarrow> (0, 0) | Some v \<Rightarrow> v, t')
    \<and> ht_ok t' \<and> hmap t' = (hmap t)(k := None) \<and> used t' \<le> used t \<and> same_load t t'"
proof -
  obtain r where r: "hashtable_find t k = Some r" "case r of None \<Rightarrow> hmap t k = None
    | Some i \<Rightarrow> i < length (htab t) \<and> live (htab t ! i) \<and> hkey (htab t ! i) = k"
    using find_correct [OF ok] by blast
  show ?thesis
  proof (cases r)
    case None
    then show ?thesis
      using r ok by (auto simp: hashtable_remove_def same_load_def fun_upd_idem)
  next
    case (Some i)
    then have i: "i < length (htab t)" "live (htab t ! i)" "hkey (htab t ! i) = k" using r(2) by simp_all
    have v: "hmap t k = Some (hdata (htab t ! i), dsize (htab t ! i))" using i by (auto simp: hmap_Some [OF ok])
    note m = marked_ok [OF ok i(1,2)] marked_hmap [OF ok i(1,2)]
    have ms: "used (marked i t) = used t" "same_load t (marked i t)"
      by (simp_all add: marked_def same_load_def)
    have "i < length (htab (marked i t))" "\<not> live (htab (marked i t) ! i)" "valid (htab (marked i t) ! i)"
      using i by (simp_all add: marked_def live_def)
    from shrink [OF m(1) this] obtain t2 where t2: "hashtable_rebuild (-1) (marked i t) = Some t2" "ht_ok t2"
      "used t2 \<le> used t" "same_load t t2" "hmap t2 = (hmap t)(k := None)"
      using m(2) ms i(3) same_load_trans by auto
    show ?thesis
      using r(1) Some v m ms t2 i(3) unfolding hashtable_remove_def marked_def [symmetric]
      by (simp add: Let_def)
  qed
qed

section \<open>Tables and their clients\<close>

text \<open>A table of values under integer keys, as its clients see it: every operation may fail to
  return, and an absent key gives \<open>absent\<close>. \<open>room n s\<close> says that \<open>n\<close> more insertions fit.\<close>

datatype 'v table_op = Insert int 'v | Remove int | Lookup int

fun run_ops :: "('s \<Rightarrow> int \<Rightarrow> 'v option) \<Rightarrow> ('s \<Rightarrow> int \<Rightarrow> 'v \<Rightarrow> 's option) \<Rightarrow>
    ('s \<Rightarrow> int \<Rightarrow> ('v \<times> 's) option) \<Rightarrow> 'v table_op list \<Rightarrow> 's \<Rightarrow> ('v list \<times> 's) option" where
  "run_ops look ins rem [] s = Some ([], s)"
| "run_ops look ins rem (Insert k v # ops) s = do { s1 \<leftarrow> ins s k v; run_ops look ins rem ops s1 }"
| "run_ops look ins rem (Remove k # ops) s = do {
     (v, s1) \<leftarrow> rem s k; (vs, s2) \<leftarrow> run_ops look ins rem ops s1; Some (v # vs, s2) }"
| "run_ops look ins rem (Lookup k # ops) s = do {
     v \<leftarrow> look s k; (vs, s1) \<leftarrow> run_ops look ins rem ops s; Some (v # vs, s1) }"

text \<open>What a map answers; inserting a key that is present is the client's mistake.\<close>

fun map_ops :: "'v \<Rightarrow> 'v table_op list \<Rightarrow> (int \<rightharpoonup> 'v) \<Rightarrow> ('v list \<times> (int \<rightharpoonup> 'v)) option" where
  "map_ops absent [] m = Some ([], m)"
| "map_ops absent (Insert k v # ops) m = (if m k = None then map_ops absent ops (m(k \<mapsto> v)) else None)"
| "map_ops absent (Remove k # ops) m = do {
     (vs, m1) \<leftarrow> map_ops absent ops (m(k := None)); Some (case_option absent id (m k) # vs, m1) }"
| "map_ops absent (Lookup k # ops) m = do {
     (vs, m1) \<leftarrow> map_ops absent ops m; Some (case_option absent id (m k) # vs, m1) }"

fun insertions :: "'v table_op list \<Rightarrow> nat" where
  "insertions [] = 0"
| "insertions (Insert k v # ops) = Suc (insertions ops)"
| "insertions (_ # ops) = insertions ops"

locale key_table =
  fixes look :: "'s \<Rightarrow> int \<Rightarrow> 'v option"
    and ins :: "'s \<Rightarrow> int \<Rightarrow> 'v \<Rightarrow> 's option"
    and rem :: "'s \<Rightarrow> int \<Rightarrow> ('v \<times> 's) option"
    and absent :: 'v
    and maps :: "'s \<Rightarrow> int \<rightharpoonup> 'v"
    and ok :: "'s \<Rightarrow> bool"
    and room :: "nat \<Rightarrow> 's \<Rightarrow> bool"
  assumes look: "ok s \<Longrightarrow> look s k = Some (case_option absent id (maps s k))"
    and ins: "ok s \<Longrightarrow> room (Suc n) s \<Longrightarrow> maps s k = None \<Longrightarrow>
      \<exists>s'. ins s k v = Some s' \<and> ok s' \<and> room n s' \<and> maps s' = (maps s)(k \<mapsto> v)"
    and rem: "ok s \<Longrightarrow> room n s \<Longrightarrow>
      \<exists>s'. rem s k = Some (case_option absent id (maps s k), s') \<and> ok s' \<and> room n s' \<and> maps s' = (maps s)(k := None)"
begin

lemma runs_as_map:
  "ok s \<Longrightarrow> room (insertions ops) s \<Longrightarrow> map_ops absent ops (maps s) = Some (vs, m) \<Longrightarrow>
   \<exists>s'. run_ops look ins rem ops s = Some (vs, s') \<and> ok s' \<and> maps s' = m"
proof (induction ops arbitrary: s vs)
  case (Cons op ops)
  show ?case
  proof (cases op)
    case (Insert k v)
    then have "maps s k = None" using Cons.prems(3) by (simp split: if_splits)
    with ins [OF Cons.prems(1), of "insertions ops" k v] Cons.prems(2) Insert obtain s1 where s1:
      "ins s k v = Some s1" "ok s1" "room (insertions ops) s1" "maps s1 = (maps s)(k \<mapsto> v)" by auto
    then show ?thesis
      using Cons.IH [OF s1(2,3), of vs] Cons.prems(3) Insert \<open>maps s k = None\<close> by (simp del: fun_upd_apply)
  next
    case (Remove k)
    with rem [OF Cons.prems(1), of "insertions ops" k] Cons.prems(2) obtain s1 where s1:
      "rem s k = Some (case_option absent id (maps s k), s1)" "ok s1" "room (insertions ops) s1"
      "maps s1 = (maps s)(k := None)" by auto
    from Cons.prems(3) Remove obtain vs1 where
      "map_ops absent ops ((maps s)(k := None)) = Some (vs1, m)" "vs = case_option absent id (maps s k) # vs1"
      by (auto simp: bind_eq_Some_conv)
    then show ?thesis using Cons.IH [OF s1(2,3), of vs1] s1 Remove by (auto simp del: fun_upd_apply)
  next
    case (Lookup k)
    from Cons.prems(3) Lookup obtain vs1 where
      "map_ops absent ops (maps s) = Some (vs1, m)" "vs = case_option absent id (maps s k) # vs1"
      by (auto simp: bind_eq_Some_conv)
    then show ?thesis
      using Cons.IH [OF Cons.prems(1), of vs1] Cons.prems(2) Lookup look [OF Cons.prems(1), of k] by auto
  qed
qed simp

end

definition table_room :: "nat \<Rightarrow> hashtable \<Rightarrow> bool" where
  "table_room n t \<longleftrightarrow> (used t + int n) * int (load_den t) \<le> capacity 12 t + int (load_den t)"

definition insert_pair :: "hashtable \<Rightarrow> int \<Rightarrow> nat \<times> int \<Rightarrow> hashtable option" where
  "insert_pair t k v = hashtable_insert t k (fst v) (snd v)"

lemma room_mono:
  assumes "used t' + int n' \<le> used t + int n" and "same_load t t'" and "table_room n t"
  shows "table_room n' t'"
proof -
  have "(used t' + int n') * int (load_den t) \<le> (used t + int n) * int (load_den t)"
    using assms(1) by (rule mult_right_mono) simp
  then show ?thesis using assms(3) capacity_same [OF assms(2), of 12] by (simp add: table_room_def)
qed

lemma insert_room:
  assumes "ht_ok t" and "table_room (Suc n) t" and "hmap t k = None"
  shows "\<exists>t'. insert_pair t k v = Some t' \<and> ht_ok t' \<and> table_room n t' \<and> hmap t' = (hmap t)(k \<mapsto> v)"
proof -
  have i: "inserts_between 0 12 hashtable_insert"
    using insert_grow [of 12 25] by (simp add: hashtable_insert_def numeral_eq_Suc)
  have "used t * int (load_den t) \<le> (used t + int n) * int (load_den t)" by (rule mult_right_mono) simp_all
  also have "\<dots> \<le> capacity 12 t" using assms(2) by (simp add: table_room_def algebra_simps)
  finally have "used t * int (load_den t) \<le> capacity 12 t" .
  then obtain t' where t': "insert_pair t k v = Some t'" "inserted t k (fst v) (snd v) t'"
    using i [unfolded inserts_between_def, rule_format, OF assms(1) _ _ assms(3), of "fst v" "snd v"]
      ht_okD(1) [OF assms(1)] unfolding insert_pair_def by auto
  then show ?thesis using room_mono [OF _ _ assms(2), of t' n] by (auto simp: inserted_def)
qed

interpretation ht: key_table hashtable_lookup insert_pair hashtable_remove "(0, 0)" hmap ht_ok table_room
proof unfold_locales
  fix s k
  assume "ht_ok s"
  then show "hashtable_lookup s k = Some (case_option (0, 0) id (hmap s k))"
    by (simp add: lookup_correct split: option.split)
next
  fix s n k v
  assume "ht_ok s" "table_room (Suc n) s" "hmap s k = None"
  then show "\<exists>s'. insert_pair s k v = Some s' \<and> ht_ok s' \<and> table_room n s' \<and> hmap s' = (hmap s)(k \<mapsto> v)"
    by (rule insert_room)
next
  fix s n k
  assume a: "ht_ok s" "table_room n s"
  obtain s' where "hashtable_remove s k = Some (case hmap s k of None \<Rightarrow> (0, 0) | Some v \<Rightarrow> v, s')"
    "ht_ok s'" "hmap s' = (hmap s)(k := None)" "used s' \<le> used s" "same_load s s'"
    using hashtable_remove_correct [OF a(1)] by blast
  then show "\<exists>s'. hashtable_remove s k = Some (case_option (0, 0) id (hmap s k), s') \<and> ht_ok s'
      \<and> table_room n s' \<and> hmap s' = (hmap s)(k := None)"
    using room_mono [OF _ _ a(2), of s' n] by (intro exI [of _ s']) (simp split: option.split)
qed

lemma new_fresh: "hashtable_new p q = fresh 0 (hashtable_new p q)"
  by (simp add: hashtable_new_def fresh_def)

lemma new_ok:
  assumes "q \<le> 7 * p" and "7 * p < 6 * q"
  shows "ht_ok (hashtable_new p q)" and "hmap (hashtable_new p q) = Map.empty"
proof -
  show "ht_ok (hashtable_new p q)"
    using fresh_ok [of 0 "hashtable_new p q"] assms new_fresh by (simp add: load_ok_def hashtable_new_def)
  show "hmap (hashtable_new p q) = Map.empty"
    using fresh_hmap [of 0 "hashtable_new p q"] new_fresh by simp
qed



section \<open>When a search ends\<close>

lemma find_probe_returns:
  "find_probe tab c k i = Some r \<Longrightarrow> i < length tab \<Longrightarrow> 0 < c \<Longrightarrow> c < length tab \<Longrightarrow>
    \<exists>j < length tab. \<not> valid (tab ! j) \<or> live (tab ! j) \<and> hkey (tab ! j) = k"
proof (rule find_probe.raw_induct [where P = "\<lambda>tab c k i r. i < length tab \<longrightarrow> 0 < c \<longrightarrow> c < length tab \<longrightarrow>
    (\<exists>j < length tab. \<not> valid (tab ! j) \<or> live (tab ! j) \<and> hkey (tab ! j) = k)", rule_format, rotated])
  fix f tab c k i r
  assume ih: "\<And>tab c k i r. f tab c k i = Some r \<Longrightarrow> i < length tab \<Longrightarrow> 0 < c \<Longrightarrow> c < length tab \<Longrightarrow>
      \<exists>j<length tab. \<not> valid (tab ! j) \<or> live (tab ! j) \<and> hkey (tab ! j) = k"
    and s: "(if \<not> valid (tab ! i) then Some None else if hkey (tab ! i) = k \<and> \<not> dirty (tab ! i) then Some (Some i)
       else f tab c k (probe_next (length tab) c i)) = Some r"
    and b: "i < length tab" "0 < c" "c < length tab"
  have "probe_next (length tab) c i < length tab" using b by (auto simp: probe_next_def)
  then show "\<exists>j<length tab. \<not> valid (tab ! j) \<or> live (tab ! j) \<and> hkey (tab ! j) = k"
    using s b ih [of tab c k "probe_next (length tab) c i" r] by (auto simp: live_def split: if_splits)
qed

text \<open>C36. A search ends exactly when the table has a place that was never used or the key is present:
  for every content of the table, every key and each of the first thirteen table sizes, the probe
  sequence visits every place. A table filled to the last place makes a search for an absent key run
  forever.\<close>
theorem hashtable_search_ends:
  assumes "size_index t < 13" and "length (htab t) = table_size ! size_index t"
  shows "(\<exists>r. hashtable_find t k = Some r) \<longleftrightarrow>
    (\<exists>i < length (htab t). \<not> valid (htab t ! i) \<or> live (htab t ! i) \<and> hkey (htab t ! i) = k)"
proof
  assume "\<exists>r. hashtable_find t k = Some r"
  then show "\<exists>i < length (htab t). \<not> valid (htab t ! i) \<or> live (htab t ! i) \<and> hkey (htab t ! i) = k"
    using find_probe_returns rehash_bounds [OF assms(1)] hash_less [OF assms(1)] assms(2)
    unfolding hashtable_find_def by metis
next
  let ?p = "path k (size_index t)"
  define stop where "stop j \<longleftrightarrow> \<not> valid (htab t ! ?p j) \<or> hkey (htab t ! ?p j) = k \<and> live (htab t ! ?p j)" for j
  assume "\<exists>i < length (htab t). \<not> valid (htab t ! i) \<or> live (htab t ! i) \<and> hkey (htab t ! i) = k"
  then obtain j where "stop j" using path_surj [OF assms(1)] assms(2) unfolding stop_def by metis
  define f where "f = (LEAST j. stop j)"
  have f: "stop f" unfolding f_def using \<open>stop j\<close> by (rule LeastI)
  have go: "\<not> stop i" if "i < f" for i using that not_less_Least f_def by blast
  have "find_probe (htab t) (rehash k (size_index t)) k (?p 0) =
      Some (if valid (htab t ! ?p f) then Some (?p f) else None)"
    using f go by (intro find_probe_path [OF assms(2)]) (simp_all add: stop_def)
  then show "\<exists>r. hashtable_find t k = Some r" by (simp add: hashtable_find_def path_0)
qed

theorem hashtable_search_ends_witness:
  "(\<exists>r. hashtable_find (hashtable_new 3 4) 5 = Some r)
   \<and> hashtable_find ((hashtable_new 3 4)\<lparr>htab := replicate 7 \<lparr>valid = True, dirty = True, hkey = 0, dsize = 0, hdata = 0\<rparr>\<rparr>) 5 = None"
proof -
  let ?t = "hashtable_new 3 4"
  let ?u = "?t\<lparr>htab := replicate 7 \<lparr>valid = True, dirty = True, hkey = 0, dsize = 0, hdata = 0\<rparr>\<rparr>"
  have a: "size_index ?t < 13" "length (htab ?t) = table_size ! size_index ?t"
    "size_index ?u < 13" "length (htab ?u) = table_size ! size_index ?u"
    by (simp_all add: hashtable_new_def table_size_def)
  have "\<exists>i < length (htab ?t). \<not> valid (htab ?t ! i) \<or> live (htab ?t ! i) \<and> hkey (htab ?t ! i) = 5"
    by (rule exI [of _ 0]) (simp add: hashtable_new_def free_node_def table_size_def)
  moreover have "\<not> (\<exists>i < length (htab ?u). \<not> valid (htab ?u ! i) \<or> live (htab ?u ! i) \<and> hkey (htab ?u ! i) = 5)"
    by (simp add: live_def)
  ultimately show ?thesis
    using hashtable_search_ends [OF a(1,2), of 5] hashtable_search_ends [OF a(3,4), of 5] by fastforce
qed

end
