(* ===== verification/VfsInv.thy ===== *)
theory VfsInv
  imports Vfs PathInv HashInv
begin

text \<open>
  The file system server starts with the boot directory mounted, and opens its files by name.
\<close>

section \<open>The boot directory\<close>

definition boot_file :: "bentry \<Rightarrow> bool" where
  "boot_file e \<longleftrightarrow> bn_type e \<noteq> BE_TYPE_NONE \<and> bn_name e \<noteq> BOOTDIR_DIRECTORY"

fun boot_inos :: "nat \<Rightarrow> bentry list \<Rightarrow> bootfs_inode list" where
  "boot_inos k [] = []"
| "boot_inos k (e # es) =
     \<lparr>bi_ino = k, bi_offset = bn_offset e, bi_size = bn_vsize e, bi_name = take 31 (bn_name e)\<rparr> # boot_inos (Suc k) es"

lemma boot_inos_append:
  "boot_inos k (es @ fs) = boot_inos k es @ boot_inos (k + length es) fs"
  by (induction es arbitrary: k) auto

lemma length_boot_inos [simp]: "length (boot_inos k es) = length es"
  by (induction es arbitrary: k) auto

lemma boot_inos_ge: "n \<in> set (boot_inos k es) \<Longrightarrow> k \<le> bi_ino n"
  by (induction es arbitrary: k) (auto dest: Suc_leD)

lemma boot_inos_distinct: "distinct (map bi_ino (boot_inos k es))"
  by (induction es arbitrary: k) (auto dest: boot_inos_ge)

lemma fold_bootfs_entry:
  "fold bootfs_entry bd (is, s) = (rev (boot_inos (boot_inode_max s) (filter boot_file bd)) @ is,
     s\<lparr>boot_inode_max := boot_inode_max s + length (filter boot_file bd)\<rparr>)"
proof (induction bd arbitrary: "is" s)
  case (Cons e bd)
  then show ?case by (simp add: bootfs_entry_def boot_file_def bootfs_inew_def)
qed simp

definition dot_inodes :: "bootfs_inode list" where
  "dot_inodes = [\<lparr>bi_ino = 0, bi_offset = 0, bi_size = 0, bi_name = [DOT]\<rparr>,
     \<lparr>bi_ino = 1, bi_offset = 0, bi_size = 0, bi_name = [DOT, DOT]\<rparr>]"

definition boot_list :: "bentry list \<Rightarrow> bootfs_inode list" where
  "boot_list bd = rev (boot_inos 2 (filter boot_file bd)) @ dot_inodes"

lemma boot_list_distinct: "distinct (map bi_ino (boot_list bd))"
proof -
  have "distinct (map bi_ino (rev (boot_inos 2 es)))" for es
    using boot_inos_distinct by (metis distinct_rev rev_map)
  moreover have "n \<in> set (boot_inos 2 es) \<Longrightarrow> bi_ino n \<noteq> 0 \<and> bi_ino n \<noteq> 1" for n es
    using boot_inos_ge [of n 2 es] by auto
  ultimately show ?thesis by (fastforce simp: boot_list_def dot_inodes_def)
qed

lemma boot_position_nth:
  "distinct (map bi_ino is) \<Longrightarrow> n \<in> set is \<Longrightarrow> \<exists>i < length is. boot_position (bi_ino n) is = Some i \<and> is ! i = n"
proof (induction "is")
  case (Cons x "is")
  show ?case
  proof (cases "bi_ino x = bi_ino n")
    case True
    then have "x = n" using Cons.prems by (auto simp: image_iff)
    then show ?thesis by auto
  next
    case False
    then obtain i where "i < length is" "boot_position (bi_ino n) is = Some i" "is ! i = n"
      using Cons by auto
    then show ?thesis using False by (intro exI [of _ "Suc i"]) auto
  qed
qed simp

text \<open>The entry a name stands for: the last one of that name in the directory.\<close>

definition boot_lookup :: "bentry list \<Rightarrow> cstr \<Rightarrow> bentry option" where
  "boot_lookup bd name = List.find (\<lambda>e. boot_file e \<and> take 31 (bn_name e) = name) (rev bd)"

lemma find_append: "List.find P (xs @ ys) = (case List.find P xs of None \<Rightarrow> List.find P ys | Some x \<Rightarrow> Some x)"
  by (induction xs) auto

lemma find_filter: "List.find (\<lambda>x. P x \<and> Q x) xs = List.find Q (filter P xs)"
  by (induction xs) auto

lemma find_boot_inos:
  "case List.find (\<lambda>e. take 31 (bn_name e) = name) (rev es) of
     None \<Rightarrow> List.find (\<lambda>n. bi_name n = name) (rev (boot_inos k es)) = None
   | Some e \<Rightarrow> \<exists>n. List.find (\<lambda>n. bi_name n = name) (rev (boot_inos k es)) = Some n
       \<and> bi_offset n = bn_offset e \<and> bi_size n = bn_vsize e"
  by (induction es rule: rev_induct) (auto simp: boot_inos_append split: option.splits)

lemma find_boot_list:
  assumes "name \<noteq> [DOT]" and "name \<noteq> [DOT, DOT]"
  shows "case boot_lookup bd name of
     None \<Rightarrow> List.find (\<lambda>n. bi_name n = name) (boot_list bd) = None
   | Some e \<Rightarrow> \<exists>n. List.find (\<lambda>n. bi_name n = name) (boot_list bd) = Some n
       \<and> bi_offset n = bn_offset e \<and> bi_size n = bn_vsize e"
  using find_boot_inos [where name = name and es = "filter boot_file bd" and k = 2] assms
  by (auto simp: boot_lookup_def find_filter rev_filter boot_list_def find_append dot_inodes_def split: option.splits)

section \<open>Starting the server\<close>

definition same_fs :: "vfs \<Rightarrow> vfs \<Rightarrow> bool" where
  "same_fs s0 s \<longleftrightarrow> mount_list s = mount_list s0 \<and> supers s = supers s0 \<and> heap_next s0 \<le> heap_next s
     \<and> (\<forall>v < heap_next s0. vnodes s v = vnodes s0 v)"

definition boot_mounted :: "bentry list \<Rightarrow> vfs \<Rightarrow> bool" where
  "boot_mounted bd s \<longleftrightarrow> (\<exists>b r v. mount_list s = [b, r] \<and> sb_dir (supers s b) = boot_dir
     \<and> sb_vops (supers s b) = Bootfs \<and> sb_data (supers s b) = BootData (boot_list bd) \<and> sb_root (supers s b) = v
     \<and> v_vnid (vnodes s v) = 0 \<and> v_sb (vnodes s v) = b \<and> v < heap_next s \<and> 0 < v
     \<and> sb_dir (supers s r) = [SLASH] \<and> sb_vops (supers s r) = Rootfs)"

lemma boot_mounted_same: "boot_mounted bd s0 \<Longrightarrow> same_fs s0 s \<Longrightarrow> boot_mounted bd s"
  by (auto simp: boot_mounted_def same_fs_def)

lemma cstring_str: "is_str xs a m \<Longrightarrow> cstring a m = Some xs"
  by (induction xs arbitrary: a) (subst cstring.simps; simp)+

lemma vfs_memory_str: "is_str boot_dir 0 vfs_memory"
  by (simp add: vfs_memory_def boot_dir_def)

lemma vfs_memory_cstring: "cstring 0 vfs_memory = Some boot_dir" "cstring (Suc 0) vfs_memory = Some [0x62, 0x6F, 0x6F, 0x74]"
  by (rule cstring_str [OF vfs_memory_str], rule cstring_str) (simp add: vfs_memory_def boot_dir_def)

lemma read_vnode_keeps [simp]: "v_vnid (read_vnode d v) = v_vnid v" "v_sb (read_vnode d v) = v_sb v"
  by (auto simp: read_vnode_def rootfs_read_vnode_def bootfs_read_vnode_def split: sb_data.split option.split)

lemma boot_inos_2: "boot_inos (Suc (Suc 0)) es = boot_inos 2 es"
  by (simp add: numeral_2_eq_2)

lemma vfs_start_mounts: "\<exists>s. vfs_start (vfs_empty bd img) = Some s \<and> boot_mounted bd s \<and> bootimage s = img \<and> 0 < heap_next s"
  by (simp add: vfs_start_def vfs_empty_def fs_register_def vfs_mount_def rootfs_name_def bootfs_name_def
      mount_op_def rootfs_mount_def rootfs_inew_def new_def put_super_def vget_def put_vnode_def vfs_mkdir_def
      vfs_memory_cstring fs_find_def boot_dir_def starts_with_def rootfs_mkdir_def bootfs_mount_def bootfs_inew_def
      fold_bootfs_entry boot_mounted_def boot_list_def dot_inodes_def boot_inos_2 Let_def)

section \<open>Opening a file of the boot directory\<close>

lemma fs_find_boot:
  assumes "boot_mounted bd s"
  shows "\<exists>b. fs_find (boot_dir @ xs) s = Some b \<and> sb_dir (supers s b) = boot_dir \<and> sb_vops (supers s b) = Bootfs
    \<and> sb_data (supers s b) = BootData (boot_list bd)
    \<and> v_vnid (vnodes s (sb_root (supers s b))) = 0 \<and> v_sb (vnodes s (sb_root (supers s b))) = b"
  using assms by (auto simp: boot_mounted_def fs_find_def starts_with_def boot_dir_def)

lemma find_in_set: "List.find P xs = Some x \<Longrightarrow> x \<in> set xs"
  by (auto simp: find_Some_iff)

lemma vget_boot:
  assumes "sb_data (supers s b) = BootData is" and "distinct (map bi_ino is)" and "n \<in> set is"
  shows "\<exists>s'. vget b (bi_ino n) s = (heap_next s, s') \<and> boot_inode (heap_next s) s' = Some n
    \<and> v_sb (vnodes s' (heap_next s)) = b \<and> supers s' = supers s \<and> clients s' = clients s
    \<and> heap_next s' = heap_next s + 1 \<and> mount_list s' = mount_list s \<and> bootimage s' = bootimage s
    \<and> conn_table s' = conn_table s \<and> (\<forall>v. v \<noteq> heap_next s \<longrightarrow> vnodes s' v = vnodes s v)"
proof -
  obtain i where "i < length is" "boot_position (bi_ino n) is = Some i" "is ! i = n"
    using boot_position_nth [OF assms(2,3)] by blast
  then show ?thesis
    using assms(1) by (simp add: vget_def new_def put_vnode_def read_vnode_def bootfs_read_vnode_def
        boot_inode_def boot_inodes_def)
qed

definition opened :: "nat \<Rightarrow> nat \<Rightarrow> bentry \<Rightarrow> vfs \<Rightarrow> vfs \<Rightarrow> bool" where
  "opened cl i e s s' \<longleftrightarrow> (\<exists>f n. fdarray (clients s' cl) = (fdarray (clients s cl))[i := f] \<and> 0 < f
     \<and> boot_inode (o_vnode (ofiles s' f)) s' = Some n \<and> vnode_kind (o_vnode (ofiles s' f)) s' = Bootfs
     \<and> bi_offset n = bn_offset e \<and> bi_size n = bn_vsize e \<and> o_pos (ofiles s' f) = 0)
     \<and> conn_table s' = conn_table s \<and> bootimage s' = bootimage s \<and> same_fs s s'"

lemma vfs_open_boot:
  assumes m: "boot_mounted bd s" and cl: "cl \<noteq> 0"
    and i: "free_fd (fdarray (clients s cl)) < MAX_FDS" and d: "rq_data rq ! 0 = 0"
    and p: "is_str (boot_dir @ SLASH # nm) (nameptr (clients s cl)) (vmem s)"
    and nm: "nm \<noteq> [DOT]" "nm \<noteq> [DOT, DOT]"
  shows "case boot_lookup bd nm of
      None \<Rightarrow> vfs_open cl rq s = Some (vfs_error ENOENT, s)
    | Some e \<Rightarrow> \<exists>s'. vfs_open cl rq s = Some (vfs_result 0 [Some (int (free_fd (fdarray (clients s cl))))], s')
        \<and> opened cl (free_fd (fdarray (clients s cl))) e s s'"
proof -
  let ?a = "nameptr (clients s cl)" and ?i = "free_fd (fdarray (clients s cl))"
  obtain b where b: "fs_find (boot_dir @ SLASH # nm) s = Some b" "sb_dir (supers s b) = boot_dir"
    "sb_vops (supers s b) = Bootfs" "sb_data (supers s b) = BootData (boot_list bd)"
    "v_vnid (vnodes s (sb_root (supers s b))) = 0" "v_sb (vnodes s (sb_root (supers s b))) = b"
    using fs_find_boot [OF m, of "SLASH # nm"] by blast
  have "is_str nm (?a + length boot_dir + 1) (vmem s)"
    using is_str_append [OF p] by simp
  then have q: "cstring (?a + length boot_dir + 1) (vmem s) = Some nm"
    by (rule cstring_str)
  note c = cstring_str [OF p]
  show ?thesis
  proof (cases "boot_lookup bd nm")
    case None
    then have "List.find (\<lambda>n. bi_name n = nm) (boot_list bd) = None"
      using find_boot_list [OF nm, of bd] by simp
    then show ?thesis
      using None cl i d b q c by (simp add: vfs_open_def Let_def walk_op_def bootfs_walk_def boot_inodes_def)
  next
    case (Some e)
    then obtain n where n: "List.find (\<lambda>n. bi_name n = nm) (boot_list bd) = Some n" "bi_offset n = bn_offset e"
      "bi_size n = bn_vsize e"
      using find_boot_list [OF nm, of bd] by auto
    obtain s1 where s1: "vget b (bi_ino n) s = (heap_next s, s1)" "boot_inode (heap_next s) s1 = Some n"
      "v_sb (vnodes s1 (heap_next s)) = b" "supers s1 = supers s" "clients s1 = clients s"
      "heap_next s1 = heap_next s + 1" "mount_list s1 = mount_list s" "bootimage s1 = bootimage s"
      "conn_table s1 = conn_table s" "\<forall>v. v \<noteq> heap_next s \<longrightarrow> vnodes s1 v = vnodes s v"
      using vget_boot [OF b(4) boot_list_distinct find_in_set [OF n(1)]] by blast
    let ?s2 = "s1\<lparr>heap_next := heap_next s1 + 1\<rparr>" and ?f = "heap_next s1"
    let ?s' = "set_fd cl ?i ?f (put_ofile ?f (new_ofile (heap_next s) rq (FileCookie (bi_offset n * 0x1000) 0)) ?s2)"
    have bi: "boot_inode v (s1\<lparr>heap_next := x\<rparr>) = boot_inode v s1" for v x
      by (simp add: boot_inode_def boot_inodes_def)
    have h: "0 < heap_next s" using m by (auto simp: boot_mounted_def)
    have "vfs_open cl rq s = Some (vfs_result 0 [Some (int ?i)], ?s')"
      using cl i d b q c n s1 h
      by (simp add: vfs_open_def Let_def walk_op_def bootfs_walk_def boot_inodes_def new_def bootfs_open_def bi)
    moreover have "opened cl ?i e s ?s'"
      unfolding opened_def using s1 n b(3)
      by (auto simp: set_fd_def put_ofile_def put_client_def new_ofile_def vnode_kind_def boot_inode_def boot_inodes_def same_fs_def)
    ultimately show ?thesis using Some by auto
  qed
qed

text \<open>C39. The server starts, with the boot directory mounted on \<open>/boot\<close>, and finds its files by name:
  whatever clients have done since without changing the mounts, opening \<open>/boot/name\<close> gives the lowest
  free descriptor, open at position 0 on the place and size the boot directory records for the last
  entry of that name, and \<open>ENOENT\<close> when there is none.\<close>
theorem vfs_open_finds_boot_file:
  "\<exists>s0. vfs_start (vfs_empty bd img) = Some s0 \<and>
    (\<forall>s cl rq nm. same_fs s0 s \<longrightarrow> cl \<noteq> 0 \<longrightarrow> free_fd (fdarray (clients s cl)) < MAX_FDS \<longrightarrow> rq_data rq ! 0 = 0 \<longrightarrow>
      is_str (boot_dir @ SLASH # nm) (nameptr (clients s cl)) (vmem s) \<longrightarrow> nm \<noteq> [DOT] \<longrightarrow> nm \<noteq> [DOT, DOT] \<longrightarrow>
      (case boot_lookup bd nm of
         None \<Rightarrow> vfs_open cl rq s = Some (vfs_error ENOENT, s)
       | Some e \<Rightarrow> \<exists>s'. vfs_open cl rq s = Some (vfs_result 0 [Some (int (free_fd (fdarray (clients s cl))))], s')
           \<and> opened cl (free_fd (fdarray (clients s cl))) e s s'))"
proof -
  obtain s0 where s0: "vfs_start (vfs_empty bd img) = Some s0" "boot_mounted bd s0"
    using vfs_start_mounts by blast
  show ?thesis
    by (intro exI [of _ s0] conjI s0(1) allI impI vfs_open_boot [OF boot_mounted_same [OF s0(2)]])
qed

end
