(* ===== verification/PosixVfsInv.thy ===== *)
theory PosixVfsInv
  imports PosixVfs VfsInv
begin

text \<open>
  A program and the file system server together: reading delivers the bytes of the file, in one
  message or page by page, and \<open>cat\<close> gets all of them.
\<close>

section \<open>Data in pages\<close>

lemma recv_data_messages:
  "inbox p = map Bytes (data_messages bs) @ l \<Longrightarrow> recv_pages (length bs) p = Some (bs, p\<lparr>inbox := l\<rparr>)"
proof (induction bs arbitrary: p rule: data_messages.induct)
  case (1 bs)
  show ?case
  proof (cases "length bs > 0x1000")
    case True
    let ?p = "p\<lparr>inbox := map Bytes (data_messages (drop 0x1000 bs)) @ l\<rparr>"
    have "take_bytes 0x1000 p = Some (take 0x1000 bs, ?p)"
      using "1.prems" True by (simp add: data_messages.simps [of bs] take_bytes_def)
    moreover have "recv_pages (length bs - 0x1000) ?p = Some (drop 0x1000 bs, ?p\<lparr>inbox := l\<rparr>)"
      using "1.IH" [OF True, of ?p] by simp
    ultimately show ?thesis using True by (subst recv_pages.simps) simp
  next
    case False
    then show ?thesis
      using "1.prems" by (subst recv_pages.simps) (simp add: data_messages.simps [of bs] take_bytes_def)
  qed
qed

section \<open>Reading a file of the boot directory\<close>

definition file_slice :: "bootfs_inode \<Rightarrow> int \<Rightarrow> nat \<Rightarrow> vfs \<Rightarrow> byte list" where
  "file_slice n pos len s = map (\<lambda>k. bootimage s (bi_offset n * 0x1000 + pos + int k)) [0..<len]"

text \<open>Descriptor \<open>cookie\<close> of the program is open on inode \<open>n\<close>, with position \<open>pos\<close> in the server.\<close>

definition reading :: "int \<Rightarrow> nat \<Rightarrow> bootfs_inode \<Rightarrow> int \<Rightarrow> vfs \<Rightarrow> posix \<Rightarrow> bool" where
  "reading local cookie n pos s p \<longleftrightarrow> (\<exists>cl sz fd f. hashtable_lookup (conn_table s) local = Some (cl, sz)
     \<and> cl \<noteq> 0 \<and> srv_fd (vfs_fds p cookie) = int fd \<and> fd < MAX_FDS \<and> fdarray (clients s cl) ! fd = f \<and> f \<noteq> 0
     \<and> vnode_kind (o_vnode (ofiles s f)) s = Bootfs \<and> boot_inode (o_vnode (ofiles s f)) s = Some n
     \<and> o_pos (ofiles s f) = pos)"

lemma bootfs_read_slice:
  assumes "boot_inode v s = Some n" and "0 \<le> pos" and "pos \<le> bi_size n"
  shows "bootfs_read v (int count) pos s = Some (0, file_slice n pos (min count (nat (bi_size n - pos))) s)"
proof (cases "pos = bi_size n")
  case True
  then show ?thesis using assms by (simp add: bootfs_read_def file_slice_def)
next
  case False
  have "nat (if int count \<le> bi_size n - pos then int count else bi_size n - pos) = min count (nat (bi_size n - pos))"
    using assms False by auto
  then show ?thesis using assms False by (simp add: bootfs_read_def file_slice_def Let_def)
qed

lemma length_slice [simp]: "length (file_slice n pos len s) = len"
  by (simp add: file_slice_def)

lemma read_exchange:
  fixes count :: nat
  assumes r: "reading local cookie n pos s p" and b: "0 \<le> pos" "pos \<le> bi_size n"
  defines "k \<equiv> min count (nat (bi_size n - pos))"
  defines "bs \<equiv> file_slice n pos k s"
  shows "\<exists>s'. exchange port (libc_request local VFS_READ [nat (srv_fd (vfs_fds p cookie)), count, 0, 0, 0, 0] 0 0 0) (s, p)
    = Some (s', p\<lparr>inbox := inbox p @ Reply (vfs_result 0 [Some (int k)]) None #
        map Bytes (if k < 0x1000 then [bs] else data_messages bs)\<rparr>)
    \<and> reading local cookie n (pos + int k) s' p \<and> bootimage s' = bootimage s"
proof -
  obtain cl sz fd f where c: "hashtable_lookup (conn_table s) local = Some (cl, sz)" "cl \<noteq> 0"
    "srv_fd (vfs_fds p cookie) = int fd" "fd < MAX_FDS" "fdarray (clients s cl) ! fd = f" "f \<noteq> 0"
    "vnode_kind (o_vnode (ofiles s f)) s = Bootfs" "boot_inode (o_vnode (ofiles s f)) s = Some n"
    "o_pos (ofiles s f) = pos"
    using r unfolding reading_def by blast
  let ?s = "put_ofile f ((ofiles s f)\<lparr>o_pos := pos + int k\<rparr>) s"
  have "vfs_read cl (libc_request local VFS_READ [fd, count, 0, 0, 0, 0] 0 0 0) s =
      Some (vfs_result 0 [Some (int k)], Some bs, ?s)"
    using c bootfs_read_slice [OF c(8) b, of count]
    by (simp add: vfs_read_def fd_slot_def libc_request_def k_def bs_def)
  then have "vfs_serve port (libc_request local VFS_READ [fd, count, 0, 0, 0, 0] 0 0 0) s =
    Some ((c_out (clients s cl), local, Reply (vfs_result 0 [Some (int k)]) None) #
      map (\<lambda>b. (c_out (clients s cl), local, Bytes b)) (if k < 0x1000 then [bs] else data_messages bs), ?s)"
    using c(1) by (simp add: vfs_serve_def vfs_command_def libc_request_def put_ofile_def bs_def Let_def)
  moreover have "reading local cookie n (pos + int k) ?s p"
    unfolding reading_def using c
    by (intro exI [of _ cl] exI [of _ sz] exI [of _ fd] exI [of _ f])
      (simp add: put_ofile_def vnode_kind_def boot_inode_def boot_inodes_def)
  ultimately show ?thesis using c(3) by (simp add: exchange_def put_ofile_def comp_def)
qed

lemma reading_inbox: "reading local cookie n pos s (p\<lparr>inbox := l, perrno := e\<rparr>) = reading local cookie n pos s p"
  by (simp add: reading_def)

lemma read_reply:
  assumes "inbox p = Reply (vfs_result 0 [Some (int (length bs))]) None #
      map Bytes (if length bs < 0x1000 then [bs] else data_messages bs)"
    and "length bs \<le> count"
  shows "vfs_read_reply count p = Some (int (length bs), bs,
    p\<lparr>inbox := (if bs = [] then [Bytes []] else []), perrno := 0\<rparr>)"
proof -
  let ?p = "p\<lparr>inbox := map Bytes (if length bs < 0x1000 then [bs] else data_messages bs)\<rparr>"
  have t: "take_reply p = Some (vfs_result 0 [Some (int (length bs))], None, ?p)"
    using assms(1) by (simp add: take_reply_def)
  consider "bs = []" | "bs \<noteq> []" "length bs < 0x1000" | "0x1000 \<le> length bs" by linarith
  then show ?thesis
  proof cases
    case 1
    then show ?thesis using t by (simp add: vfs_read_reply_def vfs_result_def)
  next
    case 2
    then have "take_bytes count ?p = Some (bs, p\<lparr>inbox := []\<rparr>)" using assms(2) by (simp add: take_bytes_def)
    then show ?thesis using t 2 by (simp add: vfs_read_reply_def vfs_result_def)
  next
    case 3
    then have "recv_pages (length bs) ?p = Some (bs, p\<lparr>inbox := []\<rparr>)"
      using recv_data_messages [of ?p bs "[]"] by simp
    moreover have "bs \<noteq> []" using 3 by auto
    ultimately show ?thesis using t 3 by (simp add: vfs_read_reply_def vfs_result_def)
  qed
qed

lemma read_call:
  fixes count :: nat
  assumes r: "reading local cookie n pos s p" and b: "0 \<le> pos" "pos \<le> bi_size n" and e: "inbox p = []"
  defines "k \<equiv> min count (nat (bi_size n - pos))"
  shows "\<exists>s' p'. vfs_read_call port local cookie count (s, p) = Some (int k, file_slice n pos k s, s', p')
    \<and> reading local cookie n (pos + int k) s' p' \<and> bootimage s' = bootimage s
    \<and> inbox p' = (if k = 0 then [Bytes []] else [])"
proof -
  let ?bs = "file_slice n pos k s"
  let ?p = "p\<lparr>inbox := Reply (vfs_result 0 [Some (int k)]) None # map Bytes (if k < 0x1000 then [?bs] else data_messages ?bs)\<rparr>"
  obtain s' where s': "exchange port (libc_request local VFS_READ [nat (srv_fd (vfs_fds p cookie)), count, 0, 0, 0, 0] 0 0 0) (s, p)
    = Some (s', ?p)" "reading local cookie n (pos + int k) s' p" "bootimage s' = bootimage s"
    using read_exchange [OF r b, of port count] e unfolding k_def by auto
  let ?q = "?p\<lparr>inbox := (if ?bs = [] then [Bytes []] else []), perrno := 0\<rparr>"
  have "vfs_read_reply count ?p = Some (int k, ?bs, ?q)"
    using read_reply [of ?p ?bs count] by (simp add: k_def)
  then have "vfs_read_call port local cookie count (s, p) = Some (int k, ?bs, s', ?q)"
    using s'(1) by (simp add: vfs_read_call_def)
  moreover have "reading local cookie n (pos + int k) s' ?q" using s'(2) by (simp add: reading_def)
  moreover have "inbox ?q = (if k = 0 then [Bytes []] else [])" by (simp add: file_slice_def)
  ultimately show ?thesis using s'(3) by blast
qed

text \<open>C38. Reading through the file system server: a program that asks for \<open>count\<close> bytes of an open file
  of the boot directory gets exactly the next bytes of the file, as many as asked for or as are left,
  whether they travel in one message or page by page; the position in the server moves by that
  number. At the end of the file the program gets 0, and the empty message the server sends after its
  result is left waiting on the program's port.\<close>
theorem vfs_read_round_trip:
  assumes "reading local cookie n pos s p" and "0 \<le> pos" and "pos \<le> bi_size n" and "inbox p = []"
  shows "\<exists>s' p'. vfs_read_call port local cookie count (s, p) =
      Some (min (int count) (bi_size n - pos), file_slice n pos (min count (nat (bi_size n - pos))) s, s', p')
    \<and> reading local cookie n (pos + min (int count) (bi_size n - pos)) s' p'
    \<and> inbox p' = (if count = 0 \<or> pos = bi_size n then [Bytes []] else [])"
proof -
  have m: "int (min count (nat (bi_size n - pos))) = min (int count) (bi_size n - pos)"
    using assms(3) by (auto simp: min_def)
  have z: "min count (nat (bi_size n - pos)) = 0 \<longleftrightarrow> count = 0 \<or> pos = bi_size n"
    using assms(3) by (auto simp: min_def)
  show ?thesis using read_call [OF assms, of port count] unfolding m z by blast
qed

lemma slice_append:
  "file_slice n pos (a + b) s = file_slice n pos a s @ file_slice n (pos + int a) b s"
  by (rule nth_equalityI) (auto simp: file_slice_def nth_append algebra_simps)

lemma cat_reads:
  assumes "reading local cookie n pos s p" and "0 \<le> pos" and "pos \<le> bi_size n" and "inbox p = []"
  shows "\<exists>out s' p'. cat_loop port local cookie (s, p) = Some (out, s', p')
    \<and> concat out = file_slice n pos (nat (bi_size n - pos)) s \<and> inbox p' = [Bytes []]"
  using assms
proof (induction "nat (bi_size n - pos)" arbitrary: pos s p rule: less_induct)
  case less
  let ?k = "min 255 (nat (bi_size n - pos))"
  obtain s1 p1 where 1: "vfs_read_call port local cookie 255 (s, p) = Some (int ?k, file_slice n pos ?k s, s1, p1)"
    "reading local cookie n (pos + int ?k) s1 p1" "bootimage s1 = bootimage s"
    "inbox p1 = (if ?k = 0 then [Bytes []] else [])"
    using read_call [OF less.prems, of port 255] by blast
  show ?case
  proof (cases "?k = 0")
    case True
    then have "nat (bi_size n - pos) = 0" by simp
    then show ?thesis using 1 by (subst cat_loop.simps) (simp add: file_slice_def)
  next
    case False
    have d: "nat (bi_size n - (pos + int ?k)) = nat (bi_size n - pos) - ?k" using less.prems by auto
    have "\<exists>out s' p'. cat_loop port local cookie (s1, p1) = Some (out, s', p')
        \<and> concat out = file_slice n (pos + int ?k) (nat (bi_size n - (pos + int ?k))) s1 \<and> inbox p' = [Bytes []]"
      using 1(2,4) False less.prems by (intro less.hyps) auto
    then obtain out s' p' where 2: "cat_loop port local cookie (s1, p1) = Some (out, s', p')"
      "concat out = file_slice n (pos + int ?k) (nat (bi_size n - (pos + int ?k))) s1" "inbox p' = [Bytes []]" by blast
    have "cat_loop port local cookie (s, p) = Some (file_slice n pos ?k s # out, s', p')"
      using 1(1) False 2(1) by (subst cat_loop.simps) simp
    moreover have "concat (file_slice n pos ?k s # out) = file_slice n pos (nat (bi_size n - pos)) s"
      using slice_append [of n pos ?k "nat (bi_size n - pos) - ?k" s] 2(2) 1(3) d
      by (simp add: file_slice_def)
    ultimately show ?thesis using 2(3) by blast
  qed
qed

section \<open>From the boot image to the screen\<close>

lemma open_reading:
  assumes m: "boot_mounted bd s" and c: "hashtable_lookup (conn_table s) local = Some (cl, sz)" "cl \<noteq> 0"
    and fds: "free_fd (fdarray (clients s cl)) < MAX_FDS" "length (fdarray (clients s cl)) = MAX_FDS"
    and p: "is_str (boot_dir @ SLASH # nm) (nameptr (clients s cl)) (vmem s)" "nm \<noteq> [DOT]" "nm \<noteq> [DOT, DOT]"
    and e: "boot_lookup bd nm = Some e"
    and q: "inbox p = []" "free_fd (fd_table p) < MAX_FDS" "length (fd_table p) = MAX_FDS"
  shows "\<exists>s1 p1 n. vfs_open_call port local buf area (s, p) = Some (int (free_fd (fd_table p)), s1, p1)
    \<and> fd_table p1 = (fd_table p)[free_fd (fd_table p) := next_cookie p] \<and> inbox p1 = []
    \<and> reading local (next_cookie p) n 0 s1 p1 \<and> bi_offset n = bn_offset e \<and> bi_size n = bn_vsize e
    \<and> bootimage s1 = bootimage s"
proof -
  let ?rq = "libc_request local VFS_OPEN [0, area, 0, 0x2000, 0, 0] 0 (int area) 0"
  let ?i = "free_fd (fdarray (clients s cl))"
  have "rq_data ?rq ! 0 = 0" by (simp add: libc_request_def)
  from vfs_open_boot [OF m c(2) fds(1) this p] e obtain s1 where
    s1: "vfs_open cl ?rq s = Some (vfs_result 0 [Some (int ?i)], s1)" "opened cl ?i e s s1" by auto
  obtain f n where f: "fdarray (clients s1 cl) = (fdarray (clients s cl))[?i := f]" "0 < f"
    "boot_inode (o_vnode (ofiles s1 f)) s1 = Some n" "vnode_kind (o_vnode (ofiles s1 f)) s1 = Bootfs"
    "bi_offset n = bn_offset e" "bi_size n = bn_vsize e" "o_pos (ofiles s1 f) = 0"
    "conn_table s1 = conn_table s" "bootimage s1 = bootimage s"
    using s1(2) unfolding opened_def by blast
  have x: "exchange port ?rq (s, p) = Some (s1, p\<lparr>inbox := [Reply (vfs_result 0 [Some (int ?i)]) None]\<rparr>)"
    using s1(1) c(1) q(1) by (simp add: exchange_def vfs_serve_def vfs_command_def libc_request_def Let_def)
  let ?v = "\<lparr>fd_buf = buf, srv_fd = int ?i, fd_offset = 0, fd_length = None, fd_more = None\<rparr>"
  let ?p1 = "p\<lparr>inbox := [], next_cookie := next_cookie p + 1,
    fd_table := (fd_table p)[free_fd (fd_table p) := next_cookie p], vfs_fds := (vfs_fds p)(next_cookie p := ?v)\<rparr>"
  have "open_reply buf (p\<lparr>inbox := [Reply (vfs_result 0 [Some (int ?i)]) None]\<rparr>) = Some (int (free_fd (fd_table p)), ?p1)"
    using q by (simp add: open_reply_def take_reply_def vfs_result_def fdl_alloc_descriptor_def Let_def numeral_eq_Suc)
  then have "vfs_open_call port local buf area (s, p) = Some (int (free_fd (fd_table p)), s1, ?p1)"
    using x by (simp add: vfs_open_call_def)
  moreover have "reading local (next_cookie p) n 0 s1 ?p1"
    unfolding reading_def using c fds f
    by (intro exI [of _ cl] exI [of _ sz] exI [of _ ?i] exI [of _ f]) simp
  ultimately show ?thesis using f by (intro exI [of _ s1] exI [of _ ?p1] exI [of _ n]) simp
qed


section \<open>Witnesses\<close>

text \<open>A boot image with one file of two bytes at page 1, and a connected client.\<close>

definition demo_entry :: bentry where
  "demo_entry = \<lparr>bn_name = [0x61], bn_offset = 1, bn_type = 3, bn_vsize = 2\<rparr>"

definition demo_client :: client where
  "demo_client = \<lparr>c_in = 7, c_out = 8, filename_area = 0, nameptr = 500, cwd = 0, fdarray = 0 # replicate 255 0\<rparr>"

definition demo_posix :: posix where
  "demo_posix = \<lparr>fd_table = 0 # replicate 255 0, vfs_fds = (\<lambda>_. \<lparr>fd_buf = 0, srv_fd = 0, fd_offset = 0, fd_length = None, fd_more = None\<rparr>),
     next_cookie = 1, perrno = 0, inbox = []\<rparr>"

definition demo_server :: "hashtable \<Rightarrow> vfs \<Rightarrow> vfs" where
  "demo_server t s = s\<lparr>conn_table := t, clients := (\<lambda>_. demo_client), vmem := put (boot_dir @ [SLASH, 0x61, 0]) 500 (\<lambda>_. 0)\<rparr>"

lemma demo_connection: "\<exists>t. hashtable_lookup t 7 = Some (1, 1044)"
proof -
  let ?t = "hashtable_new 3 4"
  have n: "ht_ok ?t" "hmap ?t = Map.empty" by (rule new_ok; simp)+
  have "table_room (Suc 0) ?t" by (simp add: table_room_def capacity_def hashtable_new_def table_size_def)
  from insert_room [OF n(1) this, of 7 "(1, 1044)"] n(2) obtain t where "ht_ok t" "hmap t = [7 \<mapsto> (1, 1044)]" by auto
  then show ?thesis by (intro exI [of _ t]) (simp add: lookup_correct)
qed

lemma demo_name: "is_str (boot_dir @ SLASH # [0x61]) (nameptr (clients (demo_server t s) cl)) (vmem (demo_server t s))"
  by (simp add: demo_server_def demo_client_def boot_dir_def)

lemma demo_facts:
  "same_fs s (demo_server t s)" "bootimage (demo_server t s) = bootimage s" "conn_table (demo_server t s) = t"
  "free_fd (fdarray (clients (demo_server t s) cl)) = 0" "length (fdarray (clients (demo_server t s) cl)) = MAX_FDS"
  "boot_lookup [demo_entry] [0x61] = Some demo_entry" "0 \<le> bn_vsize demo_entry"
  "inbox demo_posix = []" "free_fd (fd_table demo_posix) = 0" "length (fd_table demo_posix) = MAX_FDS"
  by (simp_all add: demo_server_def same_fs_def demo_client_def boot_lookup_def demo_entry_def boot_file_def
      BOOTDIR_DIRECTORY_def demo_posix_def)

theorem vfs_open_finds_boot_file_witness:
  "\<exists>s0 t s'. vfs_start (vfs_empty [demo_entry] (\<lambda>_. 0)) = Some s0
     \<and> vfs_open 1 (libc_request 7 VFS_OPEN [0, 0, 0, 0x2000, 0, 0] 0 0 0) (demo_server t s0) = Some (vfs_result 0 [Some 0], s')
     \<and> opened 1 0 demo_entry (demo_server t s0) s'"
proof -
  let ?rq = "libc_request 7 VFS_OPEN [0, 0, 0, 0x2000, 0, 0] 0 0 0"
  obtain s0 where s0: "vfs_start (vfs_empty [demo_entry] (\<lambda>_. 0)) = Some s0" and
    a: "\<And>s cl rq nm. same_fs s0 s \<Longrightarrow> cl \<noteq> 0 \<Longrightarrow> free_fd (fdarray (clients s cl)) < MAX_FDS \<Longrightarrow> rq_data rq ! 0 = 0 \<Longrightarrow>
      is_str (boot_dir @ SLASH # nm) (nameptr (clients s cl)) (vmem s) \<Longrightarrow> nm \<noteq> [DOT] \<Longrightarrow> nm \<noteq> [DOT, DOT] \<Longrightarrow>
      (case boot_lookup [demo_entry] nm of
         None \<Rightarrow> vfs_open cl rq s = Some (vfs_error ENOENT, s)
       | Some e \<Rightarrow> \<exists>s'. vfs_open cl rq s = Some (vfs_result 0 [Some (int (free_fd (fdarray (clients s cl))))], s')
           \<and> opened cl (free_fd (fdarray (clients s cl))) e s s')"
    using vfs_open_finds_boot_file [of "[demo_entry]" "\<lambda>_. 0"] by blast
  have d: "rq_data ?rq ! 0 = 0" by (simp add: libc_request_def)
  fix t
  have "\<exists>s'. vfs_open 1 ?rq (demo_server t s0) = Some (vfs_result 0 [Some 0], s') \<and> opened 1 0 demo_entry (demo_server t s0) s'"
    using a [OF demo_facts(1) _ _ d demo_name [of t s0 1]] demo_facts(4,6) by simp
  then show ?thesis using s0 by blast
qed


definition demo_reading :: "hashtable \<Rightarrow> vfs" where
  "demo_reading t = (vfs_empty [] (\<lambda>i. word_of_int i))\<lparr>conn_table := t, clients := (\<lambda>_. demo_client\<lparr>fdarray := 9 # replicate 255 0\<rparr>),
     supers := (\<lambda>_. \<lparr>sb_dir = [], sb_vops = Bootfs, sb_data = BootData [\<lparr>bi_ino = 0, bi_offset = 1, bi_size = 3, bi_name = []\<rparr>], sb_root = 0\<rparr>),
     vnodes := (\<lambda>_. \<lparr>v_vnid = 0, v_refcount = 1, v_sb = 0, v_data = Some 0\<rparr>)\<rparr>"

theorem vfs_read_round_trip_witness:
  "\<exists>t s' p'. vfs_read_call 3 7 1 2 (demo_reading t, demo_posix) = Some (2, [0, 1], s', p') \<and> inbox p' = []"
proof -
  obtain t where t: "hashtable_lookup t 7 = Some (1, 1044)" using demo_connection by blast
  let ?n = "\<lparr>bi_ino = 0, bi_offset = 1, bi_size = 3, bi_name = []\<rparr>"
  have r: "reading 7 1 ?n 0 (demo_reading t) demo_posix"
    unfolding reading_def using t
    by (intro exI [of _ 1] exI [of _ 1044] exI [of _ 0] exI [of _ 9])
      (simp add: demo_reading_def demo_posix_def vfs_empty_def vnode_kind_def boot_inode_def boot_inodes_def)
  have b: "0 \<le> (0 :: int)" "0 \<le> bi_size ?n" by simp_all
  have "file_slice ?n 0 2 (demo_reading t) = [0, 1]"
    by (simp add: file_slice_def demo_reading_def vfs_empty_def upt_rec)
  with vfs_read_round_trip [OF r b demo_facts(8), of 3 2] show ?thesis by auto
qed

end
