(* ===== verification/Spec2Isabelle.thy ===== *)
theory Spec2Isabelle
  imports Teardown Syscall SemInv PortInv SnprintfInv QsortInv RegionInv Vt100Inv PosixVfsInv
begin

text \<open>
  A verification development for OpenBLT.
\<close>

end
